(* ===== verification/Prelude.thy ===== *)
theory Prelude
  imports Main "HOL-Library.Word" "HOL-Library.Multiset"
begin

text \<open>
  What every component of the model shares: the widths of the Go integers, the results of
  fallible calls (\<open>(value, error)\<close> of Go is a value of \<open>error + value\<close>), the loops that stop
  at the first error, the list helpers of the code (\<open>append(xs[:i], xs[i+1:]...)\<close>,
  \<open>lo.Uniq\<close>), and the frame that turns a one-call invariant into an invariant of
  every sequence of transactions.
\<close>

named_theorems res_simps \<open>evaluation of result-valued programs\<close>
named_theorems frame_simps \<open>what an operation leaves unchanged\<close>

section \<open>Types\<close>

text \<open>
  Go's \<open>uint64\<close> wraps; \<open>big.Int\<close> does not, and is \<open>int\<close>.
  An \<open>ethcommon.Address\<close> is 20 bytes.
\<close>

type_synonym u64 = "64 word"
type_synonym u8 = "8 word"
type_synonym i64 = "64 word"
type_synonym address = "160 word"
type_synonym hash = "256 word"
type_synonym bytes = "u8 list"

definition IsZeroAddress :: "address \<Rightarrow> bool" where
  "IsZeroAddress a \<longleftrightarrow> a = 0"

lemma unat_u64_Suc: "(x :: u64) \<noteq> - 1 \<Longrightarrow> unat (x + 1) = Suc (unat x)"
proof -
  assume "x \<noteq> - 1"
  then have "unat x \<noteq> unat (- 1 :: u64)" by (simp add: word_unat_eq_iff)
  moreover have "unat x < 2 ^ LENGTH(64)" by (rule unsigned_less)
  moreover have "unat (- 1 :: u64) = 2 ^ 64 - 1"
    by (simp add: unsigned_minus_1_eq_mask mask_eq_exp_minus_1)
  ultimately have "Suc (unat x) < 2 ^ 64" by simp
  then show ?thesis by (simp add: unat_word_ariths)
qed

lemma u64_less_Suc: "(x :: u64) \<noteq> - 1 \<Longrightarrow> x < x + 1"
  by (simp add: word_less_nat_alt unat_u64_Suc)

lemma u64_less_Suc_iff: "(x :: u64) \<noteq> - 1 \<Longrightarrow> y < x + 1 \<longleftrightarrow> y \<le> x"
  by (simp add: word_less_nat_alt word_le_nat_alt unat_u64_Suc less_Suc_eq_le)

text \<open>\<open>big.Int.Div\<close> is Euclidean division: the remainder is never negative.\<close>

definition bigDiv :: "int \<Rightarrow> int \<Rightarrow> int" where
  "bigDiv x y = (if 0 < y then x div y else - (x div (- y)))"

lemma bigDiv_euclid: "y \<noteq> 0 \<Longrightarrow> 0 \<le> x - y * bigDiv x y \<and> x - y * bigDiv x y < \<bar>y\<bar>"
  using minus_mult_div_eq_mod [of x y] minus_mult_div_eq_mod [of x "- y"]
    pos_mod_bound [of y x] pos_mod_sign [of y x] pos_mod_bound [of "- y" x] pos_mod_sign [of "- y" x]
  by (cases "0 < y") (simp_all add: bigDiv_def)

lemma bigDiv_pos [simp]: "0 < y \<Longrightarrow> bigDiv x y = x div y"
  by (simp add: bigDiv_def)

lemma int_div_bounds:
  fixes x y :: int
  assumes "0 < y"
  shows "(x div y) * y \<le> x" and "x < (x div y + 1) * y"
proof -
  have "x div y * y + x mod y = x" by (rule div_mult_mod_eq)
  then show "(x div y) * y \<le> x" "x < (x div y + 1) * y"
    using pos_mod_sign [OF assms, of x] pos_mod_bound [OF assms, of x]
    unfolding distrib_right by linarith+
qed

text \<open>A ratio that falls twice has fallen.\<close>

lemma ratio_trans:
  fixes S S1 L L1 S3 L3 :: int
  assumes "0 < S1" "S * L1 \<le> S1 * L" "L3 * S1 \<le> L1 * S3" "0 \<le> S" "0 \<le> S3"
  shows "S * L3 \<le> S3 * L"
proof -
  have "S * (L3 * S1) \<le> S * (L1 * S3)" using assms(3,4) by (rule mult_left_mono)
  also have "\<dots> = (S * L1) * S3" by simp
  also have "\<dots> \<le> (S1 * L) * S3" using assms(2,5) by (rule mult_right_mono)
  finally have "S1 * (S * L3) \<le> S1 * (S3 * L)" by (simp add: mult_ac)
  then show ?thesis using assms(1) by simp
qed

section \<open>Results\<close>

definition ebind :: "'e + 'a \<Rightarrow> ('a \<Rightarrow> 'e + 'b) \<Rightarrow> 'e + 'b" where
  "ebind m f = (case m of Inl e \<Rightarrow> Inl e | Inr x \<Rightarrow> f x)"

lemma ebind_simps [simp, res_simps]:
  "ebind (Inl e) f = Inl e"
  "ebind (Inr x) f = f x"
  by (simp_all add: ebind_def)

lemma ebind_Inr_iff: "ebind m f = Inr y \<longleftrightarrow> (\<exists>x. m = Inr x \<and> f x = Inr y)"
  by (cases m) auto

lemma ebind_Inl_iff: "ebind m f = Inl e \<longleftrightarrow> m = Inl e \<or> (\<exists>x. m = Inr x \<and> f x = Inl e)"
  by (cases m) auto

lemma ebind_InrE:
  assumes "ebind m f = Inr y"
  obtains x where "m = Inr x" and "f x = Inr y"
  using assms by (auto simp: ebind_Inr_iff)

lemma if_Inl_Inr_iff: "(if c then Inl e else r) = Inr y \<longleftrightarrow> \<not> c \<and> r = Inr y"
  by simp

lemma ebind_assoc: "ebind (ebind m f) g = ebind m (\<lambda>x. ebind (f x) g)"
  by (cases m) auto

lemma ebind_cong [fundef_cong]:
  assumes "m = m'" and "\<And>x. m' = Inr x \<Longrightarrow> f x = f' x"
  shows "ebind m f = ebind m' f'"
  using assms by (cases m') auto

lemmas res_ok = ebind_Inr_iff if_Inl_Inr_iff Let_def

text \<open>A read that must find something: \<open>MustGet\<close>.\<close>

definition must :: "'e \<Rightarrow> 'a option \<Rightarrow> 'e + 'a" where
  "must e x = (case x of None \<Rightarrow> Inl e | Some v \<Rightarrow> Inr v)"

lemma must_simps [simp, res_simps]:
  "must e None = Inl e"
  "must e (Some v) = Inr v"
  by (simp_all add: must_def)

lemma must_Inr_iff [simp]: "must e x = Inr v \<longleftrightarrow> x = Some v"
  by (cases x) auto

lemma must_Inl_iff: "must e x = Inl e' \<longleftrightarrow> x = None \<and> e' = e"
  by (cases x) auto

section \<open>Loops that stop at the first error\<close>

fun efold :: "('a \<Rightarrow> 's \<Rightarrow> 'e + 's) \<Rightarrow> 'a list \<Rightarrow> 's \<Rightarrow> 'e + 's" where
  "efold f [] s = Inr s"
| "efold f (x # xs) s = ebind (f x s) (efold f xs)"

fun emap :: "('a \<Rightarrow> 'e + 'b) \<Rightarrow> 'a list \<Rightarrow> 'e + 'b list" where
  "emap f [] = Inr []"
| "emap f (x # xs) = ebind (f x) (\<lambda>y. ebind (emap f xs) (\<lambda>ys. Inr (y # ys)))"

lemma efold_append: "efold f (xs @ ys) s = ebind (efold f xs s) (efold f ys)"
  by (induction xs arbitrary: s) (auto simp: ebind_assoc intro!: ebind_cong)

lemma efold_invariant:
  assumes "efold f xs s = Inr s'" and "P s"
    and "\<And>x t t'. x \<in> set xs \<Longrightarrow> P t \<Longrightarrow> f x t = Inr t' \<Longrightarrow> P t'"
  shows "P s'"
  using assms
proof (induction xs arbitrary: s)
  case Nil
  then show ?case by simp
next
  case (Cons x xs)
  from Cons.prems(1) obtain t where t: "f x s = Inr t" and rest: "efold f xs t = Inr s'"
    by (auto simp: ebind_Inr_iff)
  have "P t" using Cons.prems(3) [OF _ Cons.prems(2) t] by simp
  then show ?case
    using Cons.IH [OF rest] Cons.prems(3) by (meson list.set_intros(2))
qed

lemma efold_unchanged:
  assumes "efold f xs s = Inr s'" and "\<And>x t t'. f x t = Inr t' \<Longrightarrow> g t' = g t"
  shows "g s' = g s"
  using efold_invariant [where P = "\<lambda>t. g t = g s", OF assms(1)] assms(2) by simp

lemma efold_total:
  assumes "\<And>x t. x \<in> set xs \<Longrightarrow> \<exists>t'. f x t = Inr t'"
  shows "\<exists>s'. efold f xs s = Inr s'"
  using assms
proof (induction xs arbitrary: s)
  case (Cons x xs)
  then obtain t where "f x s = Inr t" by fastforce
  with Cons show ?case by simp
qed simp

lemma emap_Inr_iff: "emap f xs = Inr ys \<longleftrightarrow> list_all2 (\<lambda>x y. f x = Inr y) xs ys"
  by (induction xs arbitrary: ys) (auto simp: ebind_Inr_iff list_all2_Cons1)

lemma emap_Inr_length: "emap f xs = Inr ys \<Longrightarrow> length ys = length xs"
  by (auto simp: emap_Inr_iff dest: list_all2_lengthD)

section \<open>List helpers\<close>

text \<open>\<open>append(xs[:index], xs[index+1:]...)\<close> at the first index that holds the value.\<close>

fun removeFirst :: "'a \<Rightarrow> 'a list \<Rightarrow> 'a list" where
  "removeFirst x [] = []"
| "removeFirst x (y # ys) = (if x = y then ys else y # removeFirst x ys)"

lemma removeFirst_remove1 [simp]: "removeFirst x xs = remove1 x xs"
  by (induction xs) auto

text \<open>\<open>lo.Uniq\<close>: the first occurrence of each value, in order.\<close>

definition uniq :: "'a list \<Rightarrow> 'a list" where
  "uniq xs = rev (remdups (rev xs))"

lemma set_uniq [simp]: "set (uniq xs) = set xs"
  by (simp add: uniq_def)

lemma distinct_uniq [simp]: "distinct (uniq xs)"
  by (simp add: uniq_def)

lemma uniq_Nil [simp]: "uniq [] = []"
  by (simp add: uniq_def)

lemma uniq_snoc: "uniq (xs @ [x]) = (if x \<in> set xs then uniq xs else uniq xs @ [x])"
  by (simp add: uniq_def)

lemma uniq_id: "distinct xs \<Longrightarrow> uniq xs = xs"
  by (simp add: uniq_def distinct_remdups_id)

section \<open>Unique indices\<close>

text \<open>\<open>indexes idx f reg\<close>: \<open>idx\<close> is the inverse of the field \<open>f\<close> over the entries of \<open>reg\<close>.\<close>

definition indexes :: "('f \<rightharpoonup> 'k) \<Rightarrow> ('v \<Rightarrow> 'f) \<Rightarrow> ('k \<rightharpoonup> 'v) \<Rightarrow> bool" where
  "indexes idx f reg \<longleftrightarrow> (\<forall>x k. idx x = Some k \<longleftrightarrow> (\<exists>v. reg k = Some v \<and> f v = x))"

lemma indexes_lookup: "indexes idx f reg \<Longrightarrow> reg k = Some v \<Longrightarrow> idx (f v) = Some k"
  by (auto simp: indexes_def)

lemma indexes_unique:
  "indexes idx f reg \<Longrightarrow> reg j = Some u \<Longrightarrow> reg k = Some v \<Longrightarrow> f u = f v \<Longrightarrow> j = k"
  using indexes_lookup [of idx f reg j u] indexes_lookup [of idx f reg k v] by simp

lemma indexes_insert:
  assumes "indexes idx f reg" and "reg k = None" and "idx (f v) = None"
  shows "indexes (idx(f v \<mapsto> k)) f (reg(k \<mapsto> v))"
proof -
  have inv: "idx y = Some i \<longleftrightarrow> (\<exists>t. reg i = Some t \<and> f t = y)" for y i
    using assms(1) by (auto simp: indexes_def)
  have "f t \<noteq> f v" if "reg j = Some t" for j t
    using inv [of "f t" j] that assms(3) by auto
  then show ?thesis using inv assms(2) by (auto simp: indexes_def)
qed

lemma indexes_update:
  assumes "indexes idx f reg" and "reg k = Some u" and "f v = f u"
  shows "indexes idx f (reg(k \<mapsto> v))"
  using assms by (auto simp: indexes_def)

lemma indexes_rename:
  assumes "indexes idx f reg" and "reg k = Some u" and "idx (f v) = None"
  shows "indexes ((idx(f u := None))(f v \<mapsto> k)) f (reg(k \<mapsto> v))"
  unfolding indexes_def
proof (intro allI)
  fix x j
  have inv: "idx y = Some i \<longleftrightarrow> (\<exists>t. reg i = Some t \<and> f t = y)" for y i
    using assms(1) by (auto simp: indexes_def)
  show "((idx(f u := None))(f v \<mapsto> k)) x = Some j \<longleftrightarrow>
      (\<exists>t. (reg(k \<mapsto> v)) j = Some t \<and> f t = x)"
  proof (cases "j = k")
    case True
    have "idx x = Some k \<longleftrightarrow> x = f u" using inv [of x k] assms(2) by auto
    then show ?thesis using True assms(3) by auto
  next
    case False
    have "f t \<noteq> f u" if "reg j = Some t" for t
      using indexes_unique [OF assms(1) that assms(2)] False by auto
    moreover have "f t \<noteq> f v" if "reg j = Some t" for t
      using indexes_lookup [OF assms(1) that] assms(3) by auto
    ultimately show ?thesis using False inv [of x j] by auto
  qed
qed

section \<open>Sums over the entries of a map\<close>

definition map_sum :: "('v \<Rightarrow> int) \<Rightarrow> ('k \<rightharpoonup> 'v) \<Rightarrow> int" where
  "map_sum f m = (\<Sum>k\<in>dom m. case m k of None \<Rightarrow> 0 | Some v \<Rightarrow> f v)"

lemma map_sum_upd:
  assumes "finite (dom m)"
  shows "map_sum f (m(k \<mapsto> v)) = map_sum f m - (case m k of None \<Rightarrow> 0 | Some u \<Rightarrow> f u) + f v"
proof -
  let ?g = "\<lambda>m j. case m j of None \<Rightarrow> 0 | Some u \<Rightarrow> f u"
  have rest: "(\<Sum>j\<in>dom m - {k}. ?g (m(k \<mapsto> v)) j) = (\<Sum>j\<in>dom m - {k}. ?g m j)"
    by (rule sum.cong) auto
  have "map_sum f (m(k \<mapsto> v)) = f v + (\<Sum>j\<in>dom m - {k}. ?g m j)"
    using assms rest by (simp add: map_sum_def sum.insert_remove)
  moreover have "map_sum f m = ?g m k + (\<Sum>j\<in>dom m - {k}. ?g m j)"
  proof (cases "m k")
    case None
    then have "dom m - {k} = dom m" by auto
    with None show ?thesis by (simp add: map_sum_def)
  next
    case (Some u)
    then have "k \<in> dom m" by auto
    from sum.remove [OF assms this, of "?g m"] show ?thesis by (simp add: map_sum_def)
  qed
  ultimately show ?thesis by simp
qed

lemma map_sum_zero: "(\<And>k v. m k = Some v \<Longrightarrow> f v = 0) \<Longrightarrow> map_sum f m = 0"
  unfolding map_sum_def by (rule sum.neutral) (auto split: option.split)

lemma map_sum_cong: "(\<And>k v. m k = Some v \<Longrightarrow> f v = g v) \<Longrightarrow> map_sum f m = map_sum g m"
  unfolding map_sum_def by (rule sum.cong) (auto split: option.split)

section \<open>Transactions and reachable states\<close>

text \<open>
  A transaction whose system call returns an error is reverted: the EVM restores the
  snapshot it took before the call, so the state is the one before it.
\<close>

definition apply_tx :: "('op \<Rightarrow> 's \<Rightarrow> 'e + 's) \<Rightarrow> 'op \<Rightarrow> 's \<Rightarrow> 's" where
  "apply_tx exec x s = (case exec x s of Inl _ \<Rightarrow> s | Inr s' \<Rightarrow> s')"

definition run_txs :: "('op \<Rightarrow> 's \<Rightarrow> 'e + 's) \<Rightarrow> 'op list \<Rightarrow> 's \<Rightarrow> 's" where
  "run_txs exec xs s = fold (apply_tx exec) xs s"

lemma run_txs_simps [simp]:
  "run_txs exec [] s = s"
  "run_txs exec (x # xs) s = run_txs exec xs (apply_tx exec x s)"
  by (simp_all add: run_txs_def)

lemma run_txs_append: "run_txs exec (xs @ ys) s = run_txs exec ys (run_txs exec xs s)"
  by (simp add: run_txs_def)

text \<open>
  The interface between a contract and whoever drives it: each admissible call keeps the
  invariant.
\<close>

locale contract_machine =
  fixes exec :: "'op \<Rightarrow> 's \<Rightarrow> 'e + 's"
    and admissible :: "'op \<Rightarrow> bool"
    and inv :: "'s \<Rightarrow> bool"
  assumes exec_inv: "inv s \<Longrightarrow> admissible x \<Longrightarrow> exec x s = Inr s' \<Longrightarrow> inv s'"
begin

lemma apply_tx_inv: "inv s \<Longrightarrow> admissible x \<Longrightarrow> inv (apply_tx exec x s)"
  by (auto simp: apply_tx_def split: sum.split intro: exec_inv)

lemma run_txs_inv: "inv s \<Longrightarrow> list_all admissible xs \<Longrightarrow> inv (run_txs exec xs s)"
  by (induction xs arbitrary: s) (auto intro: apply_tx_inv)

lemma efold_exec_inv: "inv s \<Longrightarrow> list_all admissible xs \<Longrightarrow> efold exec xs s = Inr s' \<Longrightarrow> inv s'"
  by (erule efold_invariant) (auto simp: list_all_iff intro: exec_inv)

end

text \<open>A contract whose calls only ever move a reflexive, transitive relation forward.\<close>

locale contract_monotone = contract_machine exec admissible inv
  for exec :: "'op \<Rightarrow> 's \<Rightarrow> 'e + 's" and admissible :: "'op \<Rightarrow> bool" and inv :: "'s \<Rightarrow> bool" +
  fixes le :: "'s \<Rightarrow> 's \<Rightarrow> bool"
  assumes le_refl: "le s s"
    and le_trans: "le s t \<Longrightarrow> le t u \<Longrightarrow> le s u"
    and exec_le: "inv s \<Longrightarrow> admissible x \<Longrightarrow> exec x s = Inr s' \<Longrightarrow> le s s'"
begin

lemma run_txs_le: "inv s \<Longrightarrow> list_all admissible xs \<Longrightarrow> le s (run_txs exec xs s)"
proof (induction xs arbitrary: s)
  case Nil
  show ?case by (simp add: le_refl)
next
  case (Cons x xs)
  have "le s (apply_tx exec x s)"
    using Cons.prems by (auto simp: apply_tx_def le_refl exec_le split: sum.split)
  with Cons.IH [OF apply_tx_inv [OF Cons.prems(1)]] Cons.prems(2) show ?case
    by (auto intro: le_trans)
qed

end

end
