(* ===== verification/Chain_State.thy ===== *)
theory Chain_State
  imports Prelude
begin

text \<open>
  The data the system contracts share: the structs of the generated bindings, the storage of
  each contract (a slot of the code is an \<open>option\<close>, a map of the code a partial function:
  \<open>Contract_Storage.thy\<close> shows that the byte-level store behind them behaves so), the balances of the
  ledger, the emitted events and the context of a call.
\<close>

section \<open>Errors\<close>

text \<open>One constructor per error the framework contracts return, grouped by contract.\<close>

datatype token_error =
    MintBelowZero
  | BurnBelowZero
  | ValueExceedsBalance
  | InvalidOwner
  | TokenNotExist int
  | InvalidReceiver
  | InvalidOperator
  | IncorrectOwner
  | InsufficientApproval address int
  | InvalidApproval address int

datatype pool_error =
    PoolAlreadyExists u64
  | InvalidCommissionRate u64
  | PoolNotExist u64
  | PoolInactive u64
  | ReceivedValueLess int
  | PoolStatusNotSupported u64
  | TokenNotActiveYet
  | AmountNotEnough int int
  | PartialUnlockDisabled int int
  | UnlockingRecordsExceed
  | UnlockedNotEnough

datatype stake_error =
    ErrStakeValue
  | MinDelegateStakeNotMet
  | AddStakeReachEpochLimit int
  | UnlockStakeReachEpochLimit int
  | InvalidArgs
  | RemainValidatorsNotEnough
  | TotalStakeLess int int
  | PoolAlreadyAvailable u64
  | PoolNotAvailable u64
  | PoolNotExists

datatype node_error =
    ErrNodeNotFound
  | ErrNodeNotFoundInStatusSet
  | P2PIDInUse
  | ConsensusPubKeyInUse
  | NameInUse
  | SameStatus
  | IncorrectStatus u8
  | PendingInactiveSetIsFull
  | NotEnoughValidator nat u64
  | NotEnoughValidators
  | ZeroOperator
  | NameEmpty

datatype genesis_error =
    GenesisStartBlock
  | GenesisEpochNumber
  | InvalidEpochInfo
  | FieldTooLong
  | EmptyName
  | InvalidPubKey
  | DataSyncerWithStake
  | InvalidOperatorAddress
  | GenesisCommissionRate u64
  | StakeNumberTooLarge int

datatype error =
    NotExist
  | NoPermission
  | BalanceNotEnough
  | TokenErr token_error
  | PoolErr pool_error
  | StakeErr stake_error
  | NodeErr node_error
  | GenesisErr genesis_error

type_synonym 'a res = "error + 'a"

section \<open>Epoch parameters\<close>

record consensus_params =
  ProposerElectionType :: string
  CheckpointPeriod :: u64
  HighWatermarkCheckpointPeriod :: u64
  MaxValidatorNum :: u64
  MinValidatorNum :: u64
  BlockMaxTxNum :: u64
  EnableTimedGenEmptyBlock :: bool
  NotActiveWeight :: i64
  AbnormalNodeExcludeView :: u64
  AgainProposeIntervalBlockInValidatorsNumPercentage :: u64
  ContinuousNullRequestToleranceNumber :: u64
  ReBroadcastToleranceNumber :: u64

record finance_params =
  GasLimit :: u64
  MinGasPrice :: int

record misc_params =
  TxMaxSize :: u64

record stake_params =
  StakeEnable :: bool
  MaxAddStakeRatio :: u64
  MaxUnlockStakeRatio :: u64
  MaxUnlockingRecordNum :: u64
  UnlockPeriod :: u64
  MaxPendingInactiveValidatorRatio :: u64
  MinDelegateStake :: int
  MinValidatorStake :: int
  MaxValidatorStake :: int
  EnablePartialUnlock :: bool

record epoch_info =
  Epoch :: u64
  EpochPeriod :: u64
  StartBlock :: u64
  ConsensusParams :: consensus_params
  FinanceParams :: finance_params
  MiscParams :: misc_params
  StakeParams :: stake_params

section \<open>Staking pools and liquid staking tokens\<close>

record staking_rate =
  StakeAmount :: int
  LiquidStakingTokenAmount :: int

record pool_info =
  pool_ID :: u64
  IsActive :: bool
  ActiveStake :: int
  TotalLiquidStakingToken :: int
  PendingActiveStake :: int
  PendingInactiveStake :: int
  PendingInactiveLiquidStakingTokenAmount :: int
  CommissionRate :: u64
  NextEpochCommissionRate :: u64
  LastEpochReward :: int
  LastEpochCommission :: int
  CumulativeReward :: int
  CumulativeCommission :: int
  OperatorLiquidStakingTokenID :: int
  LastRateEpoch :: u64

record unlocking_record =
  Amount :: int
  UnlockTimestamp :: u64

record lst_info =
  PoolID :: u64
  Principal :: int
  Unlocked :: int
  ActiveEpoch :: u64
  UnlockingRecords :: "unlocking_record list"

section \<open>Nodes\<close>

datatype node_status = DataSyncer | Candidate | Active | PendingInactive | Exited

fun status_u8 :: "node_status \<Rightarrow> u8" where
  "status_u8 DataSyncer = 0"
| "status_u8 Candidate = 1"
| "status_u8 Active = 2"
| "status_u8 PendingInactive = 3"
| "status_u8 Exited = 4"

record node_meta =
  Name :: string
  Desc :: string
  ImageURL :: string
  WebsiteURL :: string

record node_info =
  node_ID :: u64
  ConsensusPubKey :: string
  P2PPubKey :: string
  P2PID :: string
  Operator :: address
  MetaData :: node_meta
  Status :: node_status

record voting_power =
  NodeID :: u64
  ConsensusVotingPower :: i64

section \<open>Events\<close>

datatype event =
    EventTransfer address address int
  | EventApproval address address int
  | EventApprovalForAll address address bool
  | EventUpdateInfo int int int u64
  | EventAddStake u64 address int int
  | EventUnlock int int u64
  | EventWithdraw int address int
  | EventRegister u64 node_info
  | EventJoinedCandidateSet u64 u64 int
  | EventExit u64
  | EventUpdateMetaData u64 node_meta
  | EventUpdateOperator u64 address

section \<open>The storage of each contract and the world\<close>

record axc_state =
  totalSupply :: "int option"

record epoch_state =
  currentEpochID :: "u64 option"
  nextEpochInfo :: "epoch_info option"
  historyEpochInfoMap :: "u64 \<rightharpoonup> epoch_info"

record lst_state =
  nextID :: "int option"
  infoMap :: "int \<rightharpoonup> lst_info"
  ownerMap :: "int \<rightharpoonup> address"
  balanceMap :: "address \<rightharpoonup> int"
  tokenApprovalMap :: "int \<rightharpoonup> address"
  operatorApprovalMap :: "address \<times> address \<rightharpoonup> bool"

record staking_state =
  availablePools :: "u64 list option"
  rewardPerBlock :: "int option"
  proposeBlockCountTable :: "u64 \<rightharpoonup> u64"
  gasRewardTable :: "u64 \<rightharpoonup> int"
  totalStake :: "int option"
  lastEpochTotalStake :: "int option"
  currentEpochTotalAddStake :: "int option"
  currentEpochTotalUnlockStake :: "int option"
  currentEpochTotalStakeNotEnoughValidators :: "u64 list option"
  poolInfos :: "u64 \<rightharpoonup> pool_info"
  poolRates :: "u64 \<Rightarrow> u64 \<rightharpoonup> staking_rate"

record node_state =
  nextNodeID :: "u64 option"
  nodeRegistry :: "u64 \<rightharpoonup> node_info"
  nodeP2PIDIndex :: "string \<rightharpoonup> u64"
  nodeConsensusPubKeyIndex :: "string \<rightharpoonup> u64"
  nodeNameIndex :: "string \<rightharpoonup> u64"
  statusSets :: "node_status \<Rightarrow> u64 list option"
  activeValidatorVotingPowers :: "voting_power list option"

record world =
  balances :: "address \<Rightarrow> int"
  axc :: axc_state
  epochs :: epoch_state
  lst :: lst_state
  staking :: staking_state
  nodes :: node_state
  logs :: "event list"

text \<open>The storage before the genesis block: no slot and no map entry is set.\<close>

definition empty_world :: world where
  "empty_world =
     \<lparr>balances = (\<lambda>_. 0), axc = \<lparr>totalSupply = None\<rparr>,
      epochs = \<lparr>currentEpochID = None, nextEpochInfo = None, historyEpochInfoMap = Map.empty\<rparr>,
      lst = \<lparr>nextID = None, infoMap = Map.empty, ownerMap = Map.empty, balanceMap = Map.empty,
             tokenApprovalMap = Map.empty, operatorApprovalMap = Map.empty\<rparr>,
      staking = \<lparr>availablePools = None, rewardPerBlock = None, proposeBlockCountTable = Map.empty,
                 gasRewardTable = Map.empty, totalStake = None, lastEpochTotalStake = None,
                 currentEpochTotalAddStake = None, currentEpochTotalUnlockStake = None,
                 currentEpochTotalStakeNotEnoughValidators = None, poolInfos = Map.empty,
                 poolRates = (\<lambda>_. Map.empty)\<rparr>,
      nodes = \<lparr>nextNodeID = None, nodeRegistry = Map.empty, nodeP2PIDIndex = Map.empty,
               nodeConsensusPubKeyIndex = Map.empty, nodeNameIndex = Map.empty,
               statusSets = (\<lambda>_. None), activeValidatorVotingPowers = None\<rparr>,
      logs = []\<rparr>"

lemma empty_world_fields [simp]:
  "balances empty_world = (\<lambda>_. 0)" "totalSupply (axc empty_world) = None"
  "currentEpochID (epochs empty_world) = None" "nextEpochInfo (epochs empty_world) = None"
  "historyEpochInfoMap (epochs empty_world) = Map.empty"
  "nextID (lst empty_world) = None" "infoMap (lst empty_world) = Map.empty"
  "ownerMap (lst empty_world) = Map.empty" "balanceMap (lst empty_world) = Map.empty"
  "tokenApprovalMap (lst empty_world) = Map.empty"
  "operatorApprovalMap (lst empty_world) = Map.empty"
  "availablePools (staking empty_world) = None" "rewardPerBlock (staking empty_world) = None"
  "proposeBlockCountTable (staking empty_world) = Map.empty"
  "gasRewardTable (staking empty_world) = Map.empty" "totalStake (staking empty_world) = None"
  "poolInfos (staking empty_world) = Map.empty" "poolRates (staking empty_world) k = Map.empty"
  "nextNodeID (nodes empty_world) = None" "nodeRegistry (nodes empty_world) = Map.empty"
  "nodeP2PIDIndex (nodes empty_world) = Map.empty"
  "nodeConsensusPubKeyIndex (nodes empty_world) = Map.empty"
  "nodeNameIndex (nodes empty_world) = Map.empty" "statusSets (nodes empty_world) st = None"
  "activeValidatorVotingPowers (nodes empty_world) = None" "logs empty_world = []"
  by (simp_all add: empty_world_def)

section \<open>The genesis configuration\<close>

record genesis_account =
  acc_Address :: string
  acc_Balance :: int

record genesis_node =
  gn_ConsensusPubKey :: string
  gn_P2PPubKey :: string
  gn_OperatorAddress :: string
  gn_MetaData :: node_meta
  gn_IsDataSyncer :: bool
  gn_StakeNumber :: int
  gn_CommissionRate :: u64

record council_member =
  cm_Address :: string
  cm_Weight :: u64
  cm_Name :: string

record genesis_config =
  ChainID :: u64
  Timestamp :: i64
  CouncilMembers :: "council_member list"
  SmartAccountAdmin :: string
  WhitelistProviders :: "string list"
  EpochInfo :: epoch_info
  Nodes :: "genesis_node list"
  Accounts :: "genesis_account list"

text \<open>
  The built-in defaults. \<open>coinByAxc\<close> and \<open>coinByGmol\<close> are \<open>types.CoinNumberByAxc\<close> and
  \<open>types.CoinNumberByGmol\<close>, \<open>wrf\<close> the constant \<open>types.ProposerElectionTypeWRF\<close>, all of axiom-kit.
\<close>

definition GenesisEpochInfo :: "(int \<Rightarrow> int) \<Rightarrow> (int \<Rightarrow> int) \<Rightarrow> string \<Rightarrow> epoch_info" where
  "GenesisEpochInfo coinByAxc coinByGmol wrf =
     \<lparr>Epoch = 1, EpochPeriod = 100, StartBlock = 0,
      ConsensusParams =
        \<lparr>ProposerElectionType = wrf, CheckpointPeriod = 1, HighWatermarkCheckpointPeriod = 10,
         MaxValidatorNum = 10, MinValidatorNum = 4, BlockMaxTxNum = 500,
         EnableTimedGenEmptyBlock = False, NotActiveWeight = 1, AbnormalNodeExcludeView = 10,
         AgainProposeIntervalBlockInValidatorsNumPercentage = 30,
         ContinuousNullRequestToleranceNumber = 3, ReBroadcastToleranceNumber = 2\<rparr>,
      FinanceParams = \<lparr>GasLimit = 0x5f5e100, MinGasPrice = coinByGmol 1000\<rparr>,
      MiscParams = \<lparr>TxMaxSize = 4 * (32 * 1024)\<rparr>,
      StakeParams =
        \<lparr>StakeEnable = True, MaxAddStakeRatio = 10000, MaxUnlockStakeRatio = 1000,
         MaxUnlockingRecordNum = 5, UnlockPeriod = 3 * 24 * 3600,
         MaxPendingInactiveValidatorRatio = 1000, MinDelegateStake = coinByAxc 100,
         MinValidatorStake = coinByAxc 10000000, MaxValidatorStake = coinByAxc 50000000,
         EnablePartialUnlock = False\<rparr>\<rparr>"

definition defaultGenesisConfig :: "(int \<Rightarrow> int) \<Rightarrow> (int \<Rightarrow> int) \<Rightarrow> string \<Rightarrow> genesis_config" where
  "defaultGenesisConfig coinByAxc coinByGmol wrf =
     \<lparr>ChainID = 1356, Timestamp = 1704038400, CouncilMembers = [],
      SmartAccountAdmin = ''0x0000000000000000000000000000000000000000'', WhitelistProviders = [],
      EpochInfo = GenesisEpochInfo coinByAxc coinByGmol wrf, Nodes = [], Accounts = []\<rparr>"

text \<open>The default epoch with one AXC counted as one coin, on which the examples run.\<close>

definition epoch_example :: epoch_info where
  "epoch_example = GenesisEpochInfo (\<lambda>n. n) (\<lambda>n. n) ''wrf''"

lemma epoch_example_fields [simp]:
  "Epoch epoch_example = 1" "EpochPeriod epoch_example = 100" "StartBlock epoch_example = 0"
  "MinValidatorNum (ConsensusParams epoch_example) = 4"
  "MaxValidatorNum (ConsensusParams epoch_example) = 10"
  "StakeEnable (StakeParams epoch_example) = True"
  "MaxAddStakeRatio (StakeParams epoch_example) = 10000"
  "MaxUnlockStakeRatio (StakeParams epoch_example) = 1000"
  "MaxUnlockingRecordNum (StakeParams epoch_example) = 5"
  "UnlockPeriod (StakeParams epoch_example) = 259200"
  "MaxPendingInactiveValidatorRatio (StakeParams epoch_example) = 1000"
  "MinDelegateStake (StakeParams epoch_example) = 100"
  "MinValidatorStake (StakeParams epoch_example) = 10000000"
  "MaxValidatorStake (StakeParams epoch_example) = 50000000"
  "EnablePartialUnlock (StakeParams epoch_example) = False"
  by (simp_all add: epoch_example_def GenesisEpochInfo_def)

section \<open>Call contexts\<close>

definition GovernanceContractAddr :: address where
  "GovernanceContractAddr = 0x1001"

definition AXCContractAddr :: address where
  "AXCContractAddr = 0x1002"

definition StakingManagerContractAddr :: address where
  "StakingManagerContractAddr = 0x1003"

definition LiquidStakingTokenContractAddr :: address where
  "LiquidStakingTokenContractAddr = 0x1004"

definition EpochManagerContractAddr :: address where
  "EpochManagerContractAddr = 0x1006"

definition NodeManagerContractAddr :: address where
  "NodeManagerContractAddr = 0x1007"

lemma contract_addrs_distinct [simp]:
  "AXCContractAddr \<noteq> StakingManagerContractAddr"
  "StakingManagerContractAddr \<noteq> AXCContractAddr"
  by (simp_all add: AXCContractAddr_def StakingManagerContractAddr_def)

record vm_ctx =
  ctx_From :: address
  ctx_Value :: "int option"
  ctx_CallFromSystem :: bool
  ctx_Time :: u64
  ctx_BlockNumber :: u64

definition CrossCallSystemContractContext :: "address \<Rightarrow> vm_ctx \<Rightarrow> vm_ctx" where
  "CrossCallSystemContractContext self ctx =
     \<lparr>ctx_From = self, ctx_Value = None, ctx_CallFromSystem = True,
      ctx_Time = ctx_Time ctx, ctx_BlockNumber = ctx_BlockNumber ctx\<rparr>"

section \<open>Ledger balances and events\<close>

definition AddBalance :: "address \<Rightarrow> int \<Rightarrow> world \<Rightarrow> world" where
  "AddBalance a amount w =
     (if amount = 0 then w
      else w\<lparr>balances := (balances w)(a := balances w a + amount)\<rparr>)"

definition SubBalance :: "address \<Rightarrow> int \<Rightarrow> world \<Rightarrow> world" where
  "SubBalance a amount w =
     (if amount = 0 then w
      else w\<lparr>balances := (balances w)(a := balances w a - amount)\<rparr>)"

definition EmitEvent :: "event \<Rightarrow> world \<Rightarrow> world" where
  "EmitEvent e w = w\<lparr>logs := logs w @ [e]\<rparr>"

definition Transfer :: "address \<Rightarrow> address \<Rightarrow> int \<Rightarrow> world \<Rightarrow> world res" where
  "Transfer self to amount w =
     (if amount = 0 then Inr w
      else if balances w self < amount then Inl BalanceNotEnough
      else Inr (AddBalance to amount (SubBalance self amount w)))"

lemma balances_AddBalance [simp]:
  "balances (AddBalance a n w) = (balances w)(a := balances w a + n)"
  by (simp add: AddBalance_def)

lemma balances_SubBalance [simp]:
  "balances (SubBalance a n w) = (balances w)(a := balances w a - n)"
  by (simp add: SubBalance_def)

lemma balances_EmitEvent [simp]: "balances (EmitEvent e w) = balances w"
  by (simp add: EmitEvent_def)

lemma frame_AddBalance [simp, frame_simps]:
  "axc (AddBalance a n w) = axc w" "epochs (AddBalance a n w) = epochs w"
  "lst (AddBalance a n w) = lst w" "staking (AddBalance a n w) = staking w"
  "nodes (AddBalance a n w) = nodes w" "logs (AddBalance a n w) = logs w"
  by (simp_all add: AddBalance_def)

lemma frame_SubBalance [simp, frame_simps]:
  "axc (SubBalance a n w) = axc w" "epochs (SubBalance a n w) = epochs w"
  "lst (SubBalance a n w) = lst w" "staking (SubBalance a n w) = staking w"
  "nodes (SubBalance a n w) = nodes w" "logs (SubBalance a n w) = logs w"
  by (simp_all add: SubBalance_def)

lemma frame_EmitEvent [simp, frame_simps]:
  "axc (EmitEvent e w) = axc w" "epochs (EmitEvent e w) = epochs w"
  "lst (EmitEvent e w) = lst w" "staking (EmitEvent e w) = staking w"
  "nodes (EmitEvent e w) = nodes w" "logs (EmitEvent e w) = logs w @ [e]"
  by (simp_all add: EmitEvent_def)

lemma Transfer_frame:
  assumes "Transfer self to n w = Inr w'"
  shows "axc w' = axc w" "epochs w' = epochs w" "lst w' = lst w" "staking w' = staking w"
    "nodes w' = nodes w" "logs w' = logs w"
  using assms by (auto simp: Transfer_def split: if_splits)

lemma Transfer_balances:
  assumes "Transfer self to n w = Inr w'"
  shows "balances w' = ((balances w)(self := balances w self - n))
           (to := (if to = self then balances w self - n else balances w to) + n)"
  using assms by (auto simp: Transfer_def fun_eq_iff split: if_splits)

text \<open>A transfer moves coins: the sum over any set that holds both ends does not change.\<close>

lemma Transfer_sum:
  assumes "Transfer self to n w = Inr w'" and "finite A" and "self \<in> A" and "to \<in> A"
  shows "(\<Sum>a\<in>A. balances w' a) = (\<Sum>a\<in>A. balances w a)"
proof (cases "to = self")
  case True
  with Transfer_balances [OF assms(1)] show ?thesis by (auto intro: sum.cong)
next
  case False
  have split: "(\<Sum>a\<in>A. f a) = f self + f to + (\<Sum>a\<in>A - {self, to}. f a)" for f :: "address \<Rightarrow> int"
    using assms(2-4) False
    by (simp add: sum.remove [of A self] sum.remove [of "A - {self}" to] insert_Diff_if
        Diff_insert2 [symmetric])
  have rest: "(\<Sum>a\<in>A - {self, to}. balances w' a) = (\<Sum>a\<in>A - {self, to}. balances w a)"
    by (rule sum.cong) (auto simp: Transfer_balances [OF assms(1)])
  have ends: "balances w' self + balances w' to = balances w self + balances w to"
    using False by (simp add: Transfer_balances [OF assms(1)])
  show ?thesis
    unfolding split [of "balances w'"] split [of "balances w"] rest ends ..
qed

end
