(* ===== verification/Axc_Token.thy ===== *)
theory Axc_Token
  imports Chain_State
begin

text \<open>
  The native token contract (\<open>src/internal/executor/system/token/axc.go\<close>): the recorded total
  supply, minting into and burning from the contract's own account, and the genesis
  allocation. The invariant is that the recorded supply is the sum of all balances.
\<close>

section \<open>Operations\<close>

definition AXC_TotalSupply :: "world \<Rightarrow> int res" where
  "AXC_TotalSupply w = must NotExist (totalSupply (axc w))"

definition AXC_Mint :: "int \<Rightarrow> world \<Rightarrow> world res" where
  "AXC_Mint amount w =
     (if amount < 0 then Inl (TokenErr MintBelowZero)
      else
        let w1 = AddBalance AXCContractAddr amount w in
        ebind (must NotExist (totalSupply (axc w1))) (\<lambda>supply.
        Inr (w1\<lparr>axc := (axc w1)\<lparr>totalSupply := Some (supply + amount)\<rparr>\<rparr>)))"

definition AXC_Burn :: "int \<Rightarrow> world \<Rightarrow> world res" where
  "AXC_Burn amount w =
     (if amount < 0 then Inl (TokenErr BurnBelowZero)
      else if balances w AXCContractAddr < amount then Inl (TokenErr ValueExceedsBalance)
      else
        ebind (must NotExist (totalSupply (axc w))) (\<lambda>supply.
        if supply < amount then Inl (TokenErr ValueExceedsBalance)
        else
          let w1 = w\<lparr>axc := (axc w)\<lparr>totalSupply := Some (supply - amount)\<rparr>\<rparr> in
          Inr (SubBalance AXCContractAddr amount w1)))"

text \<open>
  \<open>addrOfStr\<close> is \<open>types.NewAddressByStr\<close> of axiom-kit. The first loop credits the configured
  accounts, the second only counts the stakes, which the staking manager credits to itself.
\<close>

fun AXC_genesisAccounts ::
  "(string \<Rightarrow> address) \<Rightarrow> genesis_account list \<Rightarrow> int \<Rightarrow> world \<Rightarrow> int \<times> world" where
  "AXC_genesisAccounts addrOfStr [] supply w = (supply, w)"
| "AXC_genesisAccounts addrOfStr (a # as) supply w =
     AXC_genesisAccounts addrOfStr as (supply + acc_Balance a)
       (AddBalance (addrOfStr (acc_Address a)) (acc_Balance a) w)"

fun AXC_genesisStakes :: "genesis_node list \<Rightarrow> int \<Rightarrow> int" where
  "AXC_genesisStakes [] supply = supply"
| "AXC_genesisStakes (n # ns) supply =
     AXC_genesisStakes ns (if \<not> gn_IsDataSyncer n then supply + gn_StakeNumber n else supply)"

definition AXC_GenesisInit :: "(string \<Rightarrow> address) \<Rightarrow> genesis_config \<Rightarrow> world \<Rightarrow> world res" where
  "AXC_GenesisInit addrOfStr genesis w =
     (let (supply, w1) = AXC_genesisAccounts addrOfStr (Accounts genesis) 0 w;
          supply = AXC_genesisStakes (Nodes genesis) supply
      in Inr (w1\<lparr>axc := (axc w1)\<lparr>totalSupply := Some supply\<rparr>\<rparr>))"

section \<open>The sum of all balances\<close>

text \<open>There are finitely many addresses, so the sum over all of them is a number.\<close>

definition sum_balances :: "world \<Rightarrow> int" where
  "sum_balances w = (\<Sum>a\<in>UNIV. balances w a)"

lemma sum_upd:
  fixes f :: "address \<Rightarrow> int"
  shows "(\<Sum>b\<in>UNIV. (f(a := x)) b) = (\<Sum>b\<in>UNIV. f b) - f a + x"
proof -
  have "(\<Sum>b\<in>UNIV. (f(a := x)) b) = x + (\<Sum>b\<in>UNIV - {a}. f b)"
    by (subst sum.remove [of UNIV a]) (auto intro: sum.cong)
  moreover have "(\<Sum>b\<in>UNIV. f b) = f a + (\<Sum>b\<in>UNIV - {a}. f b)"
    by (subst sum.remove [of UNIV a]) auto
  ultimately show ?thesis by simp
qed

lemma sum_balances_AddBalance [simp]: "sum_balances (AddBalance a n w) = sum_balances w + n"
  unfolding sum_balances_def balances_AddBalance sum_upd by simp

lemma sum_balances_SubBalance [simp]: "sum_balances (SubBalance a n w) = sum_balances w - n"
  unfolding sum_balances_def balances_SubBalance sum_upd by simp

lemma sum_balances_cong: "balances w = balances w' \<Longrightarrow> sum_balances w = sum_balances w'"
  by (simp add: sum_balances_def)

lemma sum_balances_upd [simp]:
  "sum_balances (w\<lparr>axc := x\<rparr>) = sum_balances w"
  "sum_balances (w\<lparr>epochs := e\<rparr>) = sum_balances w"
  "sum_balances (w\<lparr>lst := l\<rparr>) = sum_balances w"
  "sum_balances (w\<lparr>staking := st\<rparr>) = sum_balances w"
  "sum_balances (w\<lparr>nodes := n\<rparr>) = sum_balances w"
  "sum_balances (w\<lparr>logs := lg\<rparr>) = sum_balances w"
  "sum_balances (EmitEvent ev w) = sum_balances w"
  by (simp_all add: sum_balances_def)

lemma Transfer_sum_balances: "Transfer self to n w = Inr w' \<Longrightarrow> sum_balances w' = sum_balances w"
  by (auto simp: Transfer_def split: if_splits)

section \<open>The supply invariant\<close>

definition supply_inv :: "world \<Rightarrow> bool" where
  "supply_inv w \<longleftrightarrow> totalSupply (axc w) = Some (sum_balances w)"

text \<open>
  The interface the reward distribution relies on: issuing and destroying coins keep an
  accounting invariant and move the supply by exactly the amount.
\<close>

locale coin_issuer =
  fixes issue :: "int \<Rightarrow> 's \<Rightarrow> 'e + 's"
    and destroy :: "int \<Rightarrow> 's \<Rightarrow> 'e + 's"
    and supplied :: "'s \<Rightarrow> int"
    and acc_inv :: "'s \<Rightarrow> bool"
  assumes issue_inv: "acc_inv s \<Longrightarrow> issue n s = Inr s' \<Longrightarrow> acc_inv s'"
    and issue_supply: "acc_inv s \<Longrightarrow> issue n s = Inr s' \<Longrightarrow> supplied s' = supplied s + n"
    and issue_total: "acc_inv s \<Longrightarrow> 0 \<le> n \<Longrightarrow> \<exists>s'. issue n s = Inr s'"
    and destroy_inv: "acc_inv s \<Longrightarrow> destroy n s = Inr s' \<Longrightarrow> acc_inv s'"
    and destroy_supply: "acc_inv s \<Longrightarrow> destroy n s = Inr s' \<Longrightarrow> supplied s' = supplied s - n"
begin

lemma issue_all:
  "acc_inv s \<Longrightarrow> efold issue ns s = Inr s' \<Longrightarrow> acc_inv s' \<and> supplied s' = supplied s + sum_list ns"
proof (induction ns arbitrary: s)
  case Nil
  then show ?case by simp
next
  case (Cons n ns)
  from Cons.prems(2) obtain t where t: "issue n s = Inr t" and rest: "efold issue ns t = Inr s'"
    by (auto simp: ebind_Inr_iff)
  from Cons.IH [OF issue_inv [OF Cons.prems(1) t] rest] issue_supply [OF Cons.prems(1) t]
  show ?case by simp
qed

lemma issue_then_destroy:
  "acc_inv s \<Longrightarrow> issue n s = Inr t \<Longrightarrow> destroy n t = Inr u \<Longrightarrow> acc_inv u \<and> supplied u = supplied s"
  by (metis add_diff_cancel_right' issue_inv issue_supply destroy_inv destroy_supply)

end

lemma AXC_Mint_ok_iff:
  "AXC_Mint n w = Inr w' \<longleftrightarrow> 0 \<le> n \<and> (\<exists>s. totalSupply (axc w) = Some s \<and>
     w' = (AddBalance AXCContractAddr n w)\<lparr>axc := (axc w)\<lparr>totalSupply := Some (s + n)\<rparr>\<rparr>)"
  by (auto simp: AXC_Mint_def res_ok not_less)

lemma AXC_Burn_ok_iff:
  "AXC_Burn n w = Inr w' \<longleftrightarrow> 0 \<le> n \<and> n \<le> balances w AXCContractAddr \<and>
     (\<exists>s. totalSupply (axc w) = Some s \<and> n \<le> s \<and>
       w' = SubBalance AXCContractAddr n (w\<lparr>axc := (axc w)\<lparr>totalSupply := Some (s - n)\<rparr>\<rparr>))"
  by (auto simp: AXC_Burn_def res_ok not_less)

interpretation axc_coin: coin_issuer AXC_Mint AXC_Burn sum_balances supply_inv
  by unfold_locales (auto simp: AXC_Mint_ok_iff AXC_Burn_ok_iff supply_inv_def)

lemma AXC_Mint_frame:
  assumes "AXC_Mint n w = Inr w'"
  shows "epochs w' = epochs w" "lst w' = lst w" "staking w' = staking w" "nodes w' = nodes w"
    "logs w' = logs w"
    "balances w' = (balances w)(AXCContractAddr := balances w AXCContractAddr + n)"
  using assms by (auto simp: AXC_Mint_ok_iff)

section \<open>Genesis allocation\<close>

lemma AXC_genesisStakes_eq:
  "AXC_genesisStakes ns s = s + sum_list (map gn_StakeNumber (filter (\<lambda>n. \<not> gn_IsDataSyncer n) ns))"
  by (induction ns arbitrary: s) auto

lemma AXC_genesisAccounts_sum:
  "AXC_genesisAccounts f as s w = (s', w') \<Longrightarrow> sum_balances w' - sum_balances w = s' - s"
  by (induction as arbitrary: s w) fastforce+

lemma AXC_genesisAccounts_frame:
  "AXC_genesisAccounts f as s w = (s', w') \<Longrightarrow>
     axc w' = axc w \<and> epochs w' = epochs w \<and> lst w' = lst w \<and> staking w' = staking w \<and>
     nodes w' = nodes w \<and> logs w' = logs w"
  by (induction as arbitrary: s w) fastforce+

end
