(* ===== verification/Epoch_Manager.thy ===== *)
theory Epoch_Manager
  imports Chain_State
begin

text \<open>
  The epoch contract (\<open>src/internal/executor/system/framework/epoch_manager.go\<close>): the current
  epoch, the parameters of the next one and the history of all epochs.
\<close>

section \<open>Operations\<close>

text \<open>\<open>validate\<close> is \<open>EpochInfo.Validate\<close> of axiom-kit.\<close>

definition EpochManager_GenesisInit ::
  "(epoch_info \<Rightarrow> bool) \<Rightarrow> genesis_config \<Rightarrow> world \<Rightarrow> world res" where
  "EpochManager_GenesisInit validate genesis w =
     (let e = EpochInfo genesis in
      if StartBlock e \<noteq> 0 then Inl (GenesisErr GenesisStartBlock)
      else if Epoch e \<noteq> 1 then Inl (GenesisErr GenesisEpochNumber)
      else if \<not> validate e then Inl (GenesisErr InvalidEpochInfo)
      else
        let next = e\<lparr>Epoch := Epoch e + 1, StartBlock := StartBlock e + EpochPeriod e\<rparr> in
        Inr (w\<lparr>epochs := (epochs w)
          \<lparr>historyEpochInfoMap := (historyEpochInfoMap (epochs w))(Epoch e \<mapsto> e),
           currentEpochID := Some (Epoch e),
           nextEpochInfo := Some next\<rparr>\<rparr>))"

definition EpochManager_HistoryEpoch :: "u64 \<Rightarrow> world \<Rightarrow> epoch_info res" where
  "EpochManager_HistoryEpoch epochID w = must NotExist (historyEpochInfoMap (epochs w) epochID)"

definition EpochManager_CurrentEpoch :: "world \<Rightarrow> epoch_info res" where
  "EpochManager_CurrentEpoch w =
     ebind (must NotExist (currentEpochID (epochs w))) (\<lambda>currentEpochID.
     EpochManager_HistoryEpoch currentEpochID w)"

definition EpochManager_NextEpoch :: "world \<Rightarrow> epoch_info res" where
  "EpochManager_NextEpoch w = must NotExist (nextEpochInfo (epochs w))"

definition EpochManager_UpdateNextEpoch :: "epoch_info \<Rightarrow> world \<Rightarrow> world res" where
  "EpochManager_UpdateNextEpoch e w = Inr (w\<lparr>epochs := (epochs w)\<lparr>nextEpochInfo := Some e\<rparr>\<rparr>)"

definition EpochManager_TurnIntoNewEpoch :: "world \<Rightarrow> (epoch_info \<times> world) res" where
  "EpochManager_TurnIntoNewEpoch w =
     ebind (must NotExist (nextEpochInfo (epochs w))) (\<lambda>oldNext.
     let newNext = oldNext\<lparr>Epoch := Epoch oldNext + 1,
                           StartBlock := StartBlock oldNext + EpochPeriod oldNext\<rparr> in
     Inr (oldNext, w\<lparr>epochs := (epochs w)
       \<lparr>historyEpochInfoMap := (historyEpochInfoMap (epochs w))(Epoch oldNext \<mapsto> oldNext),
        currentEpochID := Some (Epoch oldNext),
        nextEpochInfo := Some newNext\<rparr>\<rparr>))"

section \<open>The epoch invariant\<close>

text \<open>
  The current epoch is recorded in the history under its own number, every record of the
  history carries its number, and the next epoch starts where the current one ends.
\<close>

definition epoch_inv :: "world \<Rightarrow> bool" where
  "epoch_inv w \<longleftrightarrow>
     (\<exists>cur e nxt. currentEpochID (epochs w) = Some cur \<and>
        historyEpochInfoMap (epochs w) cur = Some e \<and>
        nextEpochInfo (epochs w) = Some nxt \<and>
        Epoch nxt = cur + 1 \<and> StartBlock nxt = StartBlock e + EpochPeriod e) \<and>
     (\<forall>k e. historyEpochInfoMap (epochs w) k = Some e \<longrightarrow> Epoch e = k)"

lemma epoch_invE:
  assumes "epoch_inv w"
  obtains cur e nxt where "currentEpochID (epochs w) = Some cur"
    "historyEpochInfoMap (epochs w) cur = Some e" "Epoch e = cur"
    "nextEpochInfo (epochs w) = Some nxt" "Epoch nxt = cur + 1"
    "StartBlock nxt = StartBlock e + EpochPeriod e"
  using assms by (auto simp: epoch_inv_def)

lemma epoch_inv_cong: "epochs w = epochs w' \<Longrightarrow> epoch_inv w = epoch_inv w'"
  by (simp add: epoch_inv_def)

lemma EpochManager_CurrentEpoch_cong:
  "epochs w = epochs w' \<Longrightarrow> EpochManager_CurrentEpoch w = EpochManager_CurrentEpoch w'"
  by (simp add: EpochManager_CurrentEpoch_def EpochManager_HistoryEpoch_def)

lemma EpochManager_CurrentEpoch_ok:
  "epoch_inv w \<Longrightarrow> \<exists>e. EpochManager_CurrentEpoch w = Inr e \<and> currentEpochID (epochs w) = Some (Epoch e)"
  by (erule epoch_invE) (simp add: EpochManager_CurrentEpoch_def EpochManager_HistoryEpoch_def)

lemma EpochManager_GenesisInit_inv:
  assumes "EpochManager_GenesisInit validate genesis w = Inr w'"
    and "historyEpochInfoMap (epochs w) = Map.empty"
  shows "epoch_inv w'"
  using assms by (auto simp: EpochManager_GenesisInit_def epoch_inv_def Let_def split: if_splits)

lemma EpochManager_TurnIntoNewEpoch_ok_iff:
  "EpochManager_TurnIntoNewEpoch w = Inr (e, w') \<longleftrightarrow> nextEpochInfo (epochs w) = Some e \<and>
     w' = w\<lparr>epochs := (epochs w)
       \<lparr>historyEpochInfoMap := (historyEpochInfoMap (epochs w))(Epoch e \<mapsto> e),
        currentEpochID := Some (Epoch e),
        nextEpochInfo := Some (e\<lparr>Epoch := Epoch e + 1, StartBlock := StartBlock e + EpochPeriod e\<rparr>)\<rparr>\<rparr>"
  by (auto simp: EpochManager_TurnIntoNewEpoch_def res_ok)

lemma EpochManager_TurnIntoNewEpoch_total:
  "epoch_inv w \<Longrightarrow> \<exists>e w'. EpochManager_TurnIntoNewEpoch w = Inr (e, w')"
  by (erule epoch_invE) (simp add: EpochManager_TurnIntoNewEpoch_def Let_def)

lemma EpochManager_TurnIntoNewEpoch_inv:
  "epoch_inv w \<Longrightarrow> EpochManager_TurnIntoNewEpoch w = Inr (e, w') \<Longrightarrow> epoch_inv w'"
  by (auto simp: epoch_inv_def EpochManager_TurnIntoNewEpoch_ok_iff)

lemma EpochManager_TurnIntoNewEpoch_frame:
  assumes "EpochManager_TurnIntoNewEpoch w = Inr (e, w')"
  shows "balances w' = balances w" "axc w' = axc w" "lst w' = lst w" "staking w' = staking w"
    "nodes w' = nodes w" "logs w' = logs w"
  using assms by (auto simp: EpochManager_TurnIntoNewEpoch_ok_iff)

lemma EpochManager_UpdateNextEpoch_inv:
  assumes "epoch_inv w" and "EpochManager_NextEpoch w = Inr old"
    and "EpochManager_UpdateNextEpoch new w = Inr w'"
    and "Epoch new = Epoch old" and "StartBlock new = StartBlock old"
  shows "epoch_inv w'"
  using assms
  by (auto simp: epoch_inv_def EpochManager_NextEpoch_def EpochManager_UpdateNextEpoch_def)

section \<open>The calls that drive the contract\<close>

text \<open>
  The block hook turns the epoch; governance replaces the parameters of the next epoch and
  keeps its number and start block.
\<close>

datatype epoch_op = TurnEpoch | ChangeNext "epoch_info \<Rightarrow> epoch_info"

fun epoch_exec :: "epoch_op \<Rightarrow> world \<Rightarrow> world res" where
  "epoch_exec TurnEpoch w = ebind (EpochManager_TurnIntoNewEpoch w) (\<lambda>(_, w'). Inr w')"
| "epoch_exec (ChangeNext f) w =
     ebind (EpochManager_NextEpoch w) (\<lambda>e.
     EpochManager_UpdateNextEpoch (e\<lparr>EpochPeriod := EpochPeriod (f e),
        ConsensusParams := ConsensusParams (f e), FinanceParams := FinanceParams (f e),
        MiscParams := MiscParams (f e), StakeParams := StakeParams (f e)\<rparr>) w)"

lemma epoch_exec_inv: "epoch_inv w \<Longrightarrow> epoch_exec x w = Inr w' \<Longrightarrow> epoch_inv w'"
proof (cases x)
  case TurnEpoch
  assume "epoch_inv w" "epoch_exec x w = Inr w'"
  with TurnEpoch show ?thesis
    by (auto simp: ebind_Inr_iff intro: EpochManager_TurnIntoNewEpoch_inv)
next
  case (ChangeNext f)
  assume inv: "epoch_inv w" and "epoch_exec x w = Inr w'"
  with ChangeNext obtain e where "EpochManager_NextEpoch w = Inr e"
    and "EpochManager_UpdateNextEpoch (e\<lparr>EpochPeriod := EpochPeriod (f e),
        ConsensusParams := ConsensusParams (f e), FinanceParams := FinanceParams (f e),
        MiscParams := MiscParams (f e), StakeParams := StakeParams (f e)\<rparr>) w = Inr w'"
    by (auto simp: ebind_Inr_iff)
  then show ?thesis
    by (rule EpochManager_UpdateNextEpoch_inv [OF inv]) simp_all
qed

interpretation epoch_machine: contract_machine epoch_exec "\<lambda>_. True" epoch_inv
  by unfold_locales (rule epoch_exec_inv)

text \<open>
  While the epoch number has not run through all of \<open>uint64\<close>, no recorded epoch is beyond the
  current one and the history only grows.
\<close>

definition epoch_bounded :: "world \<Rightarrow> bool" where
  "epoch_bounded w \<longleftrightarrow>
     (\<forall>cur k. currentEpochID (epochs w) = Some cur \<longrightarrow>
        historyEpochInfoMap (epochs w) k \<noteq> None \<longrightarrow> k \<le> cur)"

text \<open>
  C25: Turning the epoch. From a state that satisfies the epoch invariant, with the current
  epoch below the last number of \<open>uint64\<close>, \<open>TurnIntoNewEpoch\<close> always succeeds; the epoch it
  makes current is the one that was prepared as next, has the next number, and starts at the
  block after the last block of the old epoch; every recorded epoch stays as it was; and the
  invariant holds again.
\<close>

theorem epoch_turn_correct:
  assumes inv: "epoch_inv w" and bounded: "epoch_bounded w"
    and cur: "EpochManager_CurrentEpoch w = Inr old" and last: "Epoch old \<noteq> - 1"
  shows "\<exists>e w'. EpochManager_TurnIntoNewEpoch w = Inr (e, w') \<and>
           EpochManager_NextEpoch w = Inr e \<and>
           EpochManager_CurrentEpoch w' = Inr e \<and>
           Epoch e = Epoch old + 1 \<and> StartBlock e = StartBlock old + EpochPeriod old \<and>
           (\<forall>k \<le> Epoch old. EpochManager_HistoryEpoch k w' = EpochManager_HistoryEpoch k w) \<and>
           epoch_inv w' \<and> epoch_bounded w'"
proof -
  from inv obtain c o' e where c: "currentEpochID (epochs w) = Some c"
    "historyEpochInfoMap (epochs w) c = Some o'" "Epoch o' = c"
    and e: "nextEpochInfo (epochs w) = Some e" "Epoch e = c + 1"
    "StartBlock e = StartBlock o' + EpochPeriod o'"
    by (rule epoch_invE)
  with cur have [simp]: "o' = old"
    by (simp add: EpochManager_CurrentEpoch_def EpochManager_HistoryEpoch_def)
  obtain w' where w': "EpochManager_TurnIntoNewEpoch w = Inr (e, w')"
    using e(1) by (auto simp: EpochManager_TurnIntoNewEpoch_def Let_def)
  have new: "k \<noteq> c + 1 \<and> k \<le> c + 1" if "k \<le> c" for k
    using u64_less_Suc_iff [of c k] last c(3) that by auto
  have "epoch_bounded w'"
    using w' bounded c(1) e(2) new
    by (auto simp: epoch_bounded_def EpochManager_TurnIntoNewEpoch_ok_iff split: if_splits)
  moreover have "epoch_inv w'" by (rule EpochManager_TurnIntoNewEpoch_inv [OF inv w'])
  ultimately show ?thesis
    using w' c e new
    by (auto simp: EpochManager_TurnIntoNewEpoch_ok_iff EpochManager_CurrentEpoch_def
        EpochManager_NextEpoch_def EpochManager_HistoryEpoch_def)
qed

definition genesis_example :: genesis_config where
  "genesis_example = defaultGenesisConfig (\<lambda>n. n) (\<lambda>n. n) ''wrf''"

definition epoch_world :: world where
  "epoch_world = empty_world\<lparr>epochs := (epochs empty_world)
     \<lparr>historyEpochInfoMap := [1 \<mapsto> epoch_example], currentEpochID := Some 1,
      nextEpochInfo := Some (epoch_example\<lparr>Epoch := 2, StartBlock := 100\<rparr>)\<rparr>\<rparr>"

lemma epoch_world_genesis:
  "EpochManager_GenesisInit (\<lambda>_. True) genesis_example empty_world = Inr epoch_world"
  by (simp add: EpochManager_GenesisInit_def genesis_example_def defaultGenesisConfig_def Let_def
      epoch_world_def epoch_example_def [symmetric])

lemma epoch_world_current: "EpochManager_CurrentEpoch epoch_world = Inr epoch_example"
  by (simp add: epoch_world_def EpochManager_CurrentEpoch_def EpochManager_HistoryEpoch_def)

lemma epoch_world_inv: "epoch_inv epoch_world"
  by (rule EpochManager_GenesisInit_inv [OF epoch_world_genesis]) simp

theorem epoch_turn_correct_witness:
  "\<exists>e w'. EpochManager_TurnIntoNewEpoch epoch_world = Inr (e, w') \<and> Epoch e = 2 \<and> StartBlock e = 100"
proof -
  have "epoch_bounded epoch_world" by (simp add: epoch_bounded_def epoch_world_def)
  from epoch_turn_correct [OF epoch_world_inv this epoch_world_current] show ?thesis by force
qed

end
