(* ===== verification/Liquid_Staking_Token.thy ===== *)
theory Liquid_Staking_Token
  imports Chain_State
begin

text \<open>
  The liquid staking token contract
  (\<open>src/internal/executor/system/framework/liquid_staking_token.go\<close>), its ERC-721 part: token
  records, ownership, balances and approvals. What a token is worth depends on the pools and
  is in \<open>Token_Views.thy\<close>.
\<close>

section \<open>Token records\<close>

definition lst_info_zero :: lst_info where
  "lst_info_zero = \<lparr>PoolID = 0, Principal = 0, Unlocked = 0, ActiveEpoch = 0, UnlockingRecords = []\<rparr>"

definition LiquidStakingToken_updateInfo :: "int \<Rightarrow> lst_info \<Rightarrow> world \<Rightarrow> world" where
  "LiquidStakingToken_updateInfo tokenID info w =
     EmitEvent (EventUpdateInfo tokenID (Principal info) (Unlocked info) (ActiveEpoch info))
       (w\<lparr>lst := (lst w)\<lparr>infoMap := (infoMap (lst w))(tokenID \<mapsto> info)\<rparr>\<rparr>)"

definition LiquidStakingToken_GetInfo :: "int \<Rightarrow> world \<Rightarrow> lst_info" where
  "LiquidStakingToken_GetInfo tokenID w =
     (case infoMap (lst w) tokenID of None \<Rightarrow> lst_info_zero | Some info \<Rightarrow> info)"

definition LiquidStakingToken_GetInfos :: "int list \<Rightarrow> world \<Rightarrow> lst_info list res" where
  "LiquidStakingToken_GetInfos tokenIDs w =
     emap (\<lambda>tokenID. must NotExist (infoMap (lst w) tokenID)) tokenIDs"

definition LiquidStakingToken_mustGetInfo :: "int \<Rightarrow> world \<Rightarrow> lst_info res" where
  "LiquidStakingToken_mustGetInfo tokenID w =
     (let info = LiquidStakingToken_GetInfo tokenID w in
      if PoolID info = 0 then Inl (TokenErr (TokenNotExist tokenID)) else Inr info)"

fun unlockRecords ::
  "u64 \<Rightarrow> unlocking_record list \<Rightarrow> int \<Rightarrow> unlocking_record list \<Rightarrow> int \<times> unlocking_record list" where
  "unlockRecords blockTimestamp [] unlocked remain = (unlocked, remain)"
| "unlockRecords blockTimestamp (r # rs) unlocked remain =
     (if UnlockTimestamp r \<le> blockTimestamp
      then unlockRecords blockTimestamp rs (unlocked + Amount r) remain
      else unlockRecords blockTimestamp rs unlocked (remain @ [r]))"

definition updateLiquidStakingTokenUnlockingRecords :: "u64 \<Rightarrow> lst_info \<Rightarrow> lst_info" where
  "updateLiquidStakingTokenUnlockingRecords blockTimestamp info =
     (let (unlocked, remain) =
            unlockRecords blockTimestamp (UnlockingRecords info) (Unlocked info) []
      in info\<lparr>Unlocked := unlocked, UnlockingRecords := remain\<rparr>)"

section \<open>Ownership and approvals\<close>

definition LiquidStakingToken_BalanceOf :: "address \<Rightarrow> world \<Rightarrow> int res" where
  "LiquidStakingToken_BalanceOf owner w =
     (if IsZeroAddress owner then Inl (TokenErr InvalidOwner)
      else Inr (case balanceMap (lst w) owner of None \<Rightarrow> 0 | Some b \<Rightarrow> b))"

definition LiquidStakingToken_ownerOf :: "int \<Rightarrow> world \<Rightarrow> address" where
  "LiquidStakingToken_ownerOf tokenID w =
     (case ownerMap (lst w) tokenID of None \<Rightarrow> 0 | Some owner \<Rightarrow> owner)"

definition LiquidStakingToken_OwnerOf :: "int \<Rightarrow> world \<Rightarrow> address res" where
  "LiquidStakingToken_OwnerOf tokenID w =
     (let owner = LiquidStakingToken_ownerOf tokenID w in
      if IsZeroAddress owner then Inl (TokenErr (TokenNotExist tokenID)) else Inr owner)"

definition LiquidStakingToken_requireOwned :: "int \<Rightarrow> world \<Rightarrow> address res" where
  "LiquidStakingToken_requireOwned tokenID w =
     (let owner = LiquidStakingToken_ownerOf tokenID w in
      if IsZeroAddress owner then Inl (TokenErr (TokenNotExist tokenID)) else Inr owner)"

definition LiquidStakingToken_GetApproved :: "int \<Rightarrow> world \<Rightarrow> address" where
  "LiquidStakingToken_GetApproved tokenID w =
     (case tokenApprovalMap (lst w) tokenID of None \<Rightarrow> 0 | Some approved \<Rightarrow> approved)"

definition LiquidStakingToken_IsApprovedForAll :: "address \<Rightarrow> address \<Rightarrow> world \<Rightarrow> bool" where
  "LiquidStakingToken_IsApprovedForAll owner operator w =
     (case operatorApprovalMap (lst w) (owner, operator) of None \<Rightarrow> False | Some approved \<Rightarrow> approved)"

definition LiquidStakingToken_isAuthorized :: "address \<Rightarrow> address \<Rightarrow> int \<Rightarrow> world \<Rightarrow> bool" where
  "LiquidStakingToken_isAuthorized owner spender tokenID w =
     (if IsZeroAddress spender then False
      else if owner = spender then True
      else if LiquidStakingToken_IsApprovedForAll owner spender w then True
      else LiquidStakingToken_GetApproved tokenID w = spender)"

definition LiquidStakingToken_checkAuthorized :: "address \<Rightarrow> address \<Rightarrow> int \<Rightarrow> world \<Rightarrow> unit res" where
  "LiquidStakingToken_checkAuthorized owner spender tokenID w =
     (if \<not> LiquidStakingToken_isAuthorized owner spender tokenID w then
        if IsZeroAddress owner then Inl (TokenErr (TokenNotExist tokenID))
        else Inl (TokenErr (InsufficientApproval spender tokenID))
      else Inr ())"

definition putApproval :: "int \<Rightarrow> address \<Rightarrow> world \<Rightarrow> world" where
  "putApproval tokenID to w =
     w\<lparr>lst := (lst w)\<lparr>tokenApprovalMap := (tokenApprovalMap (lst w))(tokenID \<mapsto> to)\<rparr>\<rparr>"

definition LiquidStakingToken_approve ::
  "address \<Rightarrow> int \<Rightarrow> address \<Rightarrow> bool \<Rightarrow> world \<Rightarrow> world res" where
  "LiquidStakingToken_approve to tokenID auth emitEvent w =
     (if emitEvent \<or> \<not> IsZeroAddress auth then
        ebind (LiquidStakingToken_requireOwned tokenID w) (\<lambda>owner.
        if \<not> IsZeroAddress auth \<and> owner \<noteq> auth \<and>
           \<not> LiquidStakingToken_IsApprovedForAll owner auth w
        then Inl (TokenErr (InvalidApproval auth tokenID))
        else
          let w1 = (if emitEvent then EmitEvent (EventApproval owner to tokenID) w else w) in
          Inr (putApproval tokenID to w1))
      else Inr (putApproval tokenID to w))"

definition putBalance :: "address \<Rightarrow> int \<Rightarrow> world \<Rightarrow> world" where
  "putBalance a n w = w\<lparr>lst := (lst w)\<lparr>balanceMap := (balanceMap (lst w))(a \<mapsto> n)\<rparr>\<rparr>"

definition LiquidStakingToken_updateOwnership ::
  "address \<Rightarrow> int \<Rightarrow> address \<Rightarrow> world \<Rightarrow> (address \<times> world) res" where
  "LiquidStakingToken_updateOwnership to tokenID auth w =
     (let from = LiquidStakingToken_ownerOf tokenID w in
      ebind (if \<not> IsZeroAddress auth
             then LiquidStakingToken_checkAuthorized from auth tokenID w else Inr ()) (\<lambda>_.
      ebind (if \<not> IsZeroAddress from then
               ebind (LiquidStakingToken_approve 0 tokenID 0 False w) (\<lambda>w1.
               let balance = (case balanceMap (lst w1) from of None \<Rightarrow> 0 | Some b \<Rightarrow> b - 1) in
               Inr (putBalance from balance w1))
             else Inr w) (\<lambda>w2.
      let w3 = (if \<not> IsZeroAddress to then
                  let balance = (case balanceMap (lst w2) to of None \<Rightarrow> 0 | Some b \<Rightarrow> b) in
                  putBalance to (balance + 1) w2
                else w2);
          w4 = w3\<lparr>lst := (lst w3)\<lparr>ownerMap := (ownerMap (lst w3))(tokenID \<mapsto> to)\<rparr>\<rparr>
      in Inr (from, EmitEvent (EventTransfer from to tokenID) w4))))"

section \<open>The contract's calls\<close>

definition LiquidStakingToken_Mint :: "address \<Rightarrow> lst_info \<Rightarrow> world \<Rightarrow> (int \<times> world) res" where
  "LiquidStakingToken_Mint to info w =
     (let tokenID = (case nextID (lst w) of None \<Rightarrow> 1 | Some n \<Rightarrow> n);
          w1 = w\<lparr>lst := (lst w)\<lparr>infoMap := (infoMap (lst w))(tokenID \<mapsto> info)\<rparr>\<rparr>;
          w2 = w1\<lparr>lst := (lst w1)\<lparr>nextID := Some (tokenID + 1)\<rparr>\<rparr>
      in ebind (LiquidStakingToken_updateOwnership to tokenID 0 w2) (\<lambda>(_, w3).
         Inr (tokenID, w3)))"

definition LiquidStakingToken_Burn :: "vm_ctx \<Rightarrow> int \<Rightarrow> world \<Rightarrow> world res" where
  "LiquidStakingToken_Burn ctx tokenID w =
     (case ownerMap (lst w) tokenID of
        None \<Rightarrow> Inl (TokenErr (TokenNotExist tokenID))
      | Some owner \<Rightarrow>
          if IsZeroAddress owner then Inl (TokenErr (TokenNotExist tokenID))
          else ebind (LiquidStakingToken_updateOwnership 0 tokenID (ctx_From ctx) w) (\<lambda>(_, w1).
               Inr w1))"

definition LiquidStakingToken_TransferFrom ::
  "vm_ctx \<Rightarrow> address \<Rightarrow> address \<Rightarrow> int \<Rightarrow> world \<Rightarrow> world res" where
  "LiquidStakingToken_TransferFrom ctx from to tokenID w =
     (if IsZeroAddress to then Inl (TokenErr InvalidReceiver)
      else ebind (LiquidStakingToken_updateOwnership to tokenID (ctx_From ctx) w)
        (\<lambda>(previousOwner, w1).
        if previousOwner \<noteq> from then Inl (TokenErr IncorrectOwner) else Inr w1))"

definition LiquidStakingToken_SafeTransferFrom0 ::
  "vm_ctx \<Rightarrow> address \<Rightarrow> address \<Rightarrow> int \<Rightarrow> u8 list \<Rightarrow> world \<Rightarrow> world res" where
  "LiquidStakingToken_SafeTransferFrom0 ctx from to tokenID data w =
     LiquidStakingToken_TransferFrom ctx from to tokenID w"

definition LiquidStakingToken_SafeTransferFrom ::
  "vm_ctx \<Rightarrow> address \<Rightarrow> address \<Rightarrow> int \<Rightarrow> world \<Rightarrow> world res" where
  "LiquidStakingToken_SafeTransferFrom ctx from to tokenID w =
     LiquidStakingToken_SafeTransferFrom0 ctx from to tokenID [] w"

definition LiquidStakingToken_Approve :: "vm_ctx \<Rightarrow> address \<Rightarrow> int \<Rightarrow> world \<Rightarrow> world res" where
  "LiquidStakingToken_Approve ctx to tokenID w =
     LiquidStakingToken_approve to tokenID (ctx_From ctx) True w"

definition LiquidStakingToken_SetApprovalForAll ::
  "vm_ctx \<Rightarrow> address \<Rightarrow> bool \<Rightarrow> world \<Rightarrow> world res" where
  "LiquidStakingToken_SetApprovalForAll ctx operator approved w =
     (if IsZeroAddress operator then Inl (TokenErr InvalidOperator)
      else Inr (EmitEvent (EventApprovalForAll (ctx_From ctx) operator approved)
        (w\<lparr>lst := (lst w)\<lparr>operatorApprovalMap :=
            (operatorApprovalMap (lst w))((ctx_From ctx, operator) \<mapsto> approved)\<rparr>\<rparr>)))"

section \<open>What moving a token does\<close>

definition next_token :: "world \<Rightarrow> int" where
  "next_token w = (case nextID (lst w) of None \<Rightarrow> 1 | Some n \<Rightarrow> n)"

definition token_balance :: "address \<Rightarrow> world \<Rightarrow> int" where
  "token_balance a w = (case balanceMap (lst w) a of None \<Rightarrow> 0 | Some b \<Rightarrow> b)"

definition holdings :: "address \<Rightarrow> world \<Rightarrow> int set" where
  "holdings a w = {t. ownerMap (lst w) t = Some a}"

lemma lst_EmitEvent_more [simp]:
  "putApproval t a (EmitEvent e w) = EmitEvent e (putApproval t a w)"
  "putBalance b n (EmitEvent e w) = EmitEvent e (putBalance b n w)"
  by (simp_all add: EmitEvent_def putApproval_def putBalance_def)

lemma lst_put [simp]:
  "lst (putApproval t a w) = (lst w)\<lparr>tokenApprovalMap := (tokenApprovalMap (lst w))(t \<mapsto> a)\<rparr>"
  "lst (putBalance b n w) = (lst w)\<lparr>balanceMap := (balanceMap (lst w))(b \<mapsto> n)\<rparr>"
  by (simp_all add: putApproval_def putBalance_def)

lemma frame_put [simp, frame_simps]:
  "balances (putApproval t a w) = balances w" "axc (putApproval t a w) = axc w"
  "epochs (putApproval t a w) = epochs w" "staking (putApproval t a w) = staking w"
  "nodes (putApproval t a w) = nodes w" "logs (putApproval t a w) = logs w"
  "balances (putBalance b n w) = balances w" "axc (putBalance b n w) = axc w"
  "epochs (putBalance b n w) = epochs w" "staking (putBalance b n w) = staking w"
  "nodes (putBalance b n w) = nodes w" "logs (putBalance b n w) = logs w"
  by (simp_all add: putApproval_def putBalance_def)

lemma approve_clear [simp]:
  "LiquidStakingToken_approve 0 t 0 False w = Inr (putApproval t 0 w)"
  by (simp add: LiquidStakingToken_approve_def IsZeroAddress_def)

lemma updateOwnership_Inr:
  assumes "LiquidStakingToken_updateOwnership to t auth w = Inr (from, w')"
  shows "from = LiquidStakingToken_ownerOf t w"
    and "auth \<noteq> 0 \<Longrightarrow> LiquidStakingToken_isAuthorized from auth t w"
    and "ownerMap (lst w') = (ownerMap (lst w))(t \<mapsto> to)"
    and "infoMap (lst w') = infoMap (lst w)" and "nextID (lst w') = nextID (lst w)"
    and "operatorApprovalMap (lst w') = operatorApprovalMap (lst w)"
    and "tokenApprovalMap (lst w') =
           (if from = 0 then tokenApprovalMap (lst w) else (tokenApprovalMap (lst w))(t \<mapsto> 0))"
    and "balances w' = balances w" "axc w' = axc w" "epochs w' = epochs w"
      "staking w' = staking w" "nodes w' = nodes w"
      "logs w' = logs w @ [EventTransfer from to t]"
  using assms
  by (auto simp: LiquidStakingToken_updateOwnership_def LiquidStakingToken_checkAuthorized_def
      Let_def ebind_Inr_iff IsZeroAddress_def split: if_splits)

lemma updateOwnership_total:
  assumes "auth = 0 \<or> LiquidStakingToken_isAuthorized (LiquidStakingToken_ownerOf t w) auth t w"
  shows "\<exists>w'. LiquidStakingToken_updateOwnership to t auth w =
           Inr (LiquidStakingToken_ownerOf t w, w')"
  using assms
  by (auto simp: LiquidStakingToken_updateOwnership_def LiquidStakingToken_checkAuthorized_def
      Let_def IsZeroAddress_def)

lemma updateOwnership_balance:
  assumes "LiquidStakingToken_updateOwnership to t auth w = Inr (from, w')"
    and "from \<noteq> 0 \<Longrightarrow> balanceMap (lst w) from \<noteq> None" and "a \<noteq> 0"
  shows "token_balance a w' = token_balance a w - (if a = from then 1 else 0) + (if a = to then 1 else 0)"
  using assms
  by (auto simp: LiquidStakingToken_updateOwnership_def token_balance_def
      Let_def ebind_Inr_iff IsZeroAddress_def split: if_splits option.splits)

section \<open>The token invariant\<close>

text \<open>
  Token ids are issued in order from 1 and every issued id has a record and an owner entry;
  the balance of an address is the number of tokens it owns; a token without owner carries no
  approval, and the zero address has approved nobody.
\<close>

definition ownership_inv :: "world \<Rightarrow> bool" where
  "ownership_inv w \<longleftrightarrow>
     finite (dom (ownerMap (lst w))) \<and>
     (\<forall>a. a \<noteq> 0 \<longrightarrow> token_balance a w = int (card (holdings a w))) \<and>
     (\<forall>t. LiquidStakingToken_ownerOf t w = 0 \<longrightarrow> LiquidStakingToken_GetApproved t w = 0) \<and>
     (\<forall>b. \<not> LiquidStakingToken_IsApprovedForAll 0 b w)"

definition issued_inv :: "world \<Rightarrow> bool" where
  "issued_inv w \<longleftrightarrow> 1 \<le> next_token w \<and>
     dom (infoMap (lst w)) = {1..<next_token w} \<and> dom (ownerMap (lst w)) = {1..<next_token w}"

definition lst_inv :: "world \<Rightarrow> bool" where
  "lst_inv w \<longleftrightarrow> issued_inv w \<and> ownership_inv w"

lemma ownership_invD:
  assumes "ownership_inv w"
  shows "finite (dom (ownerMap (lst w)))"
    "a \<noteq> 0 \<Longrightarrow> token_balance a w = int (card (holdings a w))"
    "LiquidStakingToken_ownerOf t w = 0 \<Longrightarrow> LiquidStakingToken_GetApproved t w = 0"
    "\<not> LiquidStakingToken_IsApprovedForAll 0 b w"
  using assms by (auto simp: ownership_inv_def)

lemma ownership_inv_cong:
  assumes "ownerMap (lst w) = ownerMap (lst w')" "balanceMap (lst w) = balanceMap (lst w')"
    "tokenApprovalMap (lst w) = tokenApprovalMap (lst w')"
    "operatorApprovalMap (lst w) = operatorApprovalMap (lst w')"
  shows "ownership_inv w = ownership_inv w'"
  using assms
  by (simp add: ownership_inv_def token_balance_def holdings_def LiquidStakingToken_ownerOf_def
      LiquidStakingToken_GetApproved_def LiquidStakingToken_IsApprovedForAll_def)

lemma lst_inv_cong: "lst w = lst w' \<Longrightarrow> lst_inv w = lst_inv w'"
  using ownership_inv_cong [of w w'] by (simp add: lst_inv_def issued_inv_def next_token_def)

lemma finite_holdings: "ownership_inv w \<Longrightarrow> finite (holdings a w)"
  using ownership_invD(1) [of w]
  by (rule finite_subset [rotated]) (auto simp: holdings_def)

lemma owner_in_holdings: "LiquidStakingToken_ownerOf t w \<noteq> 0 \<Longrightarrow>
    t \<in> holdings (LiquidStakingToken_ownerOf t w) w"
  by (auto simp: holdings_def LiquidStakingToken_ownerOf_def split: option.splits)

lemma owner_has_balance:
  assumes "ownership_inv w" and "LiquidStakingToken_ownerOf t w = a" and "a \<noteq> 0"
  shows "balanceMap (lst w) a \<noteq> None"
proof -
  have "t \<in> holdings a w" using owner_in_holdings assms(2,3) by blast
  then have "0 < card (holdings a w)"
    using finite_holdings [OF assms(1)] by (auto simp: card_gt_0_iff)
  then have "0 < token_balance a w" using ownership_invD(2) [OF assms(1) assms(3)] by simp
  then show ?thesis by (auto simp: token_balance_def split: option.splits)
qed

lemma unauthorized_unowned:
  assumes "ownership_inv w" and "LiquidStakingToken_ownerOf t w = 0"
  shows "\<not> LiquidStakingToken_isAuthorized 0 auth t w"
  using ownership_invD(3) [OF assms] ownership_invD(4) [OF assms(1)]
  by (auto simp: LiquidStakingToken_isAuthorized_def IsZeroAddress_def)

lemma holdings_move:
  assumes "ownerMap (lst w') = (ownerMap (lst w))(t \<mapsto> to)"
  shows "holdings a w' = (if a = to then insert t (holdings a w) else holdings a w - {t})"
  using assms by (auto simp: holdings_def)

lemma card_holdings_move:
  assumes "ownership_inv w" and "ownerMap (lst w') = (ownerMap (lst w))(t \<mapsto> to)" and "a \<noteq> 0"
  shows "int (card (holdings a w')) = int (card (holdings a w))
     - (if a = LiquidStakingToken_ownerOf t w then 1 else 0) + (if a = to then 1 else 0)"
proof -
  have own: "t \<in> holdings a w \<longleftrightarrow> a = LiquidStakingToken_ownerOf t w"
    using assms(3) by (auto simp: holdings_def LiquidStakingToken_ownerOf_def split: option.splits)
  have fin: "finite (holdings a w)" using assms(1) by (rule finite_holdings)
  have "0 < card (holdings a w)" if "t \<in> holdings a w"
    using fin that by (auto simp: card_gt_0_iff)
  then show ?thesis
    using own fin
    by (auto simp: holdings_move [OF assms(2)] card_insert_if card_Diff_singleton_if of_nat_diff)
qed

text \<open>Moving a token keeps the ownership invariant, whatever the new owner.\<close>

lemma updateOwnership_ownership:
  assumes inv: "ownership_inv w"
    and ok: "LiquidStakingToken_updateOwnership to t auth w = Inr (prev, w')"
  shows "ownership_inv w'"
proof -
  note moved = updateOwnership_Inr [OF ok]
  have bal: "token_balance a w' = int (card (holdings a w'))" if "a \<noteq> 0" for a
    using updateOwnership_balance [OF ok _ that] owner_has_balance [OF inv, of t]
      card_holdings_move [OF inv moved(3) that] ownership_invD(2) [OF inv that] moved(1) by auto
  have appr: "LiquidStakingToken_GetApproved u w' = 0"
    if "LiquidStakingToken_ownerOf u w' = 0" for u
  proof (cases "u = t \<and> prev \<noteq> 0")
    case True
    then show ?thesis using moved(7) by (simp add: LiquidStakingToken_GetApproved_def)
  next
    case False
    have "LiquidStakingToken_ownerOf u w = 0"
      using that moved(1,3) False
      by (auto simp: LiquidStakingToken_ownerOf_def split: if_splits option.splits)
    from ownership_invD(3) [OF inv this] show ?thesis
      using moved(7) False by (auto simp: LiquidStakingToken_GetApproved_def)
  qed
  show ?thesis
    unfolding ownership_inv_def
    using ownership_invD(1,4) [OF inv] bal appr moved(3,6)
    by (auto simp: LiquidStakingToken_IsApprovedForAll_def)
qed

lemma updateOwnership_inv:
  assumes "lst_inv w" and "t \<in> {1..<next_token w}"
    and "LiquidStakingToken_updateOwnership to t auth w = Inr (prev, w')"
  shows "lst_inv w'"
  using assms updateOwnership_ownership [OF _ assms(3)] updateOwnership_Inr [OF assms(3)]
  by (auto simp: lst_inv_def issued_inv_def next_token_def)

lemma issued_iff: "lst_inv w \<Longrightarrow> ownerMap (lst w) t \<noteq> None \<longleftrightarrow> t \<in> {1..<next_token w}"
  by (auto simp: lst_inv_def issued_inv_def)

lemma owned_issued:
  assumes "lst_inv w" and "LiquidStakingToken_ownerOf t w \<noteq> 0"
  shows "t \<in> {1..<next_token w}"
  using assms(2) issued_iff [OF assms(1), of t]
  by (auto simp: LiquidStakingToken_ownerOf_def split: option.splits)

lemma authorized_issued:
  assumes "lst_inv w" and "LiquidStakingToken_isAuthorized (LiquidStakingToken_ownerOf t w) auth t w"
  shows "t \<in> {1..<next_token w}"
proof -
  have "LiquidStakingToken_ownerOf t w \<noteq> 0"
    using assms unauthorized_unowned [of w t auth] by (auto simp: lst_inv_def)
  with assms(1) show ?thesis by (rule owned_issued)
qed

section \<open>Every call keeps the invariant\<close>

definition enrolled :: "lst_info \<Rightarrow> world \<Rightarrow> world" where
  "enrolled info w = w\<lparr>lst := (lst w)\<lparr>infoMap := (infoMap (lst w))(next_token w \<mapsto> info),
                                        nextID := Some (next_token w + 1)\<rparr>\<rparr>"

lemma LiquidStakingToken_Mint_eq:
  "LiquidStakingToken_Mint to info w =
     ebind (LiquidStakingToken_updateOwnership to (next_token w) 0 (enrolled info w))
       (\<lambda>(_, w'). Inr (next_token w, w'))"
  by (simp add: LiquidStakingToken_Mint_def Let_def next_token_def enrolled_def)

lemma LiquidStakingToken_MintE:
  assumes "LiquidStakingToken_Mint to info w = Inr (t, w')"
  obtains prev where
    "LiquidStakingToken_updateOwnership to t 0 (enrolled info w) = Inr (prev, w')"
    and "t = next_token w"
  using assms unfolding LiquidStakingToken_Mint_eq by (auto elim!: ebind_InrE)

lemma LiquidStakingToken_Mint_Inr:
  assumes "LiquidStakingToken_Mint to info w = Inr (t, w')"
  shows "t = next_token w" and "nextID (lst w') = Some (t + 1)"
    and "infoMap (lst w') = (infoMap (lst w))(t \<mapsto> info)"
    and "ownerMap (lst w') = (ownerMap (lst w))(t \<mapsto> to)"
    and "operatorApprovalMap (lst w') = operatorApprovalMap (lst w)"
    and "balances w' = balances w" "axc w' = axc w" "epochs w' = epochs w"
      "staking w' = staking w" "nodes w' = nodes w"
proof -
  from assms obtain prev where
    moved: "LiquidStakingToken_updateOwnership to t 0 (enrolled info w) = Inr (prev, w')"
    and t: "t = next_token w" by (rule LiquidStakingToken_MintE)
  show "t = next_token w" by (rule t)
  show "nextID (lst w') = Some (t + 1)" "infoMap (lst w') = (infoMap (lst w))(t \<mapsto> info)"
    "ownerMap (lst w') = (ownerMap (lst w))(t \<mapsto> to)"
    "operatorApprovalMap (lst w') = operatorApprovalMap (lst w)"
    "balances w' = balances w" "axc w' = axc w" "epochs w' = epochs w"
    "staking w' = staking w" "nodes w' = nodes w"
    by (simp_all add: updateOwnership_Inr [OF moved] t enrolled_def)
qed

lemma LiquidStakingToken_Mint_total: "\<exists>w'. LiquidStakingToken_Mint to info w = Inr (next_token w, w')"
  using updateOwnership_total [of 0 "next_token w" "enrolled info w" to]
  by (auto simp: LiquidStakingToken_Mint_eq)

lemma LiquidStakingToken_Mint_inv:
  assumes "lst_inv w" and "LiquidStakingToken_Mint to info w = Inr (t, w')"
  shows "lst_inv w'"
proof -
  note minted = LiquidStakingToken_Mint_Inr [OF assms(2)]
  from assms(1) have iss: "issued_inv w" and own: "ownership_inv w" by (auto simp: lst_inv_def)
  have "next_token w' = next_token w + 1" using minted(1,2) by (simp add: next_token_def)
  then have "issued_inv w'" using iss minted(1-4) by (auto simp: issued_inv_def)
  moreover have "ownership_inv (enrolled info w)"
    using own ownership_inv_cong [of w "enrolled info w"] by (simp add: enrolled_def)
  then have "ownership_inv w'"
    using assms(2) by (auto elim!: LiquidStakingToken_MintE dest: updateOwnership_ownership)
  ultimately show ?thesis by (simp add: lst_inv_def)
qed

lemma LiquidStakingToken_updateInfo_fields [simp]:
  "infoMap (lst (LiquidStakingToken_updateInfo t info w)) = (infoMap (lst w))(t \<mapsto> info)"
  "ownerMap (lst (LiquidStakingToken_updateInfo t info w)) = ownerMap (lst w)"
  "balanceMap (lst (LiquidStakingToken_updateInfo t info w)) = balanceMap (lst w)"
  "tokenApprovalMap (lst (LiquidStakingToken_updateInfo t info w)) = tokenApprovalMap (lst w)"
  "operatorApprovalMap (lst (LiquidStakingToken_updateInfo t info w)) = operatorApprovalMap (lst w)"
  "nextID (lst (LiquidStakingToken_updateInfo t info w)) = nextID (lst w)"
  by (simp_all add: LiquidStakingToken_updateInfo_def)

lemma LiquidStakingToken_updateInfo_frame [simp, frame_simps]:
  "balances (LiquidStakingToken_updateInfo t info w) = balances w"
  "axc (LiquidStakingToken_updateInfo t info w) = axc w"
  "epochs (LiquidStakingToken_updateInfo t info w) = epochs w"
  "staking (LiquidStakingToken_updateInfo t info w) = staking w"
  "nodes (LiquidStakingToken_updateInfo t info w) = nodes w"
  by (simp_all add: LiquidStakingToken_updateInfo_def)

lemma LiquidStakingToken_updateInfo_inv:
  assumes "lst_inv w" and "infoMap (lst w) t \<noteq> None"
  shows "lst_inv (LiquidStakingToken_updateInfo t info w)"
  using assms ownership_inv_cong [of w "LiquidStakingToken_updateInfo t info w"]
  by (auto simp: lst_inv_def issued_inv_def next_token_def)

lemma LiquidStakingToken_mustGetInfo_Inr:
  "LiquidStakingToken_mustGetInfo t w = Inr info \<longleftrightarrow> infoMap (lst w) t = Some info \<and> PoolID info \<noteq> 0"
  by (auto simp: LiquidStakingToken_mustGetInfo_def LiquidStakingToken_GetInfo_def lst_info_zero_def
      Let_def split: option.splits if_splits)

lemma LiquidStakingToken_approve_inv:
  assumes inv: "lst_inv w" and ok: "LiquidStakingToken_approve to t auth True w = Inr w'"
  shows "lst_inv w'"
proof -
  from ok have owner: "LiquidStakingToken_ownerOf t w \<noteq> 0"
    and w': "w' = EmitEvent (EventApproval (LiquidStakingToken_ownerOf t w) to t) (putApproval t to w)"
    by (auto simp: LiquidStakingToken_approve_def LiquidStakingToken_requireOwned_def Let_def
        IsZeroAddress_def ebind_Inr_iff split: if_splits)
  have "ownership_inv w'"
    using inv owner unfolding w' ownership_inv_def lst_inv_def
    by (auto simp: token_balance_def holdings_def LiquidStakingToken_ownerOf_def
        LiquidStakingToken_GetApproved_def LiquidStakingToken_IsApprovedForAll_def)
  moreover have "issued_inv w'"
    using inv unfolding w' lst_inv_def by (simp add: issued_inv_def next_token_def)
  ultimately show ?thesis by (simp add: lst_inv_def)
qed

lemma LiquidStakingToken_SetApprovalForAll_inv:
  assumes inv: "lst_inv w" and sender: "ctx_From ctx \<noteq> 0"
    and ok: "LiquidStakingToken_SetApprovalForAll ctx operator approved w = Inr w'"
  shows "lst_inv w'"
proof -
  have "ownership_inv w'"
    using inv ok sender unfolding ownership_inv_def lst_inv_def
    by (auto simp: LiquidStakingToken_SetApprovalForAll_def token_balance_def holdings_def
        LiquidStakingToken_ownerOf_def LiquidStakingToken_GetApproved_def
        LiquidStakingToken_IsApprovedForAll_def split: if_splits)
  moreover have "issued_inv w'"
    using inv ok [symmetric] unfolding lst_inv_def
    by (simp add: LiquidStakingToken_SetApprovalForAll_def issued_inv_def next_token_def
        split: if_splits)
  ultimately show ?thesis by (simp add: lst_inv_def)
qed

lemma LiquidStakingToken_TransferFrom_inv:
  assumes "lst_inv w" and "ctx_From ctx \<noteq> 0"
    and ok: "LiquidStakingToken_TransferFrom ctx a b t w = Inr w'"
  shows "lst_inv w'"
proof -
  from ok obtain prev where moved: "LiquidStakingToken_updateOwnership b t (ctx_From ctx) w = Inr (prev, w')"
    by (auto simp: LiquidStakingToken_TransferFrom_def ebind_Inr_iff split: if_splits)
  from updateOwnership_Inr(1,2) [OF moved] assms(1,2) have "t \<in> {1..<next_token w}"
    using authorized_issued by blast
  then show ?thesis using assms(1) moved by (blast intro: updateOwnership_inv)
qed

lemma LiquidStakingToken_Burn_inv:
  assumes "lst_inv w" and ok: "LiquidStakingToken_Burn ctx t w = Inr w'"
  shows "lst_inv w'"
proof -
  from ok obtain prev where moved: "LiquidStakingToken_updateOwnership 0 t (ctx_From ctx) w = Inr (prev, w')"
    and "ownerMap (lst w) t \<noteq> None"
    by (auto simp: LiquidStakingToken_Burn_def ebind_Inr_iff split: if_splits option.splits)
  then have "t \<in> {1..<next_token w}" using issued_iff [OF assms(1), of t] by simp
  then show ?thesis using assms(1) moved by (blast intro: updateOwnership_inv)
qed

section \<open>All calls together\<close>

text \<open>
  The first five calls are the ones the contract exposes to users, sent by a signed
  transaction and so never from the zero address; minting, burning and rewriting the record
  of a token that exists are the calls of the staking contracts.
\<close>

datatype lst_call =
    CallTransferFrom vm_ctx address address int
  | CallSafeTransferFrom0 vm_ctx address address int "u8 list"
  | CallSafeTransferFrom vm_ctx address address int
  | CallApprove vm_ctx address int
  | CallSetApprovalForAll vm_ctx address bool
  | CallMint address lst_info
  | CallBurn vm_ctx int
  | CallUpdateInfo int "lst_info \<Rightarrow> lst_info"

fun lst_exec :: "lst_call \<Rightarrow> world \<Rightarrow> world res" where
  "lst_exec (CallTransferFrom ctx a b t) w = LiquidStakingToken_TransferFrom ctx a b t w"
| "lst_exec (CallSafeTransferFrom0 ctx a b t d) w = LiquidStakingToken_SafeTransferFrom0 ctx a b t d w"
| "lst_exec (CallSafeTransferFrom ctx a b t) w = LiquidStakingToken_SafeTransferFrom ctx a b t w"
| "lst_exec (CallApprove ctx a t) w = LiquidStakingToken_Approve ctx a t w"
| "lst_exec (CallSetApprovalForAll ctx a ok) w = LiquidStakingToken_SetApprovalForAll ctx a ok w"
| "lst_exec (CallMint a info) w = ebind (LiquidStakingToken_Mint a info w) (\<lambda>(_, w'). Inr w')"
| "lst_exec (CallBurn ctx t) w = LiquidStakingToken_Burn ctx t w"
| "lst_exec (CallUpdateInfo t f) w = ebind (LiquidStakingToken_mustGetInfo t w) (\<lambda>info.
     Inr (LiquidStakingToken_updateInfo t (f info) w))"

fun lst_sender :: "lst_call \<Rightarrow> address option" where
  "lst_sender (CallTransferFrom ctx a b t) = Some (ctx_From ctx)"
| "lst_sender (CallSafeTransferFrom0 ctx a b t d) = Some (ctx_From ctx)"
| "lst_sender (CallSafeTransferFrom ctx a b t) = Some (ctx_From ctx)"
| "lst_sender (CallApprove ctx a t) = Some (ctx_From ctx)"
| "lst_sender (CallSetApprovalForAll ctx a ok) = Some (ctx_From ctx)"
| "lst_sender _ = None"

definition lst_signed :: "lst_call \<Rightarrow> bool" where
  "lst_signed x \<longleftrightarrow> lst_sender x \<noteq> Some 0"

lemma lst_exec_inv:
  "lst_inv w \<Longrightarrow> lst_signed x \<Longrightarrow> lst_exec x w = Inr w' \<Longrightarrow> lst_inv w'"
  by (cases x)
    (auto simp: lst_signed_def LiquidStakingToken_SafeTransferFrom0_def
      LiquidStakingToken_SafeTransferFrom_def LiquidStakingToken_Approve_def ebind_Inr_iff
      LiquidStakingToken_mustGetInfo_Inr
      intro: LiquidStakingToken_TransferFrom_inv LiquidStakingToken_approve_inv
        LiquidStakingToken_SetApprovalForAll_inv LiquidStakingToken_Mint_inv
        LiquidStakingToken_Burn_inv LiquidStakingToken_updateInfo_inv)

text \<open>Token ids are never reused and the record of a token never disappears.\<close>

definition lst_grows :: "world \<Rightarrow> world \<Rightarrow> bool" where
  "lst_grows w w' \<longleftrightarrow> next_token w \<le> next_token w' \<and> dom (infoMap (lst w)) \<subseteq> dom (infoMap (lst w'))"

lemma lst_grows_same:
  "nextID (lst w') = nextID (lst w) \<Longrightarrow> infoMap (lst w') = infoMap (lst w) \<Longrightarrow> lst_grows w w'"
  by (simp add: lst_grows_def next_token_def)

lemma LiquidStakingToken_approve_records:
  "LiquidStakingToken_approve a t auth emit w = Inr w' \<Longrightarrow>
     nextID (lst w') = nextID (lst w) \<and> infoMap (lst w') = infoMap (lst w)"
  by (auto simp: LiquidStakingToken_approve_def ebind_Inr_iff Let_def split: if_splits)

lemma LiquidStakingToken_TransferFromE:
  assumes "LiquidStakingToken_TransferFrom ctx a b t w = Inr w'"
  obtains "b \<noteq> 0" and "LiquidStakingToken_updateOwnership b t (ctx_From ctx) w = Inr (a, w')"
  using assms
  by (auto simp: LiquidStakingToken_TransferFrom_def ebind_Inr_iff IsZeroAddress_def split: if_splits)

lemma LiquidStakingToken_BurnE:
  assumes "LiquidStakingToken_Burn ctx t w = Inr w'"
  obtains a where "LiquidStakingToken_updateOwnership 0 t (ctx_From ctx) w = Inr (a, w')"
  using assms
  by (auto simp: LiquidStakingToken_Burn_def ebind_Inr_iff split: if_splits option.splits)

lemma lst_exec_grows: "lst_exec x w = Inr w' \<Longrightarrow> lst_grows w w'"
proof (cases x)
  case (CallMint a info)
  assume "lst_exec x w = Inr w'"
  with CallMint obtain t where "LiquidStakingToken_Mint a info w = Inr (t, w')"
    by (auto simp: ebind_Inr_iff)
  from LiquidStakingToken_Mint_Inr [OF this] show ?thesis
    by (auto simp: lst_grows_def next_token_def)
next
  case (CallUpdateInfo t f)
  assume "lst_exec x w = Inr w'"
  with CallUpdateInfo show ?thesis by (auto simp: ebind_Inr_iff lst_grows_def next_token_def)
qed (auto simp: LiquidStakingToken_SafeTransferFrom0_def LiquidStakingToken_SafeTransferFrom_def
    LiquidStakingToken_Approve_def LiquidStakingToken_SetApprovalForAll_def updateOwnership_Inr(4,5)
    split: if_splits dest!: LiquidStakingToken_approve_records
    elim!: LiquidStakingToken_TransferFromE LiquidStakingToken_BurnE intro!: lst_grows_same)

interpretation lst_machine: contract_monotone lst_exec lst_signed lst_inv lst_grows
proof unfold_locales
  show "lst_inv w \<Longrightarrow> lst_signed x \<Longrightarrow> lst_exec x w = Inr w' \<Longrightarrow> lst_inv w'" for w x w'
    by (rule lst_exec_inv)
  show "lst_exec x w = Inr w' \<Longrightarrow> lst_grows w w'" for w x w'
    by (rule lst_exec_grows)
qed (auto simp: lst_grows_def)

lemma lst_inv_empty: "lst w = lst empty_world \<Longrightarrow> lst_inv w"
  by (auto simp: lst_inv_def issued_inv_def ownership_inv_def next_token_def token_balance_def
      holdings_def LiquidStakingToken_ownerOf_def LiquidStakingToken_GetApproved_def
      LiquidStakingToken_IsApprovedForAll_def)

lemma LiquidStakingToken_OwnerOf_Inr:
  "LiquidStakingToken_OwnerOf t w = Inr a \<longleftrightarrow> LiquidStakingToken_ownerOf t w = a \<and> a \<noteq> 0"
  by (auto simp: LiquidStakingToken_OwnerOf_def Let_def IsZeroAddress_def)

lemma LiquidStakingToken_BalanceOf_card:
  assumes "lst_inv w" and "a \<noteq> 0"
  shows "LiquidStakingToken_BalanceOf a w = Inr (int (card {t. LiquidStakingToken_OwnerOf t w = Inr a}))"
proof -
  have "{t. LiquidStakingToken_OwnerOf t w = Inr a} = holdings a w"
    using assms(2)
    by (auto simp: LiquidStakingToken_OwnerOf_Inr LiquidStakingToken_ownerOf_def holdings_def
        split: option.splits)
  moreover have "token_balance a w = int (card (holdings a w))"
    using assms by (simp add: lst_inv_def ownership_invD(2))
  ultimately show ?thesis
    using assms(2) by (simp add: LiquidStakingToken_BalanceOf_def IsZeroAddress_def token_balance_def)
qed

section \<open>The ledger of positions the staking contracts rely on\<close>

text \<open>
  A staking contract mints a token for each position, reads its record and writes it back.
  It relies on: a minted token is new and carries the given record and owner; writing one
  record changes no owner and no other record.
\<close>

locale position_ledger =
  fixes mint :: "'o \<Rightarrow> 'r \<Rightarrow> 's \<Rightarrow> 'e + ('k \<times> 's)"
    and rec :: "'k \<Rightarrow> 's \<Rightarrow> 'r option"
    and put :: "'k \<Rightarrow> 'r \<Rightarrow> 's \<Rightarrow> 's"
    and owner :: "'k \<Rightarrow> 's \<Rightarrow> 'o"
    and led_inv :: "'s \<Rightarrow> bool"
  assumes mint_total: "\<exists>k s'. mint x r s = Inr (k, s')"
    and mint_fresh: "led_inv s \<Longrightarrow> mint x r s = Inr (k, s') \<Longrightarrow> rec k s = None"
    and mint_rec: "led_inv s \<Longrightarrow> mint x r s = Inr (k, s') \<Longrightarrow>
       rec j s' = (if j = k then Some r else rec j s)"
    and mint_owner: "led_inv s \<Longrightarrow> mint x r s = Inr (k, s') \<Longrightarrow>
       owner j s' = (if j = k then x else owner j s)"
    and mint_inv: "led_inv s \<Longrightarrow> mint x r s = Inr (k, s') \<Longrightarrow> led_inv s'"
    and put_rec: "rec j (put k r s) = (if j = k then Some r else rec j s)"
    and put_owner: "owner j (put k r s) = owner j s"
    and put_inv: "led_inv s \<Longrightarrow> rec k s \<noteq> None \<Longrightarrow> led_inv (put k r s)"
begin

text \<open>Opening several positions in one call gives distinct new tokens, each with its record and owner.\<close>

fun mint_all :: "('o \<times> 'r) list \<Rightarrow> 's \<Rightarrow> 'e + ('k list \<times> 's)" where
  "mint_all [] s = Inr ([], s)"
| "mint_all ((x, r) # ps) s = ebind (mint x r s) (\<lambda>(k, s1).
     ebind (mint_all ps s1) (\<lambda>(ks, s2). Inr (k # ks, s2)))"

lemma mint_all_spec:
  assumes "led_inv s" and "mint_all ps s = Inr (ks, s')"
  shows "led_inv s'" and "distinct ks" and "\<And>k. k \<in> set ks \<Longrightarrow> rec k s = None"
    and "list_all2 (\<lambda>k (x, r). rec k s' = Some r \<and> owner k s' = x) ks ps"
    and "\<And>j. j \<notin> set ks \<Longrightarrow> rec j s' = rec j s \<and> owner j s' = owner j s"
proof -
  have "led_inv s' \<and> distinct ks \<and> (\<forall>k\<in>set ks. rec k s = None) \<and>
      list_all2 (\<lambda>k (x, r). rec k s' = Some r \<and> owner k s' = x) ks ps \<and>
      (\<forall>j. j \<notin> set ks \<longrightarrow> rec j s' = rec j s \<and> owner j s' = owner j s)"
    using assms
  proof (induction ps s arbitrary: ks s' rule: mint_all.induct)
    case (2 x r ps s)
    from 2(3) obtain k s1 ks2 where first: "mint x r s = Inr (k, s1)"
      and others: "mint_all ps s1 = Inr (ks2, s')" and ks: "ks = k # ks2"
      by (auto simp: ebind_Inr_iff)
    note IH = 2(1) [OF first refl mint_inv [OF 2(2) first] others]
    have "k \<notin> set ks2" using IH mint_rec [OF 2(2) first, of k] by auto
    moreover have "rec j s = None" if "j \<in> set ks2" for j
      using IH mint_rec [OF 2(2) first, of j] that by (auto split: if_splits)
    ultimately show ?case
      using IH mint_fresh [OF 2(2) first] mint_rec [OF 2(2) first] mint_owner [OF 2(2) first] ks
      by (auto split: if_splits)
  qed simp
  then show "led_inv s'" "distinct ks" "\<And>k. k \<in> set ks \<Longrightarrow> rec k s = None"
    "list_all2 (\<lambda>k (x, r). rec k s' = Some r \<and> owner k s' = x) ks ps"
    "\<And>j. j \<notin> set ks \<Longrightarrow> rec j s' = rec j s \<and> owner j s' = owner j s" by blast+
qed

lemma mint_put_get:
  assumes "led_inv s" and "mint x r s = Inr (k, s')"
  shows "rec k (put k r' s') = Some r'" and "owner k (put k r' s') = x" and "led_inv (put k r' s')"
  using mint_rec [OF assms, of k] mint_owner [OF assms, of k] mint_inv [OF assms]
  by (auto simp: put_rec put_owner intro: put_inv)

end

interpretation lst_ledger: position_ledger LiquidStakingToken_Mint "\<lambda>t w. infoMap (lst w) t"
  LiquidStakingToken_updateInfo LiquidStakingToken_ownerOf lst_inv
proof unfold_locales
  fix x r w t w' assume inv: "lst_inv w" and ok: "LiquidStakingToken_Mint x r w = Inr (t, w')"
  note minted = LiquidStakingToken_Mint_Inr [OF ok]
  show "infoMap (lst w) t = None"
    using inv minted(1) by (auto simp: lst_inv_def issued_inv_def domIff set_eq_iff)
  show "infoMap (lst w') j = (if j = t then Some r else infoMap (lst w) j)"
    "LiquidStakingToken_ownerOf j w' = (if j = t then x else LiquidStakingToken_ownerOf j w)" for j
    using minted by (simp_all add: LiquidStakingToken_ownerOf_def)
  show "lst_inv w'" by (rule LiquidStakingToken_Mint_inv [OF inv ok])
next
  show "\<exists>t w'. LiquidStakingToken_Mint x r w = Inr (t, w')" for x r w
    using LiquidStakingToken_Mint_total by blast
qed (auto simp: LiquidStakingToken_ownerOf_def intro: LiquidStakingToken_updateInfo_inv)

section \<open>Unlocking records\<close>

lemma unlockRecords_eq:
  "unlockRecords ts rs u rem =
     (u + sum_list (map Amount (filter (\<lambda>r. UnlockTimestamp r \<le> ts) rs)),
      rem @ filter (\<lambda>r. \<not> UnlockTimestamp r \<le> ts) rs)"
  by (induction rs arbitrary: u rem) auto

lemma updateLiquidStakingTokenUnlockingRecords_eq:
  "updateLiquidStakingTokenUnlockingRecords ts info =
     info\<lparr>Unlocked := Unlocked info +
            sum_list (map Amount (filter (\<lambda>r. UnlockTimestamp r \<le> ts) (UnlockingRecords info))),
          UnlockingRecords := filter (\<lambda>r. \<not> UnlockTimestamp r \<le> ts) (UnlockingRecords info)\<rparr>"
  by (simp add: updateLiquidStakingTokenUnlockingRecords_def unlockRecords_eq)

lemma updateRecords_fields [simp]:
  "PoolID (updateLiquidStakingTokenUnlockingRecords ts info) = PoolID info"
  "Principal (updateLiquidStakingTokenUnlockingRecords ts info) = Principal info"
  "ActiveEpoch (updateLiquidStakingTokenUnlockingRecords ts info) = ActiveEpoch info"
  by (simp_all add: updateLiquidStakingTokenUnlockingRecords_eq)

lemma sum_list_filter_split:
  fixes f :: "'a \<Rightarrow> int"
  shows "sum_list (map f (filter P xs)) + sum_list (map f (filter (\<lambda>x. \<not> P x) xs)) = sum_list (map f xs)"
  by (induction xs) auto

lemma sum_list_filter_refine:
  fixes f :: "'a \<Rightarrow> int"
  assumes "\<And>x. P x \<Longrightarrow> Q x"
  shows "sum_list (map f (filter P xs)) + sum_list (map f (filter Q (filter (\<lambda>x. \<not> P x) xs))) =
         sum_list (map f (filter Q xs))"
  using assms by (induction xs) auto

section \<open>Properties\<close>

text \<open>
  C9: Consistency of the token ledger. After any sequence of calls on an empty contract, none
  of the user calls coming from the zero address and failing calls being reverted, the balance
  of each address is exactly the number of tokens it owns, the tokens with a record are
  exactly those with an id from 1 to the last one issued, and a token nobody owns has no
  approved spender.
\<close>

theorem lst_calls_consistent:
  assumes "lst w = lst empty_world" and "list_all lst_signed calls"
    and "w' = run_txs lst_exec calls w"
  shows "(\<forall>a. a \<noteq> 0 \<longrightarrow> LiquidStakingToken_BalanceOf a w' =
            Inr (int (card {t. LiquidStakingToken_OwnerOf t w' = Inr a}))) \<and>
         (\<forall>t. infoMap (lst w') t \<noteq> None \<longleftrightarrow> 1 \<le> t \<and> t < next_token w') \<and>
         (\<forall>t. LiquidStakingToken_GetApproved t w' \<noteq> 0 \<longrightarrow>
            LiquidStakingToken_OwnerOf t w' = Inr (LiquidStakingToken_ownerOf t w'))"
proof -
  have inv: "lst_inv w'"
    using lst_machine.run_txs_inv [OF lst_inv_empty [OF assms(1)] assms(2)] assms(3) by simp
  have "infoMap (lst w') t \<noteq> None \<longleftrightarrow> 1 \<le> t \<and> t < next_token w'" for t
    using inv by (auto simp: lst_inv_def issued_inv_def domIff set_eq_iff)
  moreover have "LiquidStakingToken_OwnerOf t w' = Inr (LiquidStakingToken_ownerOf t w')"
    if "LiquidStakingToken_GetApproved t w' \<noteq> 0" for t
    using inv that by (auto simp: lst_inv_def LiquidStakingToken_OwnerOf_Inr dest: ownership_invD(3))
  ultimately show ?thesis using LiquidStakingToken_BalanceOf_card [OF inv] by blast
qed

definition user :: "address \<Rightarrow> vm_ctx" where
  "user a = \<lparr>ctx_From = a, ctx_Value = None, ctx_CallFromSystem = False, ctx_Time = 0,
             ctx_BlockNumber = 1\<rparr>"

definition lst_example_calls :: "lst_call list" where
  "lst_example_calls =
     [CallMint 7 (lst_info_zero\<lparr>PoolID := 1, Principal := 100\<rparr>),
      CallApprove (user 7) 8 1, CallMint 9 (lst_info_zero\<lparr>PoolID := 2\<rparr>)]"

definition lst_example :: world where
  "lst_example = run_txs lst_exec lst_example_calls empty_world"

lemma lst_example_signed: "list_all lst_signed lst_example_calls"
  by (simp add: lst_example_calls_def lst_signed_def user_def)

lemma lst_example_inv: "lst_inv lst_example"
  unfolding lst_example_def
  by (rule lst_machine.run_txs_inv [OF lst_inv_empty [OF refl] lst_example_signed])

lemmas lst_eval = LiquidStakingToken_Mint_def LiquidStakingToken_updateOwnership_def
  LiquidStakingToken_Approve_def LiquidStakingToken_approve_def LiquidStakingToken_requireOwned_def
  LiquidStakingToken_ownerOf_def LiquidStakingToken_IsApprovedForAll_def IsZeroAddress_def
  LiquidStakingToken_checkAuthorized_def LiquidStakingToken_isAuthorized_def
  LiquidStakingToken_GetApproved_def LiquidStakingToken_OwnerOf_def Let_def

lemma lst_example_owners:
  "LiquidStakingToken_ownerOf 1 lst_example = 7" "LiquidStakingToken_ownerOf 2 lst_example = 9"
  "LiquidStakingToken_GetApproved 1 lst_example = 8"
  by (simp_all add: lst_example_def lst_example_calls_def apply_tx_def lst_eval user_def)

theorem lst_calls_consistent_witness:
  "LiquidStakingToken_BalanceOf 7 lst_example =
     Inr (int (card {t. LiquidStakingToken_OwnerOf t lst_example = Inr 7})) \<and>
   LiquidStakingToken_OwnerOf 1 lst_example = Inr 7"
  using lst_calls_consistent [OF refl lst_example_signed refl, folded lst_example_def]
    lst_example_owners by simp

text \<open>
  C7: \<open>TransferFrom\<close> is authorised and exact. In a consistent ledger a call by a signed sender
  succeeds if and only if the receiver is not the zero address, the stated owner is the
  owner, and the sender is the owner, an operator of the owner, or the approved spender; when
  it succeeds the receiver owns the token, its approval is cleared, no other token changes
  owner or approval, no record changes, and the two balances move by one.
\<close>

theorem transferFrom_correct:
  assumes inv: "lst_inv w" and sender: "ctx_From ctx \<noteq> 0"
  shows "((\<exists>w'. LiquidStakingToken_TransferFrom ctx a b t w = Inr w') \<longleftrightarrow>
            b \<noteq> 0 \<and> LiquidStakingToken_OwnerOf t w = Inr a \<and>
            (ctx_From ctx = a \<or> LiquidStakingToken_IsApprovedForAll a (ctx_From ctx) w \<or>
             LiquidStakingToken_GetApproved t w = ctx_From ctx)) \<and>
         (\<forall>w'. LiquidStakingToken_TransferFrom ctx a b t w = Inr w' \<longrightarrow>
            LiquidStakingToken_OwnerOf t w' = Inr b \<and> LiquidStakingToken_GetApproved t w' = 0 \<and>
            (\<forall>u. u \<noteq> t \<longrightarrow> LiquidStakingToken_OwnerOf u w' = LiquidStakingToken_OwnerOf u w \<and>
               LiquidStakingToken_GetApproved u w' = LiquidStakingToken_GetApproved u w) \<and>
            infoMap (lst w') = infoMap (lst w) \<and>
            (\<forall>c. c \<noteq> 0 \<longrightarrow> token_balance c w' =
               token_balance c w - (if c = a then 1 else 0) + (if c = b then 1 else 0)))"
    (is "?succeeds \<and> ?moves")
proof
  let ?auth = "LiquidStakingToken_isAuthorized (LiquidStakingToken_ownerOf t w) (ctx_From ctx) t w"
  have own: "ownership_inv w" using inv by (simp add: lst_inv_def)
  have owned: "LiquidStakingToken_ownerOf t w \<noteq> 0" if ?auth
    using that unauthorized_unowned [OF own, of t] by auto
  have "LiquidStakingToken_TransferFrom ctx a b t w = Inr w' \<Longrightarrow>
      b \<noteq> 0 \<and> LiquidStakingToken_ownerOf t w = a \<and> ?auth" for w'
    using sender
    by (auto elim!: LiquidStakingToken_TransferFromE dest: updateOwnership_Inr(1,2))
  moreover have "\<exists>w'. LiquidStakingToken_TransferFrom ctx a b t w = Inr w'"
    if "b \<noteq> 0" "LiquidStakingToken_ownerOf t w = a" ?auth
    using that updateOwnership_total [of "ctx_From ctx" t w b]
    by (auto simp: LiquidStakingToken_TransferFrom_def IsZeroAddress_def)
  ultimately have "(\<exists>w'. LiquidStakingToken_TransferFrom ctx a b t w = Inr w') \<longleftrightarrow>
      b \<noteq> 0 \<and> LiquidStakingToken_ownerOf t w = a \<and> ?auth" by blast
  then show ?succeeds
    using owned sender
    by (auto simp: LiquidStakingToken_OwnerOf_Inr LiquidStakingToken_isAuthorized_def IsZeroAddress_def)
  show ?moves
  proof (intro allI impI)
    fix w' assume "LiquidStakingToken_TransferFrom ctx a b t w = Inr w'"
    then have b: "b \<noteq> 0"
      and moved: "LiquidStakingToken_updateOwnership b t (ctx_From ctx) w = Inr (a, w')"
      by (auto elim: LiquidStakingToken_TransferFromE)
    note upd = updateOwnership_Inr [OF moved]
    have a: "a \<noteq> 0" using owned upd(1,2) sender by auto
    have "token_balance c w' =
        token_balance c w - (if c = a then 1 else 0) + (if c = b then 1 else 0)" if "c \<noteq> 0" for c
      using updateOwnership_balance [OF moved _ that] owner_has_balance [OF own] upd(1) a by auto
    then show "LiquidStakingToken_OwnerOf t w' = Inr b \<and> LiquidStakingToken_GetApproved t w' = 0 \<and>
        (\<forall>u. u \<noteq> t \<longrightarrow> LiquidStakingToken_OwnerOf u w' = LiquidStakingToken_OwnerOf u w \<and>
           LiquidStakingToken_GetApproved u w' = LiquidStakingToken_GetApproved u w) \<and>
        infoMap (lst w') = infoMap (lst w) \<and>
        (\<forall>c. c \<noteq> 0 \<longrightarrow> token_balance c w' =
           token_balance c w - (if c = a then 1 else 0) + (if c = b then 1 else 0))"
      using upd(3,4,7) a b
      by (simp add: LiquidStakingToken_OwnerOf_def LiquidStakingToken_ownerOf_def Let_def
          LiquidStakingToken_GetApproved_def IsZeroAddress_def)
  qed
qed

theorem transferFrom_correct_witness:
  "(\<exists>w'. LiquidStakingToken_TransferFrom (user 8) 7 9 1 lst_example = Inr w') \<and>
   \<not> (\<exists>w'. LiquidStakingToken_TransferFrom (user 8) 9 7 2 lst_example = Inr w')"
  using transferFrom_correct [OF lst_example_inv, of "user 8" 7 9 1]
    transferFrom_correct [OF lst_example_inv, of "user 8" 9 7 2] lst_example_owners
  by (simp add: user_def LiquidStakingToken_OwnerOf_Inr lst_example_def lst_example_calls_def
      apply_tx_def lst_eval)

text \<open>
  C26: Unlocking records are conserved. Refreshing a token's records at a block time moves into
  \<open>Unlocked\<close> exactly the amounts that are due and keeps exactly the records that are not, so no
  coin is lost or counted twice; and refreshing in between, at an earlier or a later time,
  does not change what a later refresh gives.
\<close>

theorem unlocking_records_conserved:
  "let now = updateLiquidStakingTokenUnlockingRecords in
     Unlocked (now ts info) + sum_list (map Amount (UnlockingRecords (now ts info))) =
       Unlocked info + sum_list (map Amount (UnlockingRecords info)) \<and>
     UnlockingRecords (now ts info) =
       filter (\<lambda>r. ts < UnlockTimestamp r) (UnlockingRecords info) \<and>
     Unlocked (now ts info) = Unlocked info +
       sum_list (map Amount (filter (\<lambda>r. UnlockTimestamp r \<le> ts) (UnlockingRecords info))) \<and>
     now (max ts ts') (now ts info) = now (max ts ts') info"
proof -
  let ?now = updateLiquidStakingTokenUnlockingRecords
  have "?now (max ts ts') (?now ts info) = ?now (max ts ts') info"
    unfolding updateLiquidStakingTokenUnlockingRecords_eq
    using sum_list_filter_refine [of "\<lambda>r. UnlockTimestamp r \<le> ts" "\<lambda>r. UnlockTimestamp r \<le> max ts ts'"
        Amount "UnlockingRecords info"]
    by (auto simp: le_max_iff_disj intro: filter_cong)
  then show ?thesis
    using sum_list_filter_split [of Amount "\<lambda>r. UnlockTimestamp r \<le> ts" "UnlockingRecords info"]
    by (auto simp: updateLiquidStakingTokenUnlockingRecords_eq not_le)
qed

end
