(* ===== verification/Node_Registry.thy ===== *)
theory Node_Registry
  imports Chain_State
begin

text \<open>
  The node contract (\<open>src/internal/executor/system/framework/node_manager.go\<close>), the part that
  calls no other contract: registration, the indices by name, p2p id and consensus key, the
  id sets by status, metadata and operator updates and the queries. The status machine and
  the election of validators are in \<open>Node_Manager.thy\<close>.
\<close>

section \<open>Slots\<close>

text \<open>\<open>statusIDs\<close> is \<open>getStatusSet(status).Get()\<close> with the empty list when the slot is not set.\<close>

definition statusIDs :: "node_status \<Rightarrow> world \<Rightarrow> u64 list" where
  "statusIDs st w = (case statusSets (nodes w) st of None \<Rightarrow> [] | Some ids \<Rightarrow> ids)"

definition putStatusIDs :: "node_status \<Rightarrow> u64 list \<Rightarrow> world \<Rightarrow> world" where
  "putStatusIDs st ids w = w\<lparr>nodes := (nodes w)\<lparr>statusSets := (statusSets (nodes w))(st := Some ids)\<rparr>\<rparr>"

definition putNodeInfo :: "u64 \<Rightarrow> node_info \<Rightarrow> world \<Rightarrow> world" where
  "putNodeInfo nodeID info w =
     w\<lparr>nodes := (nodes w)\<lparr>nodeRegistry := (nodeRegistry (nodes w))(nodeID \<mapsto> info)\<rparr>\<rparr>"

section \<open>Checks\<close>

definition maxMetaDataLength :: nat where
  "maxMetaDataLength = 256"

text \<open>
  \<open>hexNorm\<close> is \<open>hexutil.Encode \<circ> hexutil.Decode\<close> of axiom-kit; \<open>consensusKeyOk\<close> and \<open>p2pIDOf\<close>
  stand for the BLS and ed25519 key parsers and libp2p's peer id.
\<close>

definition StandardizationNodeInfo :: "(string \<Rightarrow> string) \<Rightarrow> node_info \<Rightarrow> node_info" where
  "StandardizationNodeInfo hexNorm info =
     \<lparr>node_ID = node_ID info, ConsensusPubKey = hexNorm (ConsensusPubKey info),
      P2PPubKey = hexNorm (P2PPubKey info), P2PID = P2PID info, Operator = Operator info,
      MetaData = \<lparr>Name = Name (MetaData info), Desc = Desc (MetaData info),
                  ImageURL = ImageURL (MetaData info), WebsiteURL = WebsiteURL (MetaData info)\<rparr>,
      Status = Status info\<rparr>"

definition CheckNodeInfo :: "(string \<Rightarrow> bool) \<Rightarrow> (string \<Rightarrow> string option) \<Rightarrow> node_info \<Rightarrow> string res" where
  "CheckNodeInfo consensusKeyOk p2pIDOf nodeInfo =
     (if maxMetaDataLength < length (Name (MetaData nodeInfo)) then Inl (GenesisErr FieldTooLong)
      else if maxMetaDataLength < length (Desc (MetaData nodeInfo)) then Inl (GenesisErr FieldTooLong)
      else if maxMetaDataLength < length (ImageURL (MetaData nodeInfo)) then Inl (GenesisErr FieldTooLong)
      else if maxMetaDataLength < length (WebsiteURL (MetaData nodeInfo)) then Inl (GenesisErr FieldTooLong)
      else if Name (MetaData nodeInfo) = '''' then Inl (GenesisErr EmptyName)
      else if \<not> consensusKeyOk (ConsensusPubKey nodeInfo) then Inl (GenesisErr InvalidPubKey)
      else must (GenesisErr InvalidPubKey) (p2pIDOf (P2PPubKey nodeInfo)))"

section \<open>Registration\<close>

definition indexNode :: "node_info \<Rightarrow> world \<Rightarrow> world" where
  "indexNode info w = w\<lparr>nodes := (nodes w)
     \<lparr>nodeRegistry := (nodeRegistry (nodes w))(node_ID info \<mapsto> info),
      nodeP2PIDIndex := (nodeP2PIDIndex (nodes w))(P2PID info \<mapsto> node_ID info),
      nodeConsensusPubKeyIndex := (nodeConsensusPubKeyIndex (nodes w))(ConsensusPubKey info \<mapsto> node_ID info),
      nodeNameIndex := (nodeNameIndex (nodes w))(Name (MetaData info) \<mapsto> node_ID info)\<rparr>\<rparr>"

definition NodeManager_register ::
  "(string \<Rightarrow> string) \<Rightarrow> node_info \<Rightarrow> bool \<Rightarrow> world \<Rightarrow> (u64 \<times> world) res" where
  "NodeManager_register hexNorm info isGenesisInit w =
     (let info = StandardizationNodeInfo hexNorm info in
      if nodeP2PIDIndex (nodes w) (P2PID info) \<noteq> None then Inl (NodeErr P2PIDInUse)
      else if nodeConsensusPubKeyIndex (nodes w) (ConsensusPubKey info) \<noteq> None
      then Inl (NodeErr ConsensusPubKeyInUse)
      else if nodeNameIndex (nodes w) (Name (MetaData info)) \<noteq> None then Inl (NodeErr NameInUse)
      else
        let (info, w1) =
          (if \<not> isGenesisInit then
             let newID = (case nextNodeID (nodes w) of None \<Rightarrow> 1 | Some n \<Rightarrow> n);
                 info = info\<lparr>node_ID := newID, Status := DataSyncer\<rparr>;
                 w1 = w\<lparr>nodes := (nodes w)\<lparr>nextNodeID := Some (newID + 1)\<rparr>\<rparr>
             in (info, putStatusIDs DataSyncer (statusIDs DataSyncer w1 @ [newID]) w1)
           else (info, w))
        in Inr (node_ID info, indexNode info w1))"

definition NodeManager_Register ::
  "(string \<Rightarrow> string) \<Rightarrow> node_info \<Rightarrow> world \<Rightarrow> (u64 \<times> world) res" where
  "NodeManager_Register hexNorm info w =
     (let info = info\<lparr>Status := DataSyncer\<rparr> in
      ebind (NodeManager_register hexNorm info False w) (\<lambda>(nodeID, w1).
      Inr (nodeID, EmitEvent (EventRegister nodeID (info\<lparr>node_ID := nodeID\<rparr>)) w1)))"

section \<open>Queries\<close>

definition NodeManager_GetInfo :: "u64 \<Rightarrow> world \<Rightarrow> node_info res" where
  "NodeManager_GetInfo nodeID w = must (NodeErr ErrNodeNotFound) (nodeRegistry (nodes w) nodeID)"

definition NodeManager_GetInfoByConsensusPubKey :: "string \<Rightarrow> world \<Rightarrow> node_info res" where
  "NodeManager_GetInfoByConsensusPubKey key w =
     ebind (must (NodeErr ErrNodeNotFound) (nodeConsensusPubKeyIndex (nodes w) key)) (\<lambda>nodeID.
     NodeManager_GetInfo nodeID w)"

definition NodeManager_GetNodeIDByP2PID :: "string \<Rightarrow> world \<Rightarrow> u64 res" where
  "NodeManager_GetNodeIDByP2PID p2pID w = must (NodeErr ErrNodeNotFound) (nodeP2PIDIndex (nodes w) p2pID)"

definition NodeManager_ExistNodeByP2PID :: "string \<Rightarrow> world \<Rightarrow> bool" where
  "NodeManager_ExistNodeByP2PID p2pID w \<longleftrightarrow> nodeP2PIDIndex (nodes w) p2pID \<noteq> None"

definition NodeManager_ExistNodeByConsensusPubKey :: "(string \<Rightarrow> string) \<Rightarrow> string \<Rightarrow> world \<Rightarrow> bool" where
  "NodeManager_ExistNodeByConsensusPubKey hexNorm key w \<longleftrightarrow>
     nodeConsensusPubKeyIndex (nodes w) (hexNorm key) \<noteq> None"

definition NodeManager_ExistNodeByName :: "string \<Rightarrow> world \<Rightarrow> bool" where
  "NodeManager_ExistNodeByName name w \<longleftrightarrow> nodeNameIndex (nodes w) name \<noteq> None"

definition NodeManager_GetTotalCount :: "world \<Rightarrow> u64" where
  "NodeManager_GetTotalCount w = (case nextNodeID (nodes w) of None \<Rightarrow> 0 | Some n \<Rightarrow> n) - 1"

definition NodeManager_GetInfos :: "u64 list \<Rightarrow> world \<Rightarrow> node_info list res" where
  "NodeManager_GetInfos nodeIDs w = emap (\<lambda>nodeID. NodeManager_GetInfo nodeID w) nodeIDs"

definition NodeManager_GetActiveValidatorSet :: "world \<Rightarrow> (node_info list \<times> voting_power list) res" where
  "NodeManager_GetActiveValidatorSet w =
     (case activeValidatorVotingPowers (nodes w) of
        None \<Rightarrow> Inr ([], [])
      | Some powers \<Rightarrow>
          ebind (emap (\<lambda>p. NodeManager_GetInfo (NodeID p) w) powers) (\<lambda>infos.
          Inr (infos, map (\<lambda>p. \<lparr>NodeID = NodeID p, ConsensusVotingPower = ConsensusVotingPower p\<rparr>) powers)))"

definition NodeManager_GetActiveValidatorVotingPowers :: "world \<Rightarrow> voting_power list res" where
  "NodeManager_GetActiveValidatorVotingPowers w = must NotExist (activeValidatorVotingPowers (nodes w))"

definition NodeManager_GetActiveValidatorIDSet :: "world \<Rightarrow> u64 list" where
  "NodeManager_GetActiveValidatorIDSet w =
     (case activeValidatorVotingPowers (nodes w) of None \<Rightarrow> [] | Some powers \<Rightarrow> map NodeID powers)"

definition NodeManager_GetCandidateIDSet :: "world \<Rightarrow> u64 list" where
  "NodeManager_GetCandidateIDSet w = statusIDs Candidate w"

definition NodeManager_GetDataSyncerIDSet :: "world \<Rightarrow> u64 list" where
  "NodeManager_GetDataSyncerIDSet w = statusIDs DataSyncer w"

definition NodeManager_GetExitedIDSet :: "world \<Rightarrow> u64 list" where
  "NodeManager_GetExitedIDSet w = statusIDs Exited w"

definition NodeManager_GetPendingInactiveIDSet :: "world \<Rightarrow> u64 list" where
  "NodeManager_GetPendingInactiveIDSet w = statusIDs PendingInactive w"

definition NodeManager_GetDataSyncerSet :: "world \<Rightarrow> node_info list res" where
  "NodeManager_GetDataSyncerSet w = NodeManager_GetInfos (NodeManager_GetDataSyncerIDSet w) w"

definition NodeManager_GetCandidateSet :: "world \<Rightarrow> node_info list res" where
  "NodeManager_GetCandidateSet w = NodeManager_GetInfos (NodeManager_GetCandidateIDSet w) w"

definition NodeManager_GetPendingInactiveSet :: "world \<Rightarrow> node_info list res" where
  "NodeManager_GetPendingInactiveSet w = NodeManager_GetInfos (NodeManager_GetPendingInactiveIDSet w) w"

definition NodeManager_GetExitedSet :: "world \<Rightarrow> node_info list res" where
  "NodeManager_GetExitedSet w = NodeManager_GetInfos (NodeManager_GetExitedIDSet w) w"

section \<open>Permission, metadata, operator\<close>

definition NodeManager_checkPermission :: "vm_ctx \<Rightarrow> u64 \<Rightarrow> world \<Rightarrow> node_info res" where
  "NodeManager_checkPermission ctx nodeID w =
     ebind (NodeManager_GetInfo nodeID w) (\<lambda>nodeInfo.
     if \<not> ctx_CallFromSystem ctx \<and> ctx_From ctx \<noteq> Operator nodeInfo then Inl NoPermission
     else Inr nodeInfo)"

definition NodeManager_UpdateMetaData ::
  "vm_ctx \<Rightarrow> u64 \<Rightarrow> string \<Rightarrow> string \<Rightarrow> string \<Rightarrow> string \<Rightarrow> world \<Rightarrow> world res" where
  "NodeManager_UpdateMetaData ctx nodeID name desc imageURL websiteURL w =
     (let metaData = \<lparr>Name = name, Desc = desc, ImageURL = imageURL, WebsiteURL = websiteURL\<rparr> in
      ebind (NodeManager_checkPermission ctx nodeID w) (\<lambda>nodeInfo.
      let oldName = Name (MetaData nodeInfo) in
      if Name metaData = '''' then Inl (NodeErr NameEmpty)
      else if nodeNameIndex (nodes w) (Name metaData) \<noteq> None \<and> Name metaData \<noteq> oldName
      then Inl (NodeErr NameInUse)
      else
        let nodeInfo = nodeInfo\<lparr>MetaData := metaData\<rparr>;
            w1 = putNodeInfo nodeID nodeInfo w;
            w2 = (if Name metaData \<noteq> oldName
                  then w1\<lparr>nodes := (nodes w1)\<lparr>nodeNameIndex :=
                         ((nodeNameIndex (nodes w1))(oldName := None))(Name (MetaData nodeInfo) \<mapsto> nodeID)\<rparr>\<rparr>
                  else w1)
        in Inr (EmitEvent (EventUpdateMetaData nodeID metaData) w2)))"

definition NodeManager_UpdateOperator :: "vm_ctx \<Rightarrow> u64 \<Rightarrow> address \<Rightarrow> world \<Rightarrow> world res" where
  "NodeManager_UpdateOperator ctx nodeID newOperator w =
     ebind (NodeManager_checkPermission ctx nodeID w) (\<lambda>nodeInfo.
     if IsZeroAddress newOperator then Inl (NodeErr ZeroOperator)
     else Inr (EmitEvent (EventUpdateOperator nodeID newOperator)
            (putNodeInfo nodeID (nodeInfo\<lparr>Operator := newOperator\<rparr>) w)))"

section \<open>Moving a node between status sets\<close>

text \<open>The part of \<open>operatorTransferStatus\<close> that touches only this contract.\<close>

definition NodeManager_moveStatus :: "node_status \<Rightarrow> node_status \<Rightarrow> node_info \<Rightarrow> world \<Rightarrow> world res" where
  "NodeManager_moveStatus from to nodeInfo w =
     (if from = to then Inl (NodeErr SameStatus)
      else if Status nodeInfo \<noteq> from then Inl (NodeErr (IncorrectStatus (status_u8 from)))
      else
        let nodeInfo = nodeInfo\<lparr>Status := to\<rparr>;
            w1 = putNodeInfo (node_ID nodeInfo) nodeInfo w
        in ebind (must NotExist (statusSets (nodes w1) from)) (\<lambda>fromSets.
           if node_ID nodeInfo \<notin> set fromSets then Inl (NodeErr ErrNodeNotFoundInStatusSet)
           else
             let w2 = putStatusIDs from (removeFirst (node_ID nodeInfo) fromSets) w1 in
             Inr (putStatusIDs to (statusIDs to w2 @ [node_ID nodeInfo]) w2)))"

section \<open>The registry invariant\<close>

definition next_node :: "world \<Rightarrow> u64" where
  "next_node w = (case nextNodeID (nodes w) of None \<Rightarrow> 1 | Some n \<Rightarrow> n)"

definition node_name :: "node_info \<Rightarrow> string" where
  "node_name info = Name (MetaData info)"

text \<open>Every record is filed under its own id below the next id, and the three indices are exact.\<close>

definition node_index_inv :: "world \<Rightarrow> bool" where
  "node_index_inv w \<longleftrightarrow>
     (\<forall>k info. nodeRegistry (nodes w) k = Some info \<longrightarrow> node_ID info = k \<and> k < next_node w) \<and>
     indexes (nodeNameIndex (nodes w)) node_name (nodeRegistry (nodes w)) \<and>
     indexes (nodeP2PIDIndex (nodes w)) P2PID (nodeRegistry (nodes w)) \<and>
     indexes (nodeConsensusPubKeyIndex (nodes w)) ConsensusPubKey (nodeRegistry (nodes w))"

text \<open>The id set of a status lists, once each, the nodes whose record has that status.\<close>

definition node_status_inv :: "world \<Rightarrow> bool" where
  "node_status_inv w \<longleftrightarrow>
     (\<forall>st. distinct (statusIDs st w) \<and>
        (\<forall>k. k \<in> set (statusIDs st w) \<longleftrightarrow>
           (\<exists>info. nodeRegistry (nodes w) k = Some info \<and> Status info = st)))"

text \<open>
  The validators of the running epoch, those with a voting power, are the active nodes and the
  ones that left the active set since the epoch began.
\<close>

definition voting_inv :: "world \<Rightarrow> bool" where
  "voting_inv w \<longleftrightarrow>
     distinct (NodeManager_GetActiveValidatorIDSet w) \<and>
     set (NodeManager_GetActiveValidatorIDSet w) =
       set (statusIDs Active w) \<union> set (statusIDs PendingInactive w)"

definition node_inv :: "world \<Rightarrow> bool" where
  "node_inv w \<longleftrightarrow> node_index_inv w \<and> node_status_inv w \<and> voting_inv w"

lemma node_inv_cong: "nodes w = nodes w' \<Longrightarrow> node_inv w = node_inv w'"
  by (simp add: node_inv_def node_index_inv_def node_status_inv_def voting_inv_def next_node_def
      statusIDs_def NodeManager_GetActiveValidatorIDSet_def)

lemma statusIDs_cong: "statusSets (nodes w) = statusSets (nodes w') \<Longrightarrow> statusIDs st w = statusIDs st w'"
  by (simp add: statusIDs_def)

lemma node_slots [simp]:
  "nodeRegistry (nodes (putNodeInfo k info w)) = (nodeRegistry (nodes w))(k \<mapsto> info)"
  "statusSets (nodes (putNodeInfo k info w)) = statusSets (nodes w)"
  "nextNodeID (nodes (putNodeInfo k info w)) = nextNodeID (nodes w)"
  "nodeNameIndex (nodes (putNodeInfo k info w)) = nodeNameIndex (nodes w)"
  "nodeP2PIDIndex (nodes (putNodeInfo k info w)) = nodeP2PIDIndex (nodes w)"
  "nodeConsensusPubKeyIndex (nodes (putNodeInfo k info w)) = nodeConsensusPubKeyIndex (nodes w)"
  "activeValidatorVotingPowers (nodes (putNodeInfo k info w)) = activeValidatorVotingPowers (nodes w)"
  "nodeRegistry (nodes (putStatusIDs st ids w)) = nodeRegistry (nodes w)"
  "statusSets (nodes (putStatusIDs st ids w)) = (statusSets (nodes w))(st := Some ids)"
  "nextNodeID (nodes (putStatusIDs st ids w)) = nextNodeID (nodes w)"
  "nodeNameIndex (nodes (putStatusIDs st ids w)) = nodeNameIndex (nodes w)"
  "nodeP2PIDIndex (nodes (putStatusIDs st ids w)) = nodeP2PIDIndex (nodes w)"
  "nodeConsensusPubKeyIndex (nodes (putStatusIDs st ids w)) = nodeConsensusPubKeyIndex (nodes w)"
  "activeValidatorVotingPowers (nodes (putStatusIDs st ids w)) = activeValidatorVotingPowers (nodes w)"
  by (simp_all add: putNodeInfo_def putStatusIDs_def)

lemma node_frame [simp, frame_simps]:
  "balances (putNodeInfo k info w) = balances w" "axc (putNodeInfo k info w) = axc w"
  "epochs (putNodeInfo k info w) = epochs w" "lst (putNodeInfo k info w) = lst w"
  "staking (putNodeInfo k info w) = staking w" "logs (putNodeInfo k info w) = logs w"
  "balances (putStatusIDs st ids w) = balances w" "axc (putStatusIDs st ids w) = axc w"
  "epochs (putStatusIDs st ids w) = epochs w" "lst (putStatusIDs st ids w) = lst w"
  "staking (putStatusIDs st ids w) = staking w" "logs (putStatusIDs st ids w) = logs w"
  by (simp_all add: putNodeInfo_def putStatusIDs_def)

lemma statusIDs_put [simp]:
  "statusIDs st (putStatusIDs st' ids w) = (if st = st' then ids else statusIDs st w)"
  "statusIDs st (putNodeInfo k info w) = statusIDs st w"
  by (simp_all add: statusIDs_def)

lemma NodeManager_GetInfo_Inr [simp]:
  "NodeManager_GetInfo k w = Inr info \<longleftrightarrow> nodeRegistry (nodes w) k = Some info"
  by (simp add: NodeManager_GetInfo_def)

lemma NodeManager_checkPermission_Inr:
  "NodeManager_checkPermission ctx k w = Inr info \<longleftrightarrow>
     nodeRegistry (nodes w) k = Some info \<and> (ctx_CallFromSystem ctx \<or> ctx_From ctx = Operator info)"
  by (auto simp: NodeManager_checkPermission_def ebind_Inr_iff)

lemma node_index_invD:
  assumes "node_index_inv w"
  shows "nodeRegistry (nodes w) k = Some info \<Longrightarrow> node_ID info = k"
    "nodeRegistry (nodes w) k = Some info \<Longrightarrow> k < next_node w"
    "indexes (nodeNameIndex (nodes w)) node_name (nodeRegistry (nodes w))"
    "indexes (nodeP2PIDIndex (nodes w)) P2PID (nodeRegistry (nodes w))"
    "indexes (nodeConsensusPubKeyIndex (nodes w)) ConsensusPubKey (nodeRegistry (nodes w))"
  using assms by (auto simp: node_index_inv_def)

lemma node_status_invD:
  assumes "node_status_inv w"
  shows "distinct (statusIDs st w)"
    "k \<in> set (statusIDs st w) \<longleftrightarrow> (\<exists>info. nodeRegistry (nodes w) k = Some info \<and> Status info = st)"
  using assms by (auto simp: node_status_inv_def)

text \<open>Rewriting a record without touching its id, name, keys keeps the indices.\<close>

lemma putNodeInfo_index:
  assumes "node_index_inv w" and "nodeRegistry (nodes w) k = Some old" and "node_ID new = node_ID old"
    and "node_name new = node_name old" "P2PID new = P2PID old" "ConsensusPubKey new = ConsensusPubKey old"
  shows "node_index_inv (putNodeInfo k new w)"
  using assms node_index_invD [OF assms(1)]
  by (auto simp: node_index_inv_def next_node_def intro!: indexes_update)

lemma putNodeInfo_same_status:
  assumes "node_status_inv w" and "nodeRegistry (nodes w) k = Some old" and "Status new = Status old"
  shows "node_status_inv (putNodeInfo k new w)"
  using assms by (fastforce simp: node_status_inv_def)

lemma voting_inv_cong:
  assumes "statusSets (nodes w) = statusSets (nodes w')"
    and "activeValidatorVotingPowers (nodes w) = activeValidatorVotingPowers (nodes w')"
  shows "voting_inv w = voting_inv w'"
  using assms by (simp add: voting_inv_def statusIDs_def NodeManager_GetActiveValidatorIDSet_def)

section \<open>Each operation keeps the invariant\<close>

lemma statusIDs_upd [simp]:
  "statusIDs st (w\<lparr>nodes := (nodes w)\<lparr>nextNodeID := n\<rparr>\<rparr>) = statusIDs st w"
  "statusIDs st (indexNode info w) = statusIDs st w"
  "statusIDs st (EmitEvent e w) = statusIDs st w"
  by (simp_all add: statusIDs_def indexNode_def)

lemma indexNode_fields [simp]:
  "nodeRegistry (nodes (indexNode info w)) = (nodeRegistry (nodes w))(node_ID info \<mapsto> info)"
  "nodeP2PIDIndex (nodes (indexNode info w)) = (nodeP2PIDIndex (nodes w))(P2PID info \<mapsto> node_ID info)"
  "nodeConsensusPubKeyIndex (nodes (indexNode info w)) =
     (nodeConsensusPubKeyIndex (nodes w))(ConsensusPubKey info \<mapsto> node_ID info)"
  "nodeNameIndex (nodes (indexNode info w)) = (nodeNameIndex (nodes w))(node_name info \<mapsto> node_ID info)"
  "nextNodeID (nodes (indexNode info w)) = nextNodeID (nodes w)"
  "statusSets (nodes (indexNode info w)) = statusSets (nodes w)"
  "activeValidatorVotingPowers (nodes (indexNode info w)) = activeValidatorVotingPowers (nodes w)"
  by (simp_all add: indexNode_def node_name_def)

lemma indexNode_frame [simp, frame_simps]:
  "balances (indexNode info w) = balances w" "axc (indexNode info w) = axc w"
  "epochs (indexNode info w) = epochs w" "lst (indexNode info w) = lst w"
  "staking (indexNode info w) = staking w" "logs (indexNode info w) = logs w"
  by (simp_all add: indexNode_def)

text \<open>The three uniqueness checks of \<open>register\<close> are exactly what filing the node needs.\<close>

lemma indexNode_index:
  assumes "node_index_inv w" and "nodeRegistry (nodes w) (node_ID info) = None"
    and "node_ID info < next_node w" and "nodeNameIndex (nodes w) (node_name info) = None"
    and "nodeP2PIDIndex (nodes w) (P2PID info) = None"
    and "nodeConsensusPubKeyIndex (nodes w) (ConsensusPubKey info) = None"
  shows "node_index_inv (indexNode info w)"
  using assms node_index_invD [OF assms(1)]
  by (auto simp: node_index_inv_def next_node_def intro!: indexes_insert)

lemma NodeManager_register_user:
  assumes "NodeManager_register hexNorm info False w = Inr (k, w')"
  defines "std \<equiv> (StandardizationNodeInfo hexNorm info)\<lparr>node_ID := next_node w, Status := DataSyncer\<rparr>"
  shows "k = next_node w"
    and "w' = indexNode std (putStatusIDs DataSyncer (statusIDs DataSyncer w @ [k])
               (w\<lparr>nodes := (nodes w)\<lparr>nextNodeID := Some (k + 1)\<rparr>\<rparr>))"
    and "nodeNameIndex (nodes w) (node_name std) = None" "nodeP2PIDIndex (nodes w) (P2PID std) = None"
      "nodeConsensusPubKeyIndex (nodes w) (ConsensusPubKey std) = None"
  using assms(1)
  by (auto simp: NodeManager_register_def Let_def std_def node_name_def
      simp flip: next_node_def split: if_splits)

lemma NodeManager_register_user_inv:
  assumes inv: "node_inv w" and ok: "NodeManager_register hexNorm info False w = Inr (k, w')"
    and room: "next_node w \<noteq> - 1"
  shows "node_inv w'"
proof -
  let ?std = "(StandardizationNodeInfo hexNorm info)\<lparr>node_ID := next_node w, Status := DataSyncer\<rparr>"
  let ?w = "putStatusIDs DataSyncer (statusIDs DataSyncer w @ [k])
              (w\<lparr>nodes := (nodes w)\<lparr>nextNodeID := Some (k + 1)\<rparr>\<rparr>)"
  note reg = NodeManager_register_user [OF ok]
  from inv have idx: "node_index_inv w" and st: "node_status_inv w" and vot: "voting_inv w"
    by (simp_all add: node_inv_def)
  have fresh: "nodeRegistry (nodes w) k = None"
    using node_index_invD(2) [OF idx, of k] reg(1) by (cases "nodeRegistry (nodes w) k") auto
  have "next": "next_node ?w = k + 1" by (simp add: next_node_def)
  have less: "j < k + 1" if "j < k" for j using that room reg(1) u64_less_Suc_iff [of k j] by simp
  have "node_index_inv ?w"
    using idx less unfolding node_index_inv_def "next" using reg(1) by auto
  then have "node_index_inv w'"
    unfolding reg(2) using reg fresh room u64_less_Suc [of k]
    by (intro indexNode_index) (simp_all add: "next" [unfolded reg(1)])
  moreover have "node_status_inv w'"
    using node_status_invD [OF st] fresh reg(1)
    unfolding reg(2) node_status_inv_def by (auto split: if_splits)
  moreover have "voting_inv w'"
    using vot unfolding reg(2) by (simp add: voting_inv_def NodeManager_GetActiveValidatorIDSet_def)
  ultimately show ?thesis by (simp add: node_inv_def)
qed

lemma NodeManager_UpdateOperator_inv:
  assumes inv: "node_inv w" and ok: "NodeManager_UpdateOperator ctx k a w = Inr w'"
  shows "node_inv w'"
proof -
  from ok obtain info where info: "nodeRegistry (nodes w) k = Some info"
    and w': "w' = EmitEvent (EventUpdateOperator k a) (putNodeInfo k (info\<lparr>Operator := a\<rparr>) w)"
    by (auto simp: NodeManager_UpdateOperator_def ebind_Inr_iff NodeManager_checkPermission_Inr
        split: if_splits)
  have "node_inv (putNodeInfo k (info\<lparr>Operator := a\<rparr>) w)"
    using inv info putNodeInfo_index [OF _ info] putNodeInfo_same_status [OF _ info]
      voting_inv_cong [of "putNodeInfo k (info\<lparr>Operator := a\<rparr>) w" w]
    by (simp add: node_inv_def node_name_def)
  then show ?thesis unfolding w' by (subst node_inv_cong [OF frame_EmitEvent(5)])
qed

lemma NodeManager_UpdateMetaData_Inr:
  assumes "NodeManager_UpdateMetaData ctx k name desc img site w = Inr w'"
  obtains info w1 where "nodeRegistry (nodes w) k = Some info" and "name \<noteq> ''''"
    "ctx_CallFromSystem ctx \<or> ctx_From ctx = Operator info"
    "nodeNameIndex (nodes w) name = None \<or> name = node_name info"
    "w1 = putNodeInfo k (info\<lparr>MetaData := \<lparr>Name = name, Desc = desc, ImageURL = img, WebsiteURL = site\<rparr>\<rparr>) w"
    "nodes w' = (if name = node_name info then nodes w1
       else (nodes w1)\<lparr>nodeNameIndex := ((nodeNameIndex (nodes w))(node_name info := None))(name \<mapsto> k)\<rparr>)"
  using assms
  by (auto simp: NodeManager_UpdateMetaData_def ebind_Inr_iff NodeManager_checkPermission_Inr Let_def
      node_name_def split: if_splits)

lemma NodeManager_UpdateMetaData_inv:
  assumes inv: "node_inv w" and ok: "NodeManager_UpdateMetaData ctx k name desc img site w = Inr w'"
  shows "node_inv w'"
proof -
  let ?meta = "\<lparr>Name = name, Desc = desc, ImageURL = img, WebsiteURL = site\<rparr>"
  from ok obtain info w1 where info: "nodeRegistry (nodes w) k = Some info"
    and free: "nodeNameIndex (nodes w) name = None \<or> name = node_name info"
    and w1: "w1 = putNodeInfo k (info\<lparr>MetaData := ?meta\<rparr>) w"
    and w': "nodes w' = (if name = node_name info then nodes w1
       else (nodes w1)\<lparr>nodeNameIndex := ((nodeNameIndex (nodes w))(node_name info := None))(name \<mapsto> k)\<rparr>)"
    by (rule NodeManager_UpdateMetaData_Inr)
  from inv have idx: "node_index_inv w" and st: "node_status_inv w" and vot: "voting_inv w"
    by (simp_all add: node_inv_def)
  have "node_status_inv w1" using putNodeInfo_same_status [OF st info] w1 by simp
  then have "node_status_inv w'" by (auto simp: node_status_inv_def w' statusIDs_def)
  moreover have "voting_inv w'" using vot w1 by (subst voting_inv_cong [of _ w]) (auto simp: w')
  moreover have "node_index_inv w'"
  proof (cases "name = node_name info")
    case True
    then have "node_index_inv w1"
      using putNodeInfo_index [OF idx info] w1 by (simp add: node_name_def)
    then show ?thesis using w' True by (simp add: node_index_inv_def next_node_def)
  next
    case False
    have "indexes (nodeNameIndex (nodes w')) node_name (nodeRegistry (nodes w'))"
      using indexes_rename [OF node_index_invD(3) [OF idx] info, of "info\<lparr>MetaData := ?meta\<rparr>"]
        False free w' w1 by (simp add: node_name_def)
    then show ?thesis
      using False w' w1 info node_index_invD [OF idx]
      by (auto simp: node_index_inv_def next_node_def intro!: indexes_update)
  qed
  ultimately show ?thesis by (simp add: node_inv_def)
qed

lemma NodeManager_moveStatus_Inr:
  assumes "NodeManager_moveStatus from to info w = Inr w'"
  obtains ids where "from \<noteq> to" "Status info = from" "statusSets (nodes w) from = Some ids"
    "node_ID info \<in> set ids"
    "w' = putStatusIDs to (statusIDs to w @ [node_ID info])
       (putStatusIDs from (remove1 (node_ID info) ids) (putNodeInfo (node_ID info) (info\<lparr>Status := to\<rparr>) w))"
  using assms by (auto simp: NodeManager_moveStatus_def ebind_Inr_iff Let_def split: if_splits)

lemma NodeManager_moveStatus_ok:
  assumes "node_status_inv w" and "nodeRegistry (nodes w) k = Some info" and "node_ID info = k"
    and "Status info \<noteq> to"
  shows "\<exists>w'. NodeManager_moveStatus (Status info) to info w = Inr w'"
proof -
  have "k \<in> set (statusIDs (Status info) w)" using node_status_invD(2) [OF assms(1)] assms(2) by auto
  then obtain ids where "statusSets (nodes w) (Status info) = Some ids" "k \<in> set ids"
    by (cases "statusSets (nodes w) (Status info)") (auto simp: statusIDs_def)
  then show ?thesis
    using assms(3,4) by (simp add: NodeManager_moveStatus_def Let_def)
qed

lemma NodeManager_moveStatus_sets:
  assumes "NodeManager_moveStatus from to info w = Inr w'"
  shows "statusIDs st w' = (if st = to then statusIDs to w @ [node_ID info]
           else if st = from then remove1 (node_ID info) (statusIDs from w) else statusIDs st w)"
    and "nodeRegistry (nodes w') = (nodeRegistry (nodes w))(node_ID info \<mapsto> info\<lparr>Status := to\<rparr>)"
    and "activeValidatorVotingPowers (nodes w') = activeValidatorVotingPowers (nodes w)"
    and "balances w' = balances w" "axc w' = axc w" "epochs w' = epochs w" "lst w' = lst w"
      "staking w' = staking w" "logs w' = logs w"
  using assms by (auto elim!: NodeManager_moveStatus_Inr simp: statusIDs_def)

lemma NodeManager_moveStatus_inv:
  assumes idx: "node_index_inv w" and st: "node_status_inv w"
    and reg: "nodeRegistry (nodes w) k = Some info"
    and ok: "NodeManager_moveStatus from to info w = Inr w'"
  shows "node_index_inv w'" and "node_status_inv w'"
proof -
  note sets = NodeManager_moveStatus_sets [OF ok]
  have k: "node_ID info = k" using node_index_invD(1) [OF idx reg] .
  have info: "Status info = from" "from \<noteq> to" using ok by (auto elim: NodeManager_moveStatus_Inr)
  have put: "node_index_inv (putNodeInfo k (info\<lparr>Status := to\<rparr>) w)"
    using putNodeInfo_index [OF idx reg] by (simp add: node_name_def)
  show "node_index_inv w'"
    by (rule NodeManager_moveStatus_Inr [OF ok])
      (use put in \<open>simp add: node_index_inv_def next_node_def k\<close>)
  have "k \<notin> set (statusIDs to w)" using node_status_invD(2) [OF st] reg info by auto
  then show "node_status_inv w'"
    using node_status_invD [OF st] reg info k by (auto simp: node_status_inv_def sets)
qed

lemma NodeManager_moveStatus_voting:
  assumes idx: "node_index_inv w" and st: "node_status_inv w" and vot: "voting_inv w"
    and reg: "nodeRegistry (nodes w) k = Some info"
    and ok: "NodeManager_moveStatus from to info w = Inr w'"
    and inside: "from \<in> {Active, PendingInactive} \<longleftrightarrow> to \<in> {Active, PendingInactive}"
  shows "voting_inv w'"
proof -
  note sets = NodeManager_moveStatus_sets [OF ok]
  have "k \<in> set (statusIDs from w)" "node_ID info = k" "from \<noteq> to"
    using node_status_invD(2) [OF st] reg ok node_index_invD(1) [OF idx reg]
    by (auto elim: NodeManager_moveStatus_Inr)
  then show ?thesis
    using vot inside node_status_invD(1) [OF st]
    by (auto simp: voting_inv_def sets NodeManager_GetActiveValidatorIDSet_def)
qed

section \<open>What the registry answers\<close>

lemma GetInfos_of_status:
  assumes "node_inv w"
  shows "\<exists>infos. NodeManager_GetInfos (statusIDs st w) w = Inr infos \<and>
           map node_ID infos = statusIDs st w \<and> (\<forall>info\<in>set infos. Status info = st)"
proof -
  from assms have idx: "node_index_inv w" and stv: "node_status_inv w"
    by (simp_all add: node_inv_def)
  have "\<exists>infos. emap (\<lambda>k. NodeManager_GetInfo k w) ids = Inr infos \<and> map node_ID infos = ids \<and>
      (\<forall>info\<in>set infos. Status info = st)" if "set ids \<subseteq> set (statusIDs st w)" for ids
    using that
  proof (induction ids)
    case (Cons k ids)
    then obtain infos where "emap (\<lambda>k. NodeManager_GetInfo k w) ids = Inr infos"
      "map node_ID infos = ids" "\<forall>info\<in>set infos. Status info = st" by auto
    moreover obtain info where "nodeRegistry (nodes w) k = Some info" "Status info = st"
      using Cons.prems node_status_invD(2) [OF stv, of k st] by auto
    ultimately show ?case
      using node_index_invD(1) [OF idx] by (auto simp: NodeManager_GetInfo_def)
  qed simp
  from this [of "statusIDs st w"] show ?thesis by (simp add: NodeManager_GetInfos_def)
qed

text \<open>A node for the examples.\<close>

definition node_example :: "u64 \<Rightarrow> node_status \<Rightarrow> node_info" where
  "node_example k s = \<lparr>node_ID = k, ConsensusPubKey = ''k'', P2PPubKey = ''p'', P2PID = ''q'',
     Operator = 7, MetaData = \<lparr>Name = ''n'', Desc = '''', ImageURL = '''', WebsiteURL = ''''\<rparr>, Status = s\<rparr>"

end
