(* ===== verification/Staking_Pool.thy ===== *)
theory Staking_Pool
  imports Epoch_Manager Liquid_Staking_Token Node_Registry
begin

text \<open>
  A staking pool (\<open>src/internal/executor/system/framework/staking_pool.go\<close>): the exchange rate
  between stake and pool shares, adding, unlocking and withdrawing stake, and the settlement
  of a pool at the end of an epoch. A pool lives in the storage of the staking manager, so
  coins leave from the manager's account.
\<close>

section \<open>Pool slots\<close>

definition CommissionRateDenominator :: u64 where
  "CommissionRateDenominator = 10000"

definition putPool :: "u64 \<Rightarrow> pool_info \<Rightarrow> world \<Rightarrow> world" where
  "putPool poolID info w =
     w\<lparr>staking := (staking w)\<lparr>poolInfos := (poolInfos (staking w))(poolID \<mapsto> info)\<rparr>\<rparr>"

definition putRate :: "u64 \<Rightarrow> u64 \<Rightarrow> staking_rate \<Rightarrow> world \<Rightarrow> world" where
  "putRate poolID e r w = w\<lparr>staking := (staking w)\<lparr>poolRates :=
     (poolRates (staking w))(poolID := (poolRates (staking w) poolID)(e \<mapsto> r))\<rparr>\<rparr>"

definition StakingPool_Exists :: "u64 \<Rightarrow> world \<Rightarrow> bool" where
  "StakingPool_Exists poolID w \<longleftrightarrow> poolInfos (staking w) poolID \<noteq> None"

definition StakingPool_MustGetInfo :: "u64 \<Rightarrow> world \<Rightarrow> pool_info res" where
  "StakingPool_MustGetInfo poolID w = must (PoolErr (PoolNotExist poolID)) (poolInfos (staking w) poolID)"

definition pool_info_zero :: pool_info where
  "pool_info_zero =
     \<lparr>pool_ID = 0, IsActive = False, ActiveStake = 0, TotalLiquidStakingToken = 0,
      PendingActiveStake = 0, PendingInactiveStake = 0,
      PendingInactiveLiquidStakingTokenAmount = 0, CommissionRate = 0,
      NextEpochCommissionRate = 0, LastEpochReward = 0, LastEpochCommission = 0,
      CumulativeReward = 0, CumulativeCommission = 0, OperatorLiquidStakingTokenID = 0,
      LastRateEpoch = 0\<rparr>"

definition StakingPool_Info :: "u64 \<Rightarrow> world \<Rightarrow> pool_info" where
  "StakingPool_Info poolID w =
     (case poolInfos (staking w) poolID of None \<Rightarrow> pool_info_zero | Some info \<Rightarrow> info)"

section \<open>Exchange rates\<close>

definition StakingPool_HistoryLiquidStakingTokenRate :: "u64 \<Rightarrow> u64 \<Rightarrow> world \<Rightarrow> staking_rate res" where
  "StakingPool_HistoryLiquidStakingTokenRate poolID e w =
     ebind (StakingPool_MustGetInfo poolID w) (\<lambda>info.
     let e = (if LastRateEpoch info < e then LastRateEpoch info else e) in
     Inr (case poolRates (staking w) poolID e of
            None \<Rightarrow> \<lparr>StakeAmount = 0, LiquidStakingTokenAmount = 0\<rparr>
          | Some rate \<Rightarrow> rate))"

definition calculateLSTAmount :: "staking_rate \<Rightarrow> int \<Rightarrow> int" where
  "calculateLSTAmount rate stakeAmount =
     (if StakeAmount rate = 0 \<or> LiquidStakingTokenAmount rate = 0 then stakeAmount
      else bigDiv (LiquidStakingTokenAmount rate * stakeAmount) (StakeAmount rate))"

definition calculateStakeAmount :: "staking_rate \<Rightarrow> int \<Rightarrow> int" where
  "calculateStakeAmount rate lstAmount =
     (if StakeAmount rate = 0 \<or> LiquidStakingTokenAmount rate = 0 then lstAmount
      else bigDiv (StakeAmount rate * lstAmount) (LiquidStakingTokenAmount rate))"

definition calculatePrincipalAndReward :: "staking_rate \<Rightarrow> staking_rate \<Rightarrow> int \<Rightarrow> int" where
  "calculatePrincipalAndReward stakingRate lastRate p =
     calculateStakeAmount lastRate (calculateLSTAmount stakingRate p)"

section \<open>Creating a pool\<close>

definition StakingPool_Create ::
  "u64 \<Rightarrow> address \<Rightarrow> u64 \<Rightarrow> u64 \<Rightarrow> int \<Rightarrow> world \<Rightarrow> (int \<times> world) res" where
  "StakingPool_Create poolID operator e commissionRate stakeNumber w =
     ebind (LiquidStakingToken_Mint operator
              \<lparr>PoolID = poolID, Principal = stakeNumber, Unlocked = 0, ActiveEpoch = e,
               UnlockingRecords = []\<rparr> w) (\<lambda>(liquidStakingTokenID, w1).
     let info = \<lparr>pool_ID = poolID, IsActive = True, ActiveStake = stakeNumber,
                 TotalLiquidStakingToken = stakeNumber, PendingActiveStake = 0,
                 PendingInactiveStake = 0, PendingInactiveLiquidStakingTokenAmount = 0,
                 CommissionRate = commissionRate, NextEpochCommissionRate = commissionRate,
                 LastEpochReward = 0, LastEpochCommission = 0, CumulativeReward = 0,
                 CumulativeCommission = 0,
                 OperatorLiquidStakingTokenID = liquidStakingTokenID, LastRateEpoch = 0\<rparr>
     in if StakingPool_Exists poolID w1 then Inl (PoolErr (PoolAlreadyExists poolID))
        else if CommissionRateDenominator < CommissionRate info
        then Inl (PoolErr (InvalidCommissionRate commissionRate))
        else Inr (liquidStakingTokenID, putPool poolID info w1))"

definition StakingPool_GenesisInit :: "u64 \<Rightarrow> genesis_config \<Rightarrow> world \<Rightarrow> world res" where
  "StakingPool_GenesisInit poolID genesis w =
     ebind (StakingPool_MustGetInfo poolID w) (\<lambda>info.
     let info = info\<lparr>LastRateEpoch := Epoch (EpochInfo genesis)\<rparr> in
     Inr (putRate poolID (Epoch (EpochInfo genesis))
            \<lparr>StakeAmount = ActiveStake info, LiquidStakingTokenAmount = TotalLiquidStakingToken info\<rparr>
            (putPool poolID info w)))"

section \<open>Adding, unlocking and withdrawing stake\<close>

definition StakingPool_AddStake :: "vm_ctx \<Rightarrow> u64 \<Rightarrow> address \<Rightarrow> int \<Rightarrow> world \<Rightarrow> world res" where
  "StakingPool_AddStake ctx poolID owner amount w =
     ebind (StakingPool_MustGetInfo poolID w) (\<lambda>info.
     if \<not> IsActive info then Inl (PoolErr (PoolInactive (pool_ID info)))
     else if (case ctx_Value ctx of None \<Rightarrow> True | Some v \<Rightarrow> v < amount)
     then Inl (PoolErr (ReceivedValueLess amount))
     else
       ebind (NodeManager_GetInfo (pool_ID info) w) (\<lambda>nodeInfo.
       if Status nodeInfo \<noteq> Candidate \<and> Status nodeInfo \<noteq> Active
       then Inl (PoolErr (PoolStatusNotSupported (pool_ID info)))
       else
         let info = info\<lparr>PendingActiveStake := PendingActiveStake info + amount\<rparr> in
         ebind (EpochManager_CurrentEpoch w) (\<lambda>currentEpoch.
         ebind (LiquidStakingToken_Mint owner
                  \<lparr>PoolID = pool_ID info, Principal = amount, Unlocked = 0,
                   ActiveEpoch = Epoch currentEpoch + 1, UnlockingRecords = []\<rparr> w) (\<lambda>(tokenID, w1).
         Inr (EmitEvent (EventAddStake (pool_ID info) owner amount tokenID)
                (putPool poolID info w1))))))"

text \<open>What an active token is worth at the moment: its share valued at the last rate.\<close>

definition unlockValue :: "u64 \<Rightarrow> lst_info \<Rightarrow> epoch_info \<Rightarrow> world \<Rightarrow> (int \<times> int) res" where
  "unlockValue poolID tokenInfo currentEpoch w =
     ebind (StakingPool_HistoryLiquidStakingTokenRate poolID (ActiveEpoch tokenInfo - 1) w) (\<lambda>stakingRate.
     let lstAmount = calculateLSTAmount stakingRate (Principal tokenInfo) in
     if ActiveEpoch tokenInfo < Epoch currentEpoch then
       ebind (StakingPool_HistoryLiquidStakingTokenRate poolID (Epoch currentEpoch - 1) w) (\<lambda>lastRate.
       Inr (lstAmount, calculatePrincipalAndReward stakingRate lastRate (Principal tokenInfo)))
     else Inr (lstAmount, Principal tokenInfo))"

definition StakingPool_UnlockStake ::
  "vm_ctx \<Rightarrow> u64 \<Rightarrow> int \<Rightarrow> lst_info \<Rightarrow> int \<Rightarrow> world \<Rightarrow> world res" where
  "StakingPool_UnlockStake ctx poolID tokenID tokenInfo amount w =
     ebind (StakingPool_MustGetInfo poolID w) (\<lambda>info.
     ebind (EpochManager_CurrentEpoch w) (\<lambda>currentEpoch.
     if ActiveEpoch tokenInfo - 1 = Epoch currentEpoch then Inl (PoolErr TokenNotActiveYet)
     else
       let tokenInfo = updateLiquidStakingTokenUnlockingRecords (ctx_Time ctx) tokenInfo in
       ebind (unlockValue poolID tokenInfo currentEpoch w) (\<lambda>(lstAmount, principalAndReward).
       if principalAndReward < amount
       then Inl (PoolErr (AmountNotEnough principalAndReward amount))
       else if OperatorLiquidStakingTokenID info \<noteq> tokenID \<and>
               \<not> EnablePartialUnlock (StakeParams currentEpoch) \<and> amount < principalAndReward
       then Inl (PoolErr (PartialUnlockDisabled principalAndReward amount))
       else
         let unlockTimestamp = ctx_Time ctx + UnlockPeriod (StakeParams currentEpoch);
             unlockRecord = \<lparr>Amount = amount, UnlockTimestamp = unlockTimestamp\<rparr>;
             records = UnlockingRecords tokenInfo @ [unlockRecord]
         in if MaxUnlockingRecordNum (StakeParams currentEpoch) < of_nat (length records)
            then Inl (PoolErr UnlockingRecordsExceed)
            else
              let tokenInfo = tokenInfo\<lparr>UnlockingRecords := records,
                                       Principal := principalAndReward - amount,
                                       ActiveEpoch := Epoch currentEpoch + 1\<rparr>;
                  info = info\<lparr>PendingInactiveStake := PendingInactiveStake info + principalAndReward,
                              PendingInactiveLiquidStakingTokenAmount :=
                                PendingInactiveLiquidStakingTokenAmount info + lstAmount,
                              PendingActiveStake := PendingActiveStake info + Principal tokenInfo\<rparr>
              in Inr (EmitEvent (EventUnlock tokenID amount unlockTimestamp)
                   (putPool poolID info (LiquidStakingToken_updateInfo tokenID tokenInfo w))))))"

definition StakingPool_WithdrawStake ::
  "vm_ctx \<Rightarrow> u64 \<Rightarrow> int \<Rightarrow> lst_info \<Rightarrow> address \<Rightarrow> int \<Rightarrow> world \<Rightarrow> (int \<times> world) res" where
  "StakingPool_WithdrawStake ctx poolID tokenID tokenInfo recipient amount w =
     ebind (StakingPool_MustGetInfo poolID w) (\<lambda>info.
     ebind (EpochManager_CurrentEpoch w) (\<lambda>currentEpoch.
     let tokenInfo = updateLiquidStakingTokenUnlockingRecords (ctx_Time ctx) tokenInfo in
     ebind
       (if amount \<le> Unlocked tokenInfo then
          Inr (0, LiquidStakingToken_updateInfo tokenID
                    (tokenInfo\<lparr>Unlocked := Unlocked tokenInfo - amount\<rparr>) w)
        else if Epoch currentEpoch < ActiveEpoch tokenInfo then
          let totalAmount = Principal tokenInfo + Unlocked tokenInfo in
          if totalAmount < amount then Inl (PoolErr UnlockedNotEnough)
          else if amount \<le> Unlocked tokenInfo then
            Inr (0, LiquidStakingToken_updateInfo tokenID
                      (tokenInfo\<lparr>Unlocked := Unlocked tokenInfo - amount\<rparr>) w)
          else
            let principalWithdraw = amount - Unlocked tokenInfo;
                tokenInfo = tokenInfo\<lparr>Principal := Principal tokenInfo - principalWithdraw, Unlocked := 0\<rparr>;
                info = info\<lparr>PendingActiveStake := PendingActiveStake info - principalWithdraw\<rparr>
            in Inr (principalWithdraw,
                 LiquidStakingToken_updateInfo tokenID tokenInfo (putPool poolID info w))
        else Inl (PoolErr UnlockedNotEnough))
       (\<lambda>(principalWithdraw, w1).
        ebind (Transfer StakingManagerContractAddr recipient amount w1) (\<lambda>w2.
        Inr (principalWithdraw, EmitEvent (EventWithdraw tokenID recipient amount) w2)))))"

definition StakingPool_UpdateCommissionRate :: "u64 \<Rightarrow> u64 \<Rightarrow> world \<Rightarrow> world res" where
  "StakingPool_UpdateCommissionRate poolID newCommissionRate w =
     ebind (StakingPool_MustGetInfo poolID w) (\<lambda>info.
     if CommissionRateDenominator < newCommissionRate
     then Inl (PoolErr (InvalidCommissionRate newCommissionRate))
     else Inr (putPool poolID (info\<lparr>NextEpochCommissionRate := newCommissionRate\<rparr>) w))"

section \<open>The end of an epoch\<close>

definition splitReward :: "u64 \<Rightarrow> int \<Rightarrow> int \<times> int" where
  "splitReward commissionRate reward =
     (let stakerReward = bigDiv (reward * uint (CommissionRateDenominator - commissionRate))
                           (uint CommissionRateDenominator)
      in (stakerReward, reward - stakerReward))"

text \<open>Credit the stakers, drop what was unlocked, then take in the pending stake at the new rate.\<close>

definition settlePool :: "int \<Rightarrow> int \<Rightarrow> pool_info \<Rightarrow> pool_info" where
  "settlePool stakerReward operatorCommission info =
     (let oldActiveStake = ActiveStake info + stakerReward - PendingInactiveStake info;
          oldTotal = TotalLiquidStakingToken info - PendingInactiveLiquidStakingTokenAmount info;
          activeStake = oldActiveStake + PendingActiveStake info
      in info\<lparr>LastEpochReward := stakerReward,
              LastEpochCommission := operatorCommission,
              CumulativeReward := CumulativeReward info + stakerReward,
              CumulativeCommission := CumulativeCommission info + operatorCommission,
              ActiveStake := activeStake,
              PendingInactiveStake := 0,
              TotalLiquidStakingToken :=
                calculateLSTAmount \<lparr>StakeAmount = oldActiveStake, LiquidStakingTokenAmount = oldTotal\<rparr>
                  activeStake,
              PendingInactiveLiquidStakingTokenAmount := 0,
              PendingActiveStake := 0\<rparr>)"

text \<open>The operator's token after the epoch: its own reward unless it was unlocked, and the commission.\<close>

definition restakeOperator ::
  "staking_rate \<Rightarrow> pool_info \<Rightarrow> epoch_info \<Rightarrow> epoch_info \<Rightarrow> int \<Rightarrow> lst_info \<Rightarrow> lst_info" where
  "restakeOperator lastRate info oldEpoch newEpoch operatorCommission op =
     (if ActiveEpoch op = Epoch oldEpoch then
        op\<lparr>Principal := calculatePrincipalAndReward lastRate
               \<lparr>StakeAmount = ActiveStake info, LiquidStakingTokenAmount = TotalLiquidStakingToken info\<rparr>
               (Principal op) + operatorCommission,
           ActiveEpoch := Epoch newEpoch\<rparr>
      else op\<lparr>Principal := Principal op + operatorCommission, ActiveEpoch := Epoch newEpoch\<rparr>)"

text \<open>Take in the commission as stake, at the rate just computed.\<close>

definition stakeCommission :: "int \<Rightarrow> epoch_info \<Rightarrow> pool_info \<Rightarrow> pool_info" where
  "stakeCommission operatorCommission oldEpoch info =
     (let oldActiveStake = ActiveStake info;
          activeStake = ActiveStake info + operatorCommission
      in info\<lparr>ActiveStake := activeStake,
              TotalLiquidStakingToken :=
                calculateLSTAmount \<lparr>StakeAmount = oldActiveStake,
                    LiquidStakingTokenAmount = TotalLiquidStakingToken info\<rparr> activeStake,
              CommissionRate := NextEpochCommissionRate info,
              LastRateEpoch := Epoch oldEpoch\<rparr>)"

definition StakingPool_TurnIntoNewEpoch ::
  "u64 \<Rightarrow> epoch_info \<Rightarrow> epoch_info \<Rightarrow> int \<Rightarrow> world \<Rightarrow> world res" where
  "StakingPool_TurnIntoNewEpoch poolID oldEpoch newEpoch reward w =
     ebind (StakingPool_MustGetInfo poolID w) (\<lambda>info.
     let (stakerReward, operatorCommission) = splitReward (CommissionRate info) reward;
         info = settlePool stakerReward operatorCommission info
     in ebind (LiquidStakingToken_mustGetInfo (OperatorLiquidStakingTokenID info) w) (\<lambda>op.
        ebind (StakingPool_HistoryLiquidStakingTokenRate poolID (Epoch oldEpoch - 1) w) (\<lambda>lastRate.
        let op = restakeOperator lastRate info oldEpoch newEpoch operatorCommission op;
            w1 = LiquidStakingToken_updateInfo (OperatorLiquidStakingTokenID info) op w;
            info = stakeCommission operatorCommission oldEpoch info
        in Inr (putRate poolID (Epoch oldEpoch)
             \<lparr>StakeAmount = ActiveStake info, LiquidStakingTokenAmount = TotalLiquidStakingToken info\<rparr>
             (putPool poolID info w1)))))"

section \<open>Rates and rounding\<close>

lemma CommissionRateDenominator_uint [simp]: "uint CommissionRateDenominator = 10000"
  by (simp add: CommissionRateDenominator_def)

lemma uint_commission_rest:
  assumes "c \<le> CommissionRateDenominator"
  shows "uint (CommissionRateDenominator - c) = 10000 - uint c" and "uint c \<le> 10000"
proof -
  show "uint (CommissionRateDenominator - c) = 10000 - uint c"
    using iffD1 [OF uint_minus_simple_alt assms] by simp
  show "uint c \<le> 10000" using assms by (simp add: word_le_def)
qed

lemma splitReward_sum: "splitReward c r = (s, q) \<Longrightarrow> s + q = r"
  by (auto simp: splitReward_def Let_def)

lemma splitReward_bounds:
  assumes "splitReward c r = (s, q)" and "c \<le> CommissionRateDenominator" and "0 \<le> r"
  shows "0 \<le> s" and "0 \<le> q" and "s * 10000 \<le> r * (10000 - uint c)"
    and "r * (10000 - uint c) < (s + 1) * 10000"
proof -
  note c = uint_commission_rest [OF assms(2)]
  have s: "s = r * (10000 - uint c) div 10000" and q: "q = r - s"
    using assms(1) c(1) by (auto simp: splitReward_def Let_def)
  show "0 \<le> s" using c(2) assms(3) by (simp add: s pos_imp_zdiv_nonneg_iff)
  show lower: "s * 10000 \<le> r * (10000 - uint c)" and "r * (10000 - uint c) < (s + 1) * 10000"
    unfolding s by (rule int_div_bounds, simp)+
  have "r * (10000 - uint c) \<le> r * 10000"
    using assms(3) by (intro mult_left_mono) auto
  then show "0 \<le> q" using q lower by simp
qed

lemma calculateLSTAmount_bounds:
  assumes "0 < StakeAmount r" and "0 < LiquidStakingTokenAmount r"
  shows "calculateLSTAmount r x * StakeAmount r \<le> LiquidStakingTokenAmount r * x"
    and "LiquidStakingTokenAmount r * x < (calculateLSTAmount r x + 1) * StakeAmount r"
  using assms int_div_bounds [OF assms(1)] by (simp_all add: calculateLSTAmount_def)

lemma calculateStakeAmount_bounds:
  assumes "0 < StakeAmount r" and "0 < LiquidStakingTokenAmount r"
  shows "calculateStakeAmount r x * LiquidStakingTokenAmount r \<le> StakeAmount r * x"
    and "StakeAmount r * x < (calculateStakeAmount r x + 1) * LiquidStakingTokenAmount r"
  using assms int_div_bounds [OF assms(2)] by (simp_all add: calculateStakeAmount_def)

lemma calculateLSTAmount_mono:
  assumes "0 < StakeAmount r" and "0 < LiquidStakingTokenAmount r" and "StakeAmount r \<le> x"
  shows "LiquidStakingTokenAmount r \<le> calculateLSTAmount r x"
proof -
  have "LiquidStakingTokenAmount r * StakeAmount r \<le> LiquidStakingTokenAmount r * x"
    using assms by (intro mult_left_mono) auto
  then have "LiquidStakingTokenAmount r * StakeAmount r div StakeAmount r \<le>
      LiquidStakingTokenAmount r * x div StakeAmount r"
    using assms(1) by (rule zdiv_mono1)
  then show ?thesis using assms by (simp add: calculateLSTAmount_def)
qed

text \<open>
  A position valued at a rate no worse than the one it was opened at is worth at least its
  principal, up to one share and one coin of rounding.
\<close>

lemma calculatePrincipalAndReward_lower:
  assumes r: "0 < StakeAmount r" "0 < LiquidStakingTokenAmount r"
    and r': "0 < StakeAmount r'" "0 < LiquidStakingTokenAmount r'"
    and better: "StakeAmount r * LiquidStakingTokenAmount r' \<le> StakeAmount r' * LiquidStakingTokenAmount r"
    and p: "0 \<le> p"
  shows "LiquidStakingTokenAmount r' * p <
    (calculatePrincipalAndReward r r' p + 1) * LiquidStakingTokenAmount r' + StakeAmount r'"
proof -
  let ?S = "StakeAmount r" and ?L = "LiquidStakingTokenAmount r"
  let ?S' = "StakeAmount r'" and ?L' = "LiquidStakingTokenAmount r'"
  let ?l = "calculateLSTAmount r p"
  have "?S * (?L' * p) \<le> (?S' * ?L) * p"
    using mult_right_mono [OF better p] by (simp add: mult_ac)
  also have "\<dots> = ?S' * (?L * p)" by simp
  also have "\<dots> < ?S' * ((?l + 1) * ?S)"
    using calculateLSTAmount_bounds(2) [OF r] r'(1) by (rule mult_strict_left_mono)
  finally have "?S * (?L' * p) < ?S * (?S' * (?l + 1))" by (simp add: mult_ac)
  then have "?L' * p < ?S' * (?l + 1)" using r(1) by simp
  moreover have "?S' * ?l < (calculatePrincipalAndReward r r' p + 1) * ?L'"
    using calculateStakeAmount_bounds(2) [OF r'] by (simp add: calculatePrincipalAndReward_def)
  ultimately show ?thesis by (simp add: distrib_left)
qed

lemma calculatePrincipalAndReward_upper:
  assumes r: "0 < StakeAmount r" "0 < LiquidStakingTokenAmount r"
    and r': "0 < StakeAmount r'" "0 < LiquidStakingTokenAmount r'"
  shows "calculatePrincipalAndReward r r' p * (LiquidStakingTokenAmount r' * StakeAmount r) \<le>
    StakeAmount r' * LiquidStakingTokenAmount r * p"
proof -
  let ?l = "calculateLSTAmount r p"
  have "calculatePrincipalAndReward r r' p * LiquidStakingTokenAmount r' * StakeAmount r \<le>
      StakeAmount r' * ?l * StakeAmount r"
    using calculateStakeAmount_bounds(1) [OF r', of ?l] r(1)
    by (intro mult_right_mono) (auto simp: calculatePrincipalAndReward_def)
  also have "\<dots> \<le> StakeAmount r' * (LiquidStakingTokenAmount r * p)"
    unfolding mult.assoc using calculateLSTAmount_bounds(1) [OF r, of p] r'(1)
    by (intro mult_left_mono) auto
  finally show ?thesis by (simp add: mult_ac)
qed

lemma shares_worth:
  assumes "0 < StakeAmount r" "0 < LiquidStakingTokenAmount r"
  shows "sum_list (map (calculateStakeAmount r) ls) * LiquidStakingTokenAmount r \<le> StakeAmount r * sum_list ls"
proof (induction ls)
  case (Cons l ls)
  then show ?case
    using calculateStakeAmount_bounds(1) [OF assms, of l] by (simp add: distrib_left distrib_right)
qed simp

section \<open>Settlement\<close>

definition pool_rate :: "pool_info \<Rightarrow> staking_rate" where
  "pool_rate info = \<lparr>StakeAmount = ActiveStake info, LiquidStakingTokenAmount = TotalLiquidStakingToken info\<rparr>"

lemma pool_rate_fields [simp]:
  "StakeAmount (pool_rate info) = ActiveStake info"
  "LiquidStakingTokenAmount (pool_rate info) = TotalLiquidStakingToken info"
  by (simp_all add: pool_rate_def)

lemma settlePool_fields [simp]:
  "ActiveStake (settlePool s q info) =
     ActiveStake info + s - PendingInactiveStake info + PendingActiveStake info"
  "PendingActiveStake (settlePool s q info) = 0" "PendingInactiveStake (settlePool s q info) = 0"
  "PendingInactiveLiquidStakingTokenAmount (settlePool s q info) = 0"
  "OperatorLiquidStakingTokenID (settlePool s q info) = OperatorLiquidStakingTokenID info"
  "NextEpochCommissionRate (settlePool s q info) = NextEpochCommissionRate info"
  "pool_ID (settlePool s q info) = pool_ID info" "IsActive (settlePool s q info) = IsActive info"
  "LastEpochReward (settlePool s q info) = s" "LastEpochCommission (settlePool s q info) = q"
  "CumulativeReward (settlePool s q info) = CumulativeReward info + s"
  "CumulativeCommission (settlePool s q info) = CumulativeCommission info + q"
  by (simp_all add: settlePool_def Let_def)

lemma stakeCommission_fields [simp]:
  "ActiveStake (stakeCommission q e info) = ActiveStake info + q"
  "TotalLiquidStakingToken (stakeCommission q e info) =
     calculateLSTAmount (pool_rate info) (ActiveStake info + q)"
  "PendingActiveStake (stakeCommission q e info) = PendingActiveStake info"
  "PendingInactiveStake (stakeCommission q e info) = PendingInactiveStake info"
  "PendingInactiveLiquidStakingTokenAmount (stakeCommission q e info) =
     PendingInactiveLiquidStakingTokenAmount info"
  "CommissionRate (stakeCommission q e info) = NextEpochCommissionRate info"
  "LastRateEpoch (stakeCommission q e info) = Epoch e"
  "OperatorLiquidStakingTokenID (stakeCommission q e info) = OperatorLiquidStakingTokenID info"
  "pool_ID (stakeCommission q e info) = pool_ID info" "IsActive (stakeCommission q e info) = IsActive info"
  by (simp_all add: stakeCommission_def Let_def pool_rate_def)

lemma restakeOperator_fields [simp]:
  "PoolID (restakeOperator r info e e' q op) = PoolID op"
  "Unlocked (restakeOperator r info e e' q op) = Unlocked op"
  "UnlockingRecords (restakeOperator r info e e' q op) = UnlockingRecords op"
  "ActiveEpoch (restakeOperator r info e e' q op) = Epoch e'"
  by (simp_all add: restakeOperator_def)

lemma put_pool_frame [simp, frame_simps]:
  "balances (putPool p info w) = balances w" "axc (putPool p info w) = axc w"
  "epochs (putPool p info w) = epochs w" "lst (putPool p info w) = lst w"
  "nodes (putPool p info w) = nodes w" "logs (putPool p info w) = logs w"
  "balances (putRate p e r w) = balances w" "axc (putRate p e r w) = axc w"
  "epochs (putRate p e r w) = epochs w" "lst (putRate p e r w) = lst w"
  "nodes (putRate p e r w) = nodes w" "logs (putRate p e r w) = logs w"
  by (simp_all add: putPool_def putRate_def)

lemma put_pool_fields [simp]:
  "poolInfos (staking (putPool p info w)) = (poolInfos (staking w))(p \<mapsto> info)"
  "poolRates (staking (putPool p info w)) = poolRates (staking w)"
  "availablePools (staking (putPool p info w)) = availablePools (staking w)"
  "totalStake (staking (putPool p info w)) = totalStake (staking w)"
  "poolInfos (staking (putRate p e r w)) = poolInfos (staking w)"
  "poolRates (staking (putRate p e r w)) = (poolRates (staking w))(p := (poolRates (staking w) p)(e \<mapsto> r))"
  "availablePools (staking (putRate p e r w)) = availablePools (staking w)"
  "totalStake (staking (putRate p e r w)) = totalStake (staking w)"
  by (simp_all add: putPool_def putRate_def)

lemma StakingPool_MustGetInfo_Inr [simp]:
  "StakingPool_MustGetInfo p w = Inr info \<longleftrightarrow> poolInfos (staking w) p = Some info"
  by (simp add: StakingPool_MustGetInfo_def)

lemma StakingPool_TurnIntoNewEpoch_Inr:
  assumes "StakingPool_TurnIntoNewEpoch p old new reward w = Inr w'"
  obtains info s q op lastRate where "poolInfos (staking w) p = Some info"
    "splitReward (CommissionRate info) reward = (s, q)"
    "LiquidStakingToken_mustGetInfo (OperatorLiquidStakingTokenID info) w = Inr op"
    "StakingPool_HistoryLiquidStakingTokenRate p (Epoch old - 1) w = Inr lastRate"
    "w' = putRate p (Epoch old) (pool_rate (stakeCommission q old (settlePool s q info)))
            (putPool p (stakeCommission q old (settlePool s q info))
              (LiquidStakingToken_updateInfo (OperatorLiquidStakingTokenID info)
                (restakeOperator lastRate (settlePool s q info) old new q op) w))"
proof -
  from assms obtain info where info: "poolInfos (staking w) p = Some info"
    by (auto simp: StakingPool_TurnIntoNewEpoch_def elim!: ebind_InrE)
  obtain s q where sq: "splitReward (CommissionRate info) reward = (s, q)" by (cases "splitReward (CommissionRate info) reward")
  have run: "StakingPool_MustGetInfo p w = Inr info" using info by simp
  from assms obtain op lastRate where
    "LiquidStakingToken_mustGetInfo (OperatorLiquidStakingTokenID info) w = Inr op"
    "StakingPool_HistoryLiquidStakingTokenRate p (Epoch old - 1) w = Inr lastRate"
    "w' = putRate p (Epoch old) (pool_rate (stakeCommission q old (settlePool s q info)))
            (putPool p (stakeCommission q old (settlePool s q info))
              (LiquidStakingToken_updateInfo (OperatorLiquidStakingTokenID info)
                (restakeOperator lastRate (settlePool s q info) old new q op) w))"
    unfolding StakingPool_TurnIntoNewEpoch_def run ebind_simps Let_def sq prod.case pool_rate_def [symmetric]
      settlePool_fields(5)
    by (auto elim!: ebind_InrE)
  with info sq show thesis by (rule that)
qed

lemma settle_price:
  assumes pos: "0 < ActiveStake info" "0 < TotalLiquidStakingToken info"
    and exits: "PendingInactiveStake info * TotalLiquidStakingToken info \<le>
        ActiveStake info * PendingInactiveLiquidStakingTokenAmount info"
      "PendingInactiveLiquidStakingTokenAmount info < TotalLiquidStakingToken info"
    and gain: "0 \<le> s" "0 \<le> PendingActiveStake info"
  shows "0 < ActiveStake (settlePool s q info)" "0 < TotalLiquidStakingToken (settlePool s q info)"
    "ActiveStake info * TotalLiquidStakingToken (settlePool s q info) \<le>
       ActiveStake (settlePool s q info) * TotalLiquidStakingToken info"
proof -
  define S1 L1 where "S1 = ActiveStake info + s - PendingInactiveStake info"
    and "L1 = TotalLiquidStakingToken info - PendingInactiveLiquidStakingTokenAmount info"
  let ?r = "\<lparr>StakeAmount = S1, LiquidStakingTokenAmount = L1\<rparr>"
  let ?S = "ActiveStake info" and ?L = "TotalLiquidStakingToken info"
  have L1: "0 < L1" using exits(2) by (simp add: L1_def)
  have price: "?S * L1 \<le> S1 * ?L"
    using exits(1) mult_nonneg_nonneg [OF gain(1), of ?L] pos(2)
    by (simp add: S1_def L1_def algebra_simps)
  have S1: "0 < S1"
    using price mult_pos_pos [OF pos(1) L1] pos(2) by (metis less_le_trans zero_less_mult_pos2)
  have total: "TotalLiquidStakingToken (settlePool s q info) = calculateLSTAmount ?r (S1 + PendingActiveStake info)"
    by (simp add: settlePool_def Let_def S1_def L1_def)
  have active: "ActiveStake (settlePool s q info) = S1 + PendingActiveStake info" by (simp add: S1_def)
  show "0 < ActiveStake (settlePool s q info)" using S1 gain(2) active by simp
  show "0 < TotalLiquidStakingToken (settlePool s q info)"
    using calculateLSTAmount_mono [of ?r "S1 + PendingActiveStake info"] S1 L1 gain(2) total by simp
  show "?S * TotalLiquidStakingToken (settlePool s q info) \<le> ActiveStake (settlePool s q info) * ?L"
    unfolding total active
    using ratio_trans [OF S1 price, of _ "S1 + PendingActiveStake info"]
      calculateLSTAmount_bounds(1) [of ?r "S1 + PendingActiveStake info"] S1 L1 pos gain(2) by simp
qed

lemma StakingPool_HistoryRate_last:
  assumes "poolInfos (staking w) p = Some info" and "LastRateEpoch info \<le> e"
    and "poolRates (staking w) p (LastRateEpoch info) = Some r"
  shows "StakingPool_HistoryLiquidStakingTokenRate p e w = Inr r"
proof -
  have "(if LastRateEpoch info < e then LastRateEpoch info else e) = LastRateEpoch info"
    using assms(2) by auto
  then show ?thesis
    using assms(1,3) by (simp add: StakingPool_HistoryLiquidStakingTokenRate_def StakingPool_MustGetInfo_def)
qed

lemma StakingPool_TurnIntoNewEpoch_price:
  assumes ok: "StakingPool_TurnIntoNewEpoch p old new reward w = Inr w'"
    and pool: "poolInfos (staking w) p = Some info"
    and rate: "CommissionRate info \<le> CommissionRateDenominator" and reward: "0 \<le> reward"
    and pos: "0 < ActiveStake info" "0 < TotalLiquidStakingToken info" "0 \<le> PendingActiveStake info"
    and exits: "PendingInactiveStake info * TotalLiquidStakingToken info \<le>
        ActiveStake info * PendingInactiveLiquidStakingTokenAmount info"
      "PendingInactiveLiquidStakingTokenAmount info < TotalLiquidStakingToken info"
  obtains info' where "poolInfos (staking w') p = Some info'" "0 < ActiveStake info'"
    "0 < TotalLiquidStakingToken info'"
    "ActiveStake info * TotalLiquidStakingToken info' \<le> ActiveStake info' * TotalLiquidStakingToken info"
proof -
  from ok pool obtain s q where sq: "splitReward (CommissionRate info) reward = (s, q)"
    and info': "poolInfos (staking w') p = Some (stakeCommission q old (settlePool s q info))"
    by (auto elim!: StakingPool_TurnIntoNewEpoch_Inr)
  note gain = splitReward_bounds [OF sq rate reward]
  let ?mid = "settlePool s q info" and ?S3 = "ActiveStake (settlePool s q info) + q"
  note mid = settle_price [OF pos(1,2) exits gain(1) pos(3), of q]
  have lst: "TotalLiquidStakingToken ?mid \<le> calculateLSTAmount (pool_rate ?mid) ?S3"
    using calculateLSTAmount_mono [of "pool_rate ?mid" ?S3] mid(1,2) gain(2) by simp
  have "calculateLSTAmount (pool_rate ?mid) ?S3 * ActiveStake ?mid \<le> TotalLiquidStakingToken ?mid * ?S3"
    using calculateLSTAmount_bounds(1) [of "pool_rate ?mid" ?S3] mid(1,2) by simp
  from ratio_trans [OF mid(1) mid(3) this] mid(1) pos(1) gain(2)
  have "ActiveStake info * calculateLSTAmount (pool_rate ?mid) ?S3 \<le> ?S3 * TotalLiquidStakingToken info"
    by simp
  then show thesis
    using that [OF info'] mid(1,2) gain(2) lst unfolding stakeCommission_fields by linarith
qed

section \<open>Unlocking and withdrawing\<close>

text \<open>Everything a token stands for: staked principal, coins waiting out the lock and free coins.\<close>

definition token_coins :: "lst_info \<Rightarrow> int" where
  "token_coins info = Principal info + Unlocked info + sum_list (map Amount (UnlockingRecords info))"

lemma token_coins_refresh [simp]:
  "token_coins (updateLiquidStakingTokenUnlockingRecords ts info) = token_coins info"
  using sum_list_filter_split [of Amount "\<lambda>r. UnlockTimestamp r \<le> ts" "UnlockingRecords info"]
  by (simp add: token_coins_def updateLiquidStakingTokenUnlockingRecords_eq)

lemma refresh_same_principal [simp]:
  "(updateLiquidStakingTokenUnlockingRecords ts info)\<lparr>Principal := Principal info, Unlocked := x\<rparr> =
     (updateLiquidStakingTokenUnlockingRecords ts info)\<lparr>Unlocked := x\<rparr>"
  by (simp add: updateLiquidStakingTokenUnlockingRecords_eq)

lemma StakingPool_UnlockStake_reads:
  assumes "StakingPool_UnlockStake ctx p t ti amount w = Inr w'"
  obtains info cur where "poolInfos (staking w) p = Some info" "EpochManager_CurrentEpoch w = Inr cur"
  using assms by (auto simp: StakingPool_UnlockStake_def elim!: ebind_InrE)

lemma StakingPool_UnlockStake_Inr:
  assumes "StakingPool_UnlockStake ctx p t ti amount w = Inr w'"
    and "poolInfos (staking w) p = Some info" and "EpochManager_CurrentEpoch w = Inr cur"
  obtains l pr ti' where "ActiveEpoch ti - 1 \<noteq> Epoch cur"
    "unlockValue p (updateLiquidStakingTokenUnlockingRecords (ctx_Time ctx) ti) cur w = Inr (l, pr)"
    "amount \<le> pr"
    "OperatorLiquidStakingTokenID info = t \<or> EnablePartialUnlock (StakeParams cur) \<or> amount = pr"
    "ti' = (updateLiquidStakingTokenUnlockingRecords (ctx_Time ctx) ti)
       \<lparr>UnlockingRecords := UnlockingRecords (updateLiquidStakingTokenUnlockingRecords (ctx_Time ctx) ti) @
          [\<lparr>Amount = amount, UnlockTimestamp = ctx_Time ctx + UnlockPeriod (StakeParams cur)\<rparr>],
        Principal := pr - amount, ActiveEpoch := Epoch cur + 1\<rparr>"
    "of_nat (length (UnlockingRecords ti')) \<le> MaxUnlockingRecordNum (StakeParams cur)"
    "w' = EmitEvent (EventUnlock t amount (ctx_Time ctx + UnlockPeriod (StakeParams cur)))
       (putPool p (info\<lparr>PendingInactiveStake := PendingInactiveStake info + pr,
          PendingInactiveLiquidStakingTokenAmount := PendingInactiveLiquidStakingTokenAmount info + l,
          PendingActiveStake := PendingActiveStake info + (pr - amount)\<rparr>)
         (LiquidStakingToken_updateInfo t ti' w))"
proof -
  have gets: "StakingPool_MustGetInfo p w = Inr info" using assms(2) by simp
  note run = assms(1) [unfolded StakingPool_UnlockStake_def gets assms(3) ebind_simps Let_def]
  from run obtain l pr where
    v: "unlockValue p (updateLiquidStakingTokenUnlockingRecords (ctx_Time ctx) ti) cur w = Inr (l, pr)"
    by (auto elim!: ebind_InrE split: if_splits)
  show thesis
    by (rule that [OF _ v])
      (use run [unfolded v ebind_simps prod.case] in \<open>auto simp: not_less split: if_splits\<close>)
qed

lemma StakingPool_WithdrawStake_reads:
  assumes "StakingPool_WithdrawStake ctx p t ti recipient amount w = Inr (pw, w')"
  obtains info cur where "poolInfos (staking w) p = Some info" "EpochManager_CurrentEpoch w = Inr cur"
  using assms by (auto simp: StakingPool_WithdrawStake_def elim!: ebind_InrE)

lemma StakingPool_WithdrawStake_Inr:
  assumes "StakingPool_WithdrawStake ctx p t ti recipient amount w = Inr (pw, w')"
    and "poolInfos (staking w) p = Some info" and "EpochManager_CurrentEpoch w = Inr cur"
  obtains u ti' w1 w2 where
    "u = updateLiquidStakingTokenUnlockingRecords (ctx_Time ctx) ti"
    "pw = (if amount \<le> Unlocked u then 0 else amount - Unlocked u)"
    "pw \<noteq> 0 \<longrightarrow> Epoch cur < ActiveEpoch ti \<and> amount \<le> Principal ti + Unlocked u"
    "ti' = u\<lparr>Principal := Principal u - pw, Unlocked := Unlocked u - (amount - pw)\<rparr>"
    "w1 = LiquidStakingToken_updateInfo t ti'
       (if pw = 0 then w else putPool p (info\<lparr>PendingActiveStake := PendingActiveStake info - pw\<rparr>) w)"
    "Transfer StakingManagerContractAddr recipient amount w1 = Inr w2"
    "w' = EmitEvent (EventWithdraw t recipient amount) w2"
proof -
  let ?u = "updateLiquidStakingTokenUnlockingRecords (ctx_Time ctx) ti"
  have gets: "StakingPool_MustGetInfo p w = Inr info" using assms(2) by simp
  note run = assms(1) [unfolded StakingPool_WithdrawStake_def gets assms(3) ebind_simps Let_def]
  show thesis
  proof (cases "amount \<le> Unlocked ?u")
    case True
    with run obtain w2 where "pw = 0" and
      "Transfer StakingManagerContractAddr recipient amount (LiquidStakingToken_updateInfo t
         (?u\<lparr>Unlocked := Unlocked ?u - amount\<rparr>) w) = Inr w2"
      "w' = EmitEvent (EventWithdraw t recipient amount) w2"
      by (auto elim!: ebind_InrE)
    with True show thesis by (intro that [OF refl _ _ refl refl]) simp_all
  next
    case False
    with run obtain w2 where "pw = amount - Unlocked ?u" and
      "Transfer StakingManagerContractAddr recipient amount (LiquidStakingToken_updateInfo t
         (?u\<lparr>Principal := Principal ?u - (amount - Unlocked ?u), Unlocked := 0\<rparr>)
         (putPool p (info\<lparr>PendingActiveStake := PendingActiveStake info - (amount - Unlocked ?u)\<rparr>) w)) = Inr w2"
      "w' = EmitEvent (EventWithdraw t recipient amount) w2"
      "Epoch cur < ActiveEpoch ti" "amount \<le> Principal ti + Unlocked ?u"
      by (auto elim!: ebind_InrE split: if_splits)
    with False show thesis by (intro that [OF refl _ _ refl refl]) simp_all
  qed
qed

section \<open>Properties\<close>

text \<open>
  The example pool: 1000 coins staked against 900 shares, 50 coins pending, one unlocked
  position of 100 coins and 90 shares, and a commission of five percent.
\<close>

definition pool_example :: pool_info where
  "pool_example = pool_info_zero
     \<lparr>pool_ID := 1, IsActive := True, ActiveStake := 1000, TotalLiquidStakingToken := 900,
      PendingActiveStake := 50, PendingInactiveStake := 100,
      PendingInactiveLiquidStakingTokenAmount := 90, CommissionRate := 500,
      NextEpochCommissionRate := 500, OperatorLiquidStakingTokenID := 1\<rparr>"

definition pool_world :: world where
  "pool_world = epoch_world
     \<lparr>lst := (lst empty_world)\<lparr>infoMap := [1 \<mapsto> \<lparr>PoolID = 1, Principal = 300, Unlocked = 20,
         ActiveEpoch = 1, UnlockingRecords = [\<lparr>Amount = 30, UnlockTimestamp = 5\<rparr>]\<rparr>]\<rparr>,
      staking := (staking empty_world)\<lparr>poolInfos := [1 \<mapsto> pool_example]\<rparr>,
      balances := (\<lambda>_. 0)(StakingManagerContractAddr := 5000)\<rparr>"

lemma pool_world_fields [simp]:
  "poolInfos (staking pool_world) = [1 \<mapsto> pool_example]"
  "poolRates (staking pool_world) p = Map.empty"
  "infoMap (lst pool_world) = [1 \<mapsto> \<lparr>PoolID = 1, Principal = 300, Unlocked = 20, ActiveEpoch = 1,
     UnlockingRecords = [\<lparr>Amount = 30, UnlockTimestamp = 5\<rparr>]\<rparr>]"
  "EpochManager_CurrentEpoch pool_world = Inr epoch_example"
  "balances pool_world = (\<lambda>_. 0)(StakingManagerContractAddr := 5000)"
  using EpochManager_CurrentEpoch_cong [of pool_world epoch_world] epoch_world_current
  by (simp_all add: pool_world_def)

lemma pool_world_turns:
  "\<exists>w'. StakingPool_TurnIntoNewEpoch 1 epoch_example (epoch_example\<lparr>Epoch := 2\<rparr>) 70 pool_world = Inr w'"
  by (simp add: StakingPool_TurnIntoNewEpoch_def StakingPool_MustGetInfo_def Let_def
      LiquidStakingToken_mustGetInfo_def LiquidStakingToken_GetInfo_def pool_example_def
      StakingPool_HistoryLiquidStakingTokenRate_def split: prod.split)

text \<open>
  C27: The commission split loses nothing. With a commission rate of at most 100 percent, the
  stakers' part and the operator's commission add up to the reward, neither is negative, and
  the stakers' part is the exact proportional share rounded down to a whole coin.
\<close>

theorem commission_split:
  assumes "c \<le> CommissionRateDenominator" and "0 \<le> reward"
    and "splitReward c reward = (stakerReward, operatorCommission)"
  shows "stakerReward + operatorCommission = reward \<and> 0 \<le> stakerReward \<and> 0 \<le> operatorCommission \<and>
         stakerReward * 10000 \<le> reward * (10000 - uint c) \<and>
         reward * (10000 - uint c) < (stakerReward + 1) * 10000"
  using splitReward_sum [OF assms(3)] splitReward_bounds [OF assms(3,1,2)] by blast

theorem commission_split_witness: "\<exists>s q. splitReward 333 1001 = (s, q) \<and> s + q = 1001 \<and> 0 \<le> q"
  using commission_split [of 333 1001 "fst (splitReward 333 1001)" "snd (splitReward 333 1001)"]
  by (simp add: CommissionRateDenominator_def prod_eq_iff)





text \<open>
  C10: Unlocking moves value, it does not create it. A successful unlock prices the token at
  some value \<open>pr\<close> of at least the amount; the unlocked amount becomes one unlocking record and the
  rest stays staked, so the coins of the token are its old unlocked coins and records plus
  \<open>pr\<close>; the pool books \<open>pr\<close> as leaving and the rest as entering in the next epoch; the number
  of records stays within the limit of the epoch; and until the next epoch no second unlock of
  this token can succeed.
\<close>

theorem unlock_stake_conserves:
  assumes ok: "StakingPool_UnlockStake ctx p t ti amount w = Inr w'"
    and pool: "poolInfos (staking w) p = Some info"
    and cur: "EpochManager_CurrentEpoch w = Inr cur"
  shows "\<exists>ti' info' pr l. infoMap (lst w') = (infoMap (lst w))(t \<mapsto> ti') \<and>
           unlockValue p (updateLiquidStakingTokenUnlockingRecords (ctx_Time ctx) ti) cur w = Inr (l, pr) \<and>
           poolInfos (staking w') = (poolInfos (staking w))(p \<mapsto> info') \<and> amount \<le> pr \<and>
           (OperatorLiquidStakingTokenID info = t \<or> EnablePartialUnlock (StakeParams cur) \<or> amount = pr) \<and>
           token_coins ti' = token_coins ti - Principal ti + pr \<and>
           Principal ti' = pr - amount \<and> ActiveEpoch ti' = Epoch cur + 1 \<and>
           of_nat (length (UnlockingRecords ti')) \<le> MaxUnlockingRecordNum (StakeParams cur) \<and>
           PendingInactiveStake info' = PendingInactiveStake info + pr \<and>
           PendingInactiveLiquidStakingTokenAmount info' = PendingInactiveLiquidStakingTokenAmount info + l \<and>
           PendingActiveStake info' = PendingActiveStake info + Principal ti' \<and>
           ActiveStake info' = ActiveStake info \<and> balances w' = balances w \<and>
           (\<forall>ctx' amount'. StakingPool_UnlockStake ctx' p t ti' amount' w' = Inl (PoolErr TokenNotActiveYet))"
proof -
  let ?u = "updateLiquidStakingTokenUnlockingRecords (ctx_Time ctx) ti"
  from ok pool cur obtain l pr ti' where
    facts: "unlockValue p ?u cur w = Inr (l, pr)" "amount \<le> pr" "OperatorLiquidStakingTokenID info = t \<or> EnablePartialUnlock (StakeParams cur) \<or> amount = pr"
    "of_nat (length (UnlockingRecords ti')) \<le> MaxUnlockingRecordNum (StakeParams cur)"
    and ti': "ti' = ?u\<lparr>UnlockingRecords := UnlockingRecords ?u @
          [\<lparr>Amount = amount, UnlockTimestamp = ctx_Time ctx + UnlockPeriod (StakeParams cur)\<rparr>],
        Principal := pr - amount, ActiveEpoch := Epoch cur + 1\<rparr>"
    and w': "w' = EmitEvent (EventUnlock t amount (ctx_Time ctx + UnlockPeriod (StakeParams cur)))
       (putPool p (info\<lparr>PendingInactiveStake := PendingInactiveStake info + pr,
          PendingInactiveLiquidStakingTokenAmount := PendingInactiveLiquidStakingTokenAmount info + l,
          PendingActiveStake := PendingActiveStake info + (pr - amount)\<rparr>)
         (LiquidStakingToken_updateInfo t ti' w))"
    by (rule StakingPool_UnlockStake_Inr)
  have "token_coins ti' = token_coins ?u - Principal ?u + pr"
    unfolding ti' token_coins_def by simp
  then have coins: "token_coins ti' = token_coins ti - Principal ti + pr" by simp
  have "EpochManager_CurrentEpoch w' = Inr cur"
    using cur EpochManager_CurrentEpoch_cong [of w' w] by (simp add: w')
  then have "StakingPool_UnlockStake ctx' p t ti' amount' w' = Inl (PoolErr TokenNotActiveYet)"
    for ctx' amount'
    by (simp add: StakingPool_UnlockStake_def StakingPool_MustGetInfo_def w' ti')
  then show ?thesis
    using facts coins
    by (intro exI [of _ ti'] exI [of _ "info\<lparr>PendingInactiveStake := PendingInactiveStake info + pr,
          PendingInactiveLiquidStakingTokenAmount := PendingInactiveLiquidStakingTokenAmount info + l,
          PendingActiveStake := PendingActiveStake info + (pr - amount)\<rparr>"] exI [of _ pr] exI [of _ l])
      (simp add: w', simp add: ti')
qed

definition token_example :: lst_info where
  "token_example = \<lparr>PoolID = 1, Principal = 300, Unlocked = 20, ActiveEpoch = 1,
     UnlockingRecords = [\<lparr>Amount = 30, UnlockTimestamp = 5\<rparr>]\<rparr>"

theorem unlock_stake_conserves_witness:
  "\<exists>w' ti'. StakingPool_UnlockStake (user 7) 1 1 token_example 200 pool_world = Inr w' \<and>
     infoMap (lst w') 1 = Some ti' \<and> token_coins ti' = 350 \<and> Principal ti' = 100"
proof -
  obtain w' where w': "StakingPool_UnlockStake (user 7) 1 1 token_example 200 pool_world = Inr w'"
    by (simp add: StakingPool_UnlockStake_def StakingPool_MustGetInfo_def Let_def user_def
        unlockValue_def StakingPool_HistoryLiquidStakingTokenRate_def pool_example_def token_example_def
        updateLiquidStakingTokenUnlockingRecords_def)
  have "unlockValue 1 (updateLiquidStakingTokenUnlockingRecords 0 token_example) epoch_example pool_world =
      Inr (300, 300)"
    by (simp add: unlockValue_def StakingPool_HistoryLiquidStakingTokenRate_def StakingPool_MustGetInfo_def
        pool_example_def token_example_def Let_def calculateLSTAmount_def)
  with unlock_stake_conserves [OF w', of pool_example epoch_example] w' show ?thesis
    by (auto simp: token_example_def token_coins_def user_def)
qed

text \<open>
  C6: Withdrawing pays out exactly what the token gives up. A successful withdrawal of a
  nonnegative amount to an outside account lowers the coins of the token by the amount, takes
  principal only from a token that is not active yet and only the part the free coins do not
  cover, lowers the pool's pending stake by that principal, leaves no negative free coins, and
  moves exactly the amount from the staking contract to the recipient.
\<close>

theorem withdraw_stake_conserves:
  assumes ok: "StakingPool_WithdrawStake ctx p t ti recipient amount w = Inr (pw, w')"
    and pool: "poolInfos (staking w) p = Some info"
    and cur: "EpochManager_CurrentEpoch w = Inr cur"
    and amount: "0 \<le> amount" and outside: "recipient \<noteq> StakingManagerContractAddr"
  shows "\<exists>ti'. infoMap (lst w') = (infoMap (lst w))(t \<mapsto> ti') \<and>
           token_coins ti' = token_coins ti - amount \<and> 0 \<le> Unlocked ti' \<and>
           Principal ti' = Principal ti - pw \<and>
           (pw \<noteq> 0 \<longrightarrow> Epoch cur < ActiveEpoch ti \<and> Unlocked ti' = 0 \<and> 0 \<le> Principal ti') \<and>
           (\<exists>info'. poolInfos (staking w') p = Some info' \<and>
              PendingActiveStake info' = PendingActiveStake info - pw) \<and>
           balances w' = (balances w)
             (StakingManagerContractAddr := balances w StakingManagerContractAddr - amount,
              recipient := balances w recipient + amount)"
proof -
  from ok pool cur obtain u ti' w1 w2 where
    u: "u = updateLiquidStakingTokenUnlockingRecords (ctx_Time ctx) ti"
    and pw: "pw = (if amount \<le> Unlocked u then 0 else amount - Unlocked u)"
    "pw \<noteq> 0 \<longrightarrow> Epoch cur < ActiveEpoch ti \<and> amount \<le> Principal ti + Unlocked u"
    and ti': "ti' = u\<lparr>Principal := Principal u - pw, Unlocked := Unlocked u - (amount - pw)\<rparr>"
    and w1: "w1 = LiquidStakingToken_updateInfo t ti'
       (if pw = 0 then w else putPool p (info\<lparr>PendingActiveStake := PendingActiveStake info - pw\<rparr>) w)"
    and w2: "Transfer StakingManagerContractAddr recipient amount w1 = Inr w2"
    and w': "w' = EmitEvent (EventWithdraw t recipient amount) w2"
    by (rule StakingPool_WithdrawStake_Inr)
  have "token_coins ti' = token_coins u - amount" by (simp add: ti' token_coins_def)
  then have "token_coins ti' = token_coins ti - amount" by (simp add: u)
  moreover have "0 \<le> Unlocked ti'" "Principal ti' = Principal ti - pw"
    "pw \<noteq> 0 \<longrightarrow> Epoch cur < ActiveEpoch ti \<and> Unlocked ti' = 0 \<and> 0 \<le> Principal ti'"
    using pw by (auto simp: ti' u split: if_splits)
  ultimately show ?thesis
    using Transfer_frame [OF w2] Transfer_balances [OF w2] outside pool w'
    by (intro exI [of _ ti']) (auto simp: w1 fun_eq_iff split: if_splits)
qed

theorem withdraw_stake_conserves_witness:
  "\<exists>w' ti'. StakingPool_WithdrawStake ((user 7)\<lparr>ctx_Time := 9\<rparr>) 1 1 token_example 7 45 pool_world = Inr (0, w') \<and>
     infoMap (lst w') 1 = Some ti' \<and> token_coins ti' = 305 \<and> balances w' 7 = 45"
proof -
  obtain w' where w': "StakingPool_WithdrawStake ((user 7)\<lparr>ctx_Time := 9\<rparr>) 1 1 token_example 7 45 pool_world = Inr (0, w')"
    by (simp add: StakingPool_WithdrawStake_def StakingPool_MustGetInfo_def Let_def user_def token_example_def
        updateLiquidStakingTokenUnlockingRecords_def Transfer_def)
  from withdraw_stake_conserves [OF w', of pool_example epoch_example] w' show ?thesis
    by (auto simp: token_example_def token_coins_def StakingManagerContractAddr_def)
qed



end
