(* ===== verification/Staking_Manager.thy ===== *)
theory Staking_Manager
  imports Axc_Token Staking_Pool
begin

text \<open>
  The staking contract (\<open>src/internal/executor/system/framework/staking_manager.go\<close>): the set of
  available pools, the limits per epoch, the calls of the stakers and the distribution of the
  rewards at the end of an epoch.
\<close>

section \<open>Parameters\<close>

text \<open>
  The reward rate is computed in IEEE floating point (\<open>float64\<close>, \<open>math.Exp\<close>, \<open>big.Float\<close>); the
  operations are parameters, collected in one record. \<open>f_lit n d\<close> is the literal \<open>n/d\<close>.
\<close>

record ('f, 'b) float_ops =
  f_lit :: "int \<Rightarrow> int \<Rightarrow> 'f"
  f_add :: "'f \<Rightarrow> 'f \<Rightarrow> 'f"
  f_mul :: "'f \<Rightarrow> 'f \<Rightarrow> 'f"
  f_div :: "'f \<Rightarrow> 'f \<Rightarrow> 'f"
  f_exp :: "'f \<Rightarrow> 'f"
  f_floor :: "'f \<Rightarrow> 'f"
  f_to_u64 :: "'f \<Rightarrow> u64"
  f_of_nat :: "nat \<Rightarrow> 'f"
  b_SetInt :: "int \<Rightarrow> 'b"
  b_SetUint64 :: "u64 \<Rightarrow> 'b"
  b_SetFloat64 :: "'f \<Rightarrow> 'b"
  b_Mul :: "'b \<Rightarrow> 'b \<Rightarrow> 'b"
  b_Quo :: "'b \<Rightarrow> 'b \<Rightarrow> 'b"
  b_Float64 :: "'b \<Rightarrow> 'f"
  b_Int :: "'b \<Rightarrow> int"

definition blocksPerYear :: u64 where
  "blocksPerYear = 63072000"

definition divideBigInt :: "('f, 'b) float_ops \<Rightarrow> int \<Rightarrow> int \<Rightarrow> 'f" where
  "divideBigInt fo a b = b_Float64 fo (b_Quo fo (b_SetInt fo a) (b_SetInt fo b))"

section \<open>Slots\<close>

definition putTotalStake :: "int \<Rightarrow> world \<Rightarrow> world" where
  "putTotalStake n w = w\<lparr>staking := (staking w)\<lparr>totalStake := Some n\<rparr>\<rparr>"

definition putLastEpochTotalStake :: "int \<Rightarrow> world \<Rightarrow> world" where
  "putLastEpochTotalStake n w = w\<lparr>staking := (staking w)\<lparr>lastEpochTotalStake := Some n\<rparr>\<rparr>"

definition putEpochAdd :: "int \<Rightarrow> world \<Rightarrow> world" where
  "putEpochAdd n w = w\<lparr>staking := (staking w)\<lparr>currentEpochTotalAddStake := Some n\<rparr>\<rparr>"

definition putEpochUnlock :: "int \<Rightarrow> world \<Rightarrow> world" where
  "putEpochUnlock n w = w\<lparr>staking := (staking w)\<lparr>currentEpochTotalUnlockStake := Some n\<rparr>\<rparr>"

definition putNotEnough :: "u64 list \<Rightarrow> world \<Rightarrow> world" where
  "putNotEnough ids w = w\<lparr>staking := (staking w)\<lparr>currentEpochTotalStakeNotEnoughValidators := Some ids\<rparr>\<rparr>"

definition putAvailablePools :: "u64 list \<Rightarrow> world \<Rightarrow> world" where
  "putAvailablePools ids w = w\<lparr>staking := (staking w)\<lparr>availablePools := Some ids\<rparr>\<rparr>"

definition putBlockCount :: "u64 \<Rightarrow> u64 \<Rightarrow> world \<Rightarrow> world" where
  "putBlockCount p n w =
     w\<lparr>staking := (staking w)\<lparr>proposeBlockCountTable := (proposeBlockCountTable (staking w))(p \<mapsto> n)\<rparr>\<rparr>"

definition putGasReward :: "u64 \<Rightarrow> int \<Rightarrow> world \<Rightarrow> world" where
  "putGasReward p n w =
     w\<lparr>staking := (staking w)\<lparr>gasRewardTable := (gasRewardTable (staking w))(p \<mapsto> n)\<rparr>\<rparr>"

definition putRewardPerBlock :: "int \<Rightarrow> world \<Rightarrow> world" where
  "putRewardPerBlock n w = w\<lparr>staking := (staking w)\<lparr>rewardPerBlock := Some n\<rparr>\<rparr>"

section \<open>Reward rate and total stake\<close>

definition StakingManager_UpdateStakeRewardPerBlock :: "('f, 'b) float_ops \<Rightarrow> world \<Rightarrow> world res" where
  "StakingManager_UpdateStakeRewardPerBlock fo w =
     ebind (AXC_TotalSupply w) (\<lambda>supply.
     ebind (must NotExist (totalStake (staking w))) (\<lambda>total.
     if supply < total then Inl (StakeErr ErrStakeValue)
     else
       let denominator = f_mul fo (f_lit fo 55 10) (f_add fo (f_lit fo 1 1)
             (f_exp fo (f_mul fo (f_lit fo 10 1) (divideBigInt fo total supply))));
           ratio = f_add fo (f_div fo (f_lit fo 1 1) denominator) (f_lit fo 3 100);
           multiplied = b_Mul fo (b_SetInt fo total)
             (b_Quo fo (b_SetFloat64 fo ratio) (b_SetUint64 fo blocksPerYear))
       in Inr (putRewardPerBlock (b_Int fo multiplied) w)))"

definition StakingManager_updateTotalStake :: "bool \<Rightarrow> int \<Rightarrow> world \<Rightarrow> world res" where
  "StakingManager_updateTotalStake isAdd amount w =
     (if amount = 0 then Inr w
      else ebind (must NotExist (totalStake (staking w))) (\<lambda>total.
        if isAdd then Inr (putTotalStake (total + amount) w)
        else if total < amount then Inl (StakeErr (TotalStakeLess total amount))
        else Inr (putTotalStake (total - amount) w)))"

section \<open>Available pools\<close>

definition StakingManager_addAvailableStakingPool :: "u64 \<Rightarrow> world \<Rightarrow> world res" where
  "StakingManager_addAvailableStakingPool poolID w =
     ebind (must NotExist (availablePools (staking w))) (\<lambda>pools.
     if poolID \<in> set pools then Inl (StakeErr (PoolAlreadyAvailable poolID))
     else Inr (putAvailablePools (sort (pools @ [poolID])) w))"

definition StakingManager_removeAvailableStakingPool :: "u64 \<Rightarrow> world \<Rightarrow> world res" where
  "StakingManager_removeAvailableStakingPool poolID w =
     ebind (must NotExist (availablePools (staking w))) (\<lambda>pools.
     if poolID \<notin> set pools then Inl (StakeErr (PoolNotAvailable poolID))
     else Inr (putAvailablePools (sort (removeFirst poolID pools)) w))"

definition StakingManager_DisablePool :: "u64 \<Rightarrow> world \<Rightarrow> world res" where
  "StakingManager_DisablePool poolID w =
     (if \<not> StakingPool_Exists poolID w then Inl (StakeErr PoolNotExists)
      else StakingManager_removeAvailableStakingPool poolID w)"

definition StakingManager_CreatePoolWithStake ::
  "u64 \<Rightarrow> u64 \<Rightarrow> int \<Rightarrow> bool \<Rightarrow> world \<Rightarrow> (int \<times> world) res" where
  "StakingManager_CreatePoolWithStake poolID commissionRate stake isGenesisInit w =
     ebind (EpochManager_CurrentEpoch w) (\<lambda>currentEpoch.
     ebind (NodeManager_GetInfo poolID w) (\<lambda>nodeInfo.
     ebind (StakingPool_Create poolID (Operator nodeInfo) (Epoch currentEpoch) commissionRate stake w)
       (\<lambda>(lstID, w1).
     ebind (if \<not> isGenesisInit then StakingManager_addAvailableStakingPool poolID w1 else Inr w1) (\<lambda>w2.
     Inr (lstID, putGasReward poolID 0 (putBlockCount poolID 0 w2))))))"

definition StakingManager_CreatePool :: "u64 \<Rightarrow> u64 \<Rightarrow> world \<Rightarrow> (int \<times> world) res" where
  "StakingManager_CreatePool poolID commissionRate w =
     StakingManager_CreatePoolWithStake poolID commissionRate 0 False w"

section \<open>Genesis\<close>

text \<open>The loop over the configured nodes; the index of a node plus one is its id.\<close>

fun StakingManager_genesisPools ::
  "genesis_config \<Rightarrow> nat \<Rightarrow> genesis_node list \<Rightarrow> int \<Rightarrow> u64 list \<Rightarrow> world \<Rightarrow> (int \<times> u64 list \<times> world) res" where
  "StakingManager_genesisPools genesis i [] stakeSum ids w = Inr (stakeSum, ids, w)"
| "StakingManager_genesisPools genesis i (n # ns) stakeSum ids w =
     (if \<not> gn_IsDataSyncer n then
        let nodeID = of_nat (i + 1) in
        ebind (StakingManager_CreatePoolWithStake nodeID (gn_CommissionRate n) (gn_StakeNumber n) True w)
          (\<lambda>(_, w1).
        ebind (StakingPool_GenesisInit nodeID genesis w1) (\<lambda>w2.
        StakingManager_genesisPools genesis (i + 1) ns (stakeSum + gn_StakeNumber n) (ids @ [nodeID]) w2))
      else StakingManager_genesisPools genesis (i + 1) ns stakeSum ids w)"

definition StakingManager_GenesisInit ::
  "('f, 'b) float_ops \<Rightarrow> genesis_config \<Rightarrow> world \<Rightarrow> world res" where
  "StakingManager_GenesisInit fo genesis w =
     ebind (StakingManager_genesisPools genesis 0 (Nodes genesis) 0 [] w) (\<lambda>(total, ids, w1).
     let w2 = putEpochUnlock 0 (putEpochAdd 0 (putLastEpochTotalStake total (putTotalStake total
                (AddBalance StakingManagerContractAddr total w1))))
     in ebind (StakingManager_UpdateStakeRewardPerBlock fo w2) (\<lambda>w3.
        Inr (putAvailablePools ids w3)))"

section \<open>Validators whose stake will not be enough\<close>

text \<open>
  A Go \<open>map[uint64]struct{}\<close> is the list of its keys without duplicates. The loop over
  \<open>needCheckValidators\<close> visits the keys in the order of the list, which Go leaves open.
\<close>

definition StakingManager_getActiveValidatorIDSetMap :: "world \<Rightarrow> u64 list \<times> u64 list" where
  "StakingManager_getActiveValidatorIDSetMap w =
     (uniq (NodeManager_GetActiveValidatorIDSet w), uniq (NodeManager_GetPendingInactiveIDSet w))"

definition nextEpochActiveStake :: "pool_info \<Rightarrow> int" where
  "nextEpochActiveStake info = ActiveStake info + PendingActiveStake info - PendingInactiveStake info"

fun checkValidatorStakes ::
  "epoch_info \<Rightarrow> world \<Rightarrow> u64 list \<Rightarrow> u64 list \<Rightarrow> u64 list \<Rightarrow> (u64 list \<times> u64 list) res" where
  "checkValidatorStakes currentEpoch w [] notEnough needRemove = Inr (notEnough, needRemove)"
| "checkValidatorStakes currentEpoch w (poolID # ids) notEnough needRemove =
     ebind (must NotExist (poolInfos (staking w) poolID)) (\<lambda>info.
     if nextEpochActiveStake info < MinValidatorStake (StakeParams currentEpoch)
     then checkValidatorStakes currentEpoch w ids (notEnough @ [poolID]) needRemove
     else checkValidatorStakes currentEpoch w ids notEnough (poolID # needRemove))"

definition StakingManager_checkNextEpochValidatorActiveStake ::
  "epoch_info \<Rightarrow> nat \<Rightarrow> u64 list \<Rightarrow> u64 list \<Rightarrow> world \<Rightarrow> world res" where
  "StakingManager_checkNextEpochValidatorActiveStake currentEpoch currentValidatorNum needCheck pendingInactive w =
     (let stored = (case currentEpochTotalStakeNotEnoughValidators (staking w) of None \<Rightarrow> [] | Some ids \<Rightarrow> ids) in
      ebind (checkValidatorStakes currentEpoch w needCheck stored []) (\<lambda>(notEnough, needRemove).
      let notEnough = filter (\<lambda>k. k \<notin> set needRemove) (uniq notEnough);
          leaving = uniq (pendingInactive @ notEnough)
      in if (word_of_int (int currentValidatorNum - int (length leaving)) :: u64)
              < MinValidatorNum (ConsensusParams currentEpoch)
         then Inl (StakeErr RemainValidatorsNotEnough)
         else Inr (putNotEnough notEnough w)))"

section \<open>Permissions\<close>

definition StakingManager_checkLiquidStakingTokenPermission :: "vm_ctx \<Rightarrow> int \<Rightarrow> world \<Rightarrow> lst_info res" where
  "StakingManager_checkLiquidStakingTokenPermission ctx tokenID w =
     ebind (LiquidStakingToken_mustGetInfo tokenID w) (\<lambda>info.
     if ctx_From ctx \<noteq> LiquidStakingToken_ownerOf tokenID w then Inl NoPermission else Inr info)"

definition StakingManager_checkPoolPermission :: "vm_ctx \<Rightarrow> u64 \<Rightarrow> world \<Rightarrow> unit res" where
  "StakingManager_checkPoolPermission ctx poolID w =
     ebind (NodeManager_GetInfo poolID w) (\<lambda>nodeInfo.
     if ctx_From ctx \<noteq> Operator nodeInfo then Inl NoPermission else Inr ())"

section \<open>The calls of the stakers\<close>

text \<open>\<open>ratioLimit\<close> is \<open>types.RatioLimit\<close> of axiom-kit; ratios pass through \<open>int64\<close>.\<close>

definition epochLimit :: "int \<Rightarrow> int \<Rightarrow> u64 \<Rightarrow> int" where
  "epochLimit ratioLimit lastEpochTotal ratio = bigDiv (lastEpochTotal * sint ratio) ratioLimit"

definition StakingManager_AddStake ::
  "int \<Rightarrow> vm_ctx \<Rightarrow> u64 \<Rightarrow> address \<Rightarrow> int \<Rightarrow> world \<Rightarrow> world res" where
  "StakingManager_AddStake ratioLimit ctx poolID owner amount w =
     ebind (EpochManager_CurrentEpoch w) (\<lambda>currentEpoch.
     if amount < MinDelegateStake (StakeParams currentEpoch) then Inl (StakeErr MinDelegateStakeNotMet)
     else
       ebind (must NotExist (currentEpochTotalAddStake (staking w))) (\<lambda>epochAdd.
       ebind (must NotExist (lastEpochTotalStake (staking w))) (\<lambda>lastTotal.
       let limit = epochLimit ratioLimit lastTotal (MaxAddStakeRatio (StakeParams currentEpoch));
           remain = limit - epochAdd;
           epochAdd = epochAdd + amount
       in if limit < epochAdd then Inl (StakeErr (AddStakeReachEpochLimit remain))
          else
            let (validators, pendingInactive) = StakingManager_getActiveValidatorIDSetMap w;
                involved = (if poolID \<in> set validators then [poolID] else [])
            in ebind (StakingManager_updateTotalStake True amount w) (\<lambda>w1.
               ebind (StakingPool_AddStake ctx poolID owner amount w1) (\<lambda>w2.
               ebind (StakingManager_checkNextEpochValidatorActiveStake currentEpoch (length validators)
                        involved pendingInactive w2) (\<lambda>w3.
               Inr (putEpochAdd epochAdd w3)))))))"

text \<open>
  One round of the loop of \<open>BatchUnlock\<close>; the state carries the involved validators, and a token
  info is read afresh in each round.
\<close>

definition unlockOne ::
  "vm_ctx \<Rightarrow> u64 list \<Rightarrow> int \<times> int \<Rightarrow> u64 list \<times> world \<Rightarrow> (u64 list \<times> world) res" where
  "unlockOne ctx validators = (\<lambda>(tokenID, amount) (involved, w).
     ebind (StakingManager_checkLiquidStakingTokenPermission ctx tokenID w) (\<lambda>info.
     ebind (StakingPool_UnlockStake ctx (PoolID info) tokenID info amount w) (\<lambda>w1.
     Inr (if PoolID info \<in> set validators \<and> PoolID info \<notin> set involved
          then involved @ [PoolID info] else involved, w1))))"

definition StakingManager_BatchUnlock ::
  "int \<Rightarrow> (u64 list \<Rightarrow> u64 list) \<Rightarrow> vm_ctx \<Rightarrow> int list \<Rightarrow> int list \<Rightarrow> world \<Rightarrow> world res" where
  "StakingManager_BatchUnlock ratioLimit iter ctx tokenIDs amounts w =
     (if length tokenIDs \<noteq> length amounts \<or> length tokenIDs = 0 then Inl (StakeErr InvalidArgs)
      else
        ebind (must NotExist (currentEpochTotalUnlockStake (staking w))) (\<lambda>epochUnlock.
        ebind (must NotExist (lastEpochTotalStake (staking w))) (\<lambda>lastTotal.
        let totalAmount = sum_list amounts in
        ebind (EpochManager_CurrentEpoch w) (\<lambda>currentEpoch.
        let limit = epochLimit ratioLimit lastTotal (MaxUnlockStakeRatio (StakeParams currentEpoch));
            remain = limit - epochUnlock;
            epochUnlock = epochUnlock + totalAmount
        in if limit < epochUnlock then Inl (StakeErr (UnlockStakeReachEpochLimit remain))
           else
             let (validators, pendingInactive) = StakingManager_getActiveValidatorIDSetMap w in
             ebind (efold (unlockOne ctx validators) (zip tokenIDs amounts) ([], w)) (\<lambda>(involved, w1).
             ebind (StakingManager_checkNextEpochValidatorActiveStake currentEpoch (length validators)
                      (iter involved) pendingInactive w1) (\<lambda>w2.
             ebind (StakingManager_updateTotalStake False totalAmount w2) (\<lambda>w3.
             Inr (putEpochUnlock epochUnlock w3))))))))"

definition StakingManager_Unlock ::
  "int \<Rightarrow> (u64 list \<Rightarrow> u64 list) \<Rightarrow> vm_ctx \<Rightarrow> int \<Rightarrow> int \<Rightarrow> world \<Rightarrow> world res" where
  "StakingManager_Unlock ratioLimit iter ctx tokenID amount w =
     StakingManager_BatchUnlock ratioLimit iter ctx [tokenID] [amount] w"

definition withdrawOne :: "vm_ctx \<Rightarrow> address \<Rightarrow> int \<times> int \<Rightarrow> int \<times> world \<Rightarrow> (int \<times> world) res" where
  "withdrawOne ctx recipient = (\<lambda>(tokenID, amount) (withdrawn, w).
     ebind (StakingManager_checkLiquidStakingTokenPermission ctx tokenID w) (\<lambda>info.
     ebind (StakingPool_WithdrawStake ctx (PoolID info) tokenID info recipient amount w)
       (\<lambda>(principalWithdraw, w1).
     Inr (withdrawn + principalWithdraw, w1))))"

definition StakingManager_BatchWithdraw ::
  "vm_ctx \<Rightarrow> int list \<Rightarrow> address \<Rightarrow> int list \<Rightarrow> world \<Rightarrow> world res" where
  "StakingManager_BatchWithdraw ctx tokenIDs recipient amounts w =
     (if length tokenIDs \<noteq> length amounts \<or> length tokenIDs = 0 then Inl (StakeErr InvalidArgs)
      else
        ebind (efold (withdrawOne ctx recipient) (zip tokenIDs amounts) (0, w)) (\<lambda>(withdrawn, w1).
        StakingManager_updateTotalStake False withdrawn w1))"

definition StakingManager_Withdraw :: "vm_ctx \<Rightarrow> int \<Rightarrow> address \<Rightarrow> int \<Rightarrow> world \<Rightarrow> world res" where
  "StakingManager_Withdraw ctx tokenID recipient amount w =
     StakingManager_BatchWithdraw ctx [tokenID] recipient [amount] w"

definition StakingManager_UpdatePoolCommissionRate :: "vm_ctx \<Rightarrow> u64 \<Rightarrow> u64 \<Rightarrow> world \<Rightarrow> world res" where
  "StakingManager_UpdatePoolCommissionRate ctx poolID newCommissionRate w =
     ebind (StakingManager_checkPoolPermission ctx poolID w) (\<lambda>_.
     StakingPool_UpdateCommissionRate poolID newCommissionRate w)"

section \<open>Rewards\<close>

definition StakingManager_RecordReward :: "u64 \<Rightarrow> int \<Rightarrow> world \<Rightarrow> (int \<times> world) res" where
  "StakingManager_RecordReward poolID gasReward w =
     ebind (must NotExist (proposeBlockCountTable (staking w) poolID)) (\<lambda>count.
     let w1 = putBlockCount poolID (count + 1) w;
         old = (case gasRewardTable (staking w1) poolID of None \<Rightarrow> 0 | Some g \<Rightarrow> g);
         w2 = putGasReward poolID (old + gasReward) w1
     in ebind (must NotExist (rewardPerBlock (staking w2))) (\<lambda>r. Inr (r, w2)))"

text \<open>One round of the loop over the available pools: mint, move the coins here, settle the pool.\<close>

definition StakingManager_turnPool :: "epoch_info \<Rightarrow> epoch_info \<Rightarrow> u64 \<Rightarrow> world \<Rightarrow> world res" where
  "StakingManager_turnPool oldEpoch newEpoch poolID w =
     ebind (must NotExist (rewardPerBlock (staking w))) (\<lambda>perBlock.
     ebind (must NotExist (proposeBlockCountTable (staking w) poolID)) (\<lambda>count.
     let gasReward = (case gasRewardTable (staking w) poolID of None \<Rightarrow> 0 | Some g \<Rightarrow> g);
         reward = uint count * perBlock
     in ebind (AXC_Mint reward w) (\<lambda>w1.
        let w2 = AddBalance StakingManagerContractAddr reward (SubBalance AXCContractAddr reward w1) in
        ebind (StakingPool_TurnIntoNewEpoch poolID oldEpoch newEpoch (reward + gasReward) w2) (\<lambda>w3.
        Inr (putGasReward poolID 0 (putBlockCount poolID 0 w3))))))"

definition StakingManager_TurnIntoNewEpoch ::
  "('f, 'b) float_ops \<Rightarrow> epoch_info \<Rightarrow> epoch_info \<Rightarrow> world \<Rightarrow> world res" where
  "StakingManager_TurnIntoNewEpoch fo oldEpoch newEpoch w =
     ebind (must NotExist (availablePools (staking w))) (\<lambda>pools.
     ebind (efold (StakingManager_turnPool oldEpoch newEpoch) pools w) (\<lambda>w1.
     let w2 = putNotEnough [] (putEpochUnlock 0 (putEpochAdd 0 w1)) in
     ebind (must NotExist (totalStake (staking w2))) (\<lambda>total.
     StakingManager_UpdateStakeRewardPerBlock fo (putLastEpochTotalStake total w2))))"

section \<open>Queries\<close>

definition StakingManager_PoolActiveStake :: "u64 \<Rightarrow> world \<Rightarrow> int res" where
  "StakingManager_PoolActiveStake poolID w =
     ebind (StakingPool_MustGetInfo poolID w) (\<lambda>info. Inr (ActiveStake info))"

definition StakingManager_GetPoolInfo :: "u64 \<Rightarrow> world \<Rightarrow> pool_info" where
  "StakingManager_GetPoolInfo poolID w = StakingPool_Info poolID w"

definition StakingManager_GetPoolInfos :: "u64 list \<Rightarrow> world \<Rightarrow> pool_info list" where
  "StakingManager_GetPoolInfos poolIDs w = map (\<lambda>poolID. StakingManager_GetPoolInfo poolID w) poolIDs"

definition StakingManager_GetPoolHistoryLiquidStakingTokenRate :: "u64 \<Rightarrow> u64 \<Rightarrow> world \<Rightarrow> staking_rate res" where
  "StakingManager_GetPoolHistoryLiquidStakingTokenRate poolID e w =
     StakingPool_HistoryLiquidStakingTokenRate poolID e w"

definition StakingManager_GetPoolHistoryLiquidStakingTokenRates ::
  "u64 list \<Rightarrow> u64 \<Rightarrow> world \<Rightarrow> staking_rate list res" where
  "StakingManager_GetPoolHistoryLiquidStakingTokenRates poolIDs e w =
     emap (\<lambda>poolID. StakingPool_HistoryLiquidStakingTokenRate poolID e w) poolIDs"

text \<open>The counters; an unset slot is Go's nil.\<close>

definition StakingManager_GetCurrentEpochTotalUnlockStake :: "world \<Rightarrow> int option" where
  "StakingManager_GetCurrentEpochTotalUnlockStake w = currentEpochTotalUnlockStake (staking w)"

definition StakingManager_GetCurrentEpochTotalAddStake :: "world \<Rightarrow> int option" where
  "StakingManager_GetCurrentEpochTotalAddStake w = currentEpochTotalAddStake (staking w)"

definition StakingManager_GetLastEpochTotalStake :: "world \<Rightarrow> int option" where
  "StakingManager_GetLastEpochTotalStake w = lastEpochTotalStake (staking w)"

definition StakingManager_GetTotalStake :: "world \<Rightarrow> int option" where
  "StakingManager_GetTotalStake w = totalStake (staking w)"

definition StakingManager_GetCurrentEpochTotalStakeNotEnoughValidators :: "world \<Rightarrow> u64 list option" where
  "StakingManager_GetCurrentEpochTotalStakeNotEnoughValidators w =
     currentEpochTotalStakeNotEnoughValidators (staking w)"

section \<open>Frames\<close>

lemmas staking_puts = putTotalStake_def putLastEpochTotalStake_def putEpochAdd_def putEpochUnlock_def
  putNotEnough_def putAvailablePools_def putBlockCount_def putGasReward_def putRewardPerBlock_def

lemma staking_puts_frame [simp, frame_simps]:
  "balances (putTotalStake n w) = balances w" "axc (putTotalStake n w) = axc w"
  "epochs (putTotalStake n w) = epochs w" "lst (putTotalStake n w) = lst w"
  "nodes (putTotalStake n w) = nodes w"
  "balances (putLastEpochTotalStake n w) = balances w" "axc (putLastEpochTotalStake n w) = axc w"
  "epochs (putLastEpochTotalStake n w) = epochs w" "lst (putLastEpochTotalStake n w) = lst w"
  "nodes (putLastEpochTotalStake n w) = nodes w"
  "balances (putEpochAdd n w) = balances w" "axc (putEpochAdd n w) = axc w"
  "epochs (putEpochAdd n w) = epochs w" "lst (putEpochAdd n w) = lst w"
  "nodes (putEpochAdd n w) = nodes w"
  "balances (putEpochUnlock n w) = balances w" "axc (putEpochUnlock n w) = axc w"
  "epochs (putEpochUnlock n w) = epochs w" "lst (putEpochUnlock n w) = lst w"
  "nodes (putEpochUnlock n w) = nodes w"
  "balances (putNotEnough ids w) = balances w" "axc (putNotEnough ids w) = axc w"
  "epochs (putNotEnough ids w) = epochs w" "lst (putNotEnough ids w) = lst w"
  "nodes (putNotEnough ids w) = nodes w"
  by (simp_all add: staking_puts)

lemma staking_tables_frame [simp, frame_simps]:
  "balances (putAvailablePools ids w) = balances w" "axc (putAvailablePools ids w) = axc w"
  "epochs (putAvailablePools ids w) = epochs w" "lst (putAvailablePools ids w) = lst w"
  "nodes (putAvailablePools ids w) = nodes w"
  "balances (putBlockCount p c w) = balances w" "axc (putBlockCount p c w) = axc w"
  "epochs (putBlockCount p c w) = epochs w" "lst (putBlockCount p c w) = lst w"
  "nodes (putBlockCount p c w) = nodes w"
  "balances (putGasReward p n w) = balances w" "axc (putGasReward p n w) = axc w"
  "epochs (putGasReward p n w) = epochs w" "lst (putGasReward p n w) = lst w"
  "nodes (putGasReward p n w) = nodes w"
  "balances (putRewardPerBlock n w) = balances w" "axc (putRewardPerBlock n w) = axc w"
  "epochs (putRewardPerBlock n w) = epochs w" "lst (putRewardPerBlock n w) = lst w"
  "nodes (putRewardPerBlock n w) = nodes w"
  by (simp_all add: staking_puts)

lemma pools_puts [simp]:
  "poolInfos (staking (putTotalStake n w)) = poolInfos (staking w)"
  "poolInfos (staking (putLastEpochTotalStake n w)) = poolInfos (staking w)"
  "poolInfos (staking (putEpochAdd n w)) = poolInfos (staking w)"
  "poolInfos (staking (putEpochUnlock n w)) = poolInfos (staking w)"
  "poolInfos (staking (putNotEnough ids w)) = poolInfos (staking w)"
  "poolInfos (staking (putAvailablePools ids w)) = poolInfos (staking w)"
  "poolInfos (staking (putBlockCount p c w)) = poolInfos (staking w)"
  "poolInfos (staking (putGasReward p n w)) = poolInfos (staking w)"
  "poolInfos (staking (putRewardPerBlock n w)) = poolInfos (staking w)"
  by (simp_all add: staking_puts)

lemma available_puts [simp]:
  "availablePools (staking (putTotalStake n w)) = availablePools (staking w)"
  "availablePools (staking (putLastEpochTotalStake n w)) = availablePools (staking w)"
  "availablePools (staking (putEpochAdd n w)) = availablePools (staking w)"
  "availablePools (staking (putEpochUnlock n w)) = availablePools (staking w)"
  "availablePools (staking (putNotEnough ids w)) = availablePools (staking w)"
  "availablePools (staking (putAvailablePools ids w)) = Some ids"
  "availablePools (staking (putBlockCount p c w)) = availablePools (staking w)"
  "availablePools (staking (putGasReward p n w)) = availablePools (staking w)"
  "availablePools (staking (putRewardPerBlock n w)) = availablePools (staking w)"
  by (simp_all add: staking_puts)

lemma StakingManager_updateTotalStake_Inr:
  assumes "StakingManager_updateTotalStake isAdd amount w = Inr w'"
  shows "w' = w \<or> (\<exists>n. w' = putTotalStake n w)"
  using assms by (auto simp: StakingManager_updateTotalStake_def elim!: ebind_InrE split: if_splits)

lemma StakingManager_UpdateStakeRewardPerBlock_Inr:
  assumes "StakingManager_UpdateStakeRewardPerBlock fo w = Inr w'"
  shows "\<exists>n. w' = putRewardPerBlock n w"
  using assms
  by (auto simp: StakingManager_UpdateStakeRewardPerBlock_def Let_def elim!: ebind_InrE split: if_splits)

lemma StakingManager_check_Inr:
  assumes "StakingManager_checkNextEpochValidatorActiveStake e n ids pend w = Inr w'"
  shows "\<exists>l. w' = putNotEnough l w"
  using assms
  by (auto simp: StakingManager_checkNextEpochValidatorActiveStake_def Let_def elim!: ebind_InrE
      split: if_splits)

section \<open>Distributing the rewards\<close>

definition pool_reward :: "int \<Rightarrow> world \<Rightarrow> u64 \<Rightarrow> int" where
  "pool_reward perBlock w p =
     (case proposeBlockCountTable (staking w) p of None \<Rightarrow> 0 | Some c \<Rightarrow> uint c * perBlock)"

lemma StakingPool_TurnIntoNewEpoch_frame:
  assumes "StakingPool_TurnIntoNewEpoch p old new reward w = Inr w'"
  shows "balances w' = balances w" "axc w' = axc w" "epochs w' = epochs w" "nodes w' = nodes w"
    "rewardPerBlock (staking w') = rewardPerBlock (staking w)"
    "proposeBlockCountTable (staking w') = proposeBlockCountTable (staking w)"
    "gasRewardTable (staking w') = gasRewardTable (staking w)"
    "availablePools (staking w') = availablePools (staking w)"
    "totalStake (staking w') = totalStake (staking w)"
  using assms by (auto elim!: StakingPool_TurnIntoNewEpoch_Inr simp: putPool_def putRate_def)

lemma StakingManager_turnPool_Inr:
  assumes "StakingManager_turnPool old new p w = Inr w'"
  obtains perBlock count gas w1 w3 where "rewardPerBlock (staking w) = Some perBlock"
    "proposeBlockCountTable (staking w) p = Some count"
    "gas = (case gasRewardTable (staking w) p of None \<Rightarrow> 0 | Some g \<Rightarrow> g)"
    "AXC_Mint (uint count * perBlock) w = Inr w1"
    "StakingPool_TurnIntoNewEpoch p old new (uint count * perBlock + gas)
       (AddBalance StakingManagerContractAddr (uint count * perBlock)
         (SubBalance AXCContractAddr (uint count * perBlock) w1)) = Inr w3"
    "w' = putGasReward p 0 (putBlockCount p 0 w3)"
  using assms by (auto simp: StakingManager_turnPool_def Let_def elim!: ebind_InrE)

lemma StakingManager_turnPool_effect:
  assumes ok: "StakingManager_turnPool old new p w = Inr w'"
    and rate: "rewardPerBlock (staking w) = Some perBlock" and sup: "supply_inv w"
  shows "supply_inv w'" and "rewardPerBlock (staking w') = Some perBlock"
    and "sum_balances w' = sum_balances w + pool_reward perBlock w p"
    and "balances w' = (balances w)(StakingManagerContractAddr :=
           balances w StakingManagerContractAddr + pool_reward perBlock w p)"
    and "\<And>k. k \<noteq> p \<Longrightarrow> pool_reward perBlock w' k = pool_reward perBlock w k"
    and "totalStake (staking w') = totalStake (staking w)"
proof -
  from ok rate obtain count gas w1 w3 where
    c: "proposeBlockCountTable (staking w) p = Some count"
    and mint: "AXC_Mint (uint count * perBlock) w = Inr w1"
    and turn: "StakingPool_TurnIntoNewEpoch p old new (uint count * perBlock + gas)
       (AddBalance StakingManagerContractAddr (uint count * perBlock)
         (SubBalance AXCContractAddr (uint count * perBlock) w1)) = Inr w3"
    and w': "w' = putGasReward p 0 (putBlockCount p 0 w3)"
    by (auto elim!: StakingManager_turnPool_Inr)
  define r where "r = uint count * perBlock"
  have r: "pool_reward perBlock w p = r" using c by (simp add: pool_reward_def r_def)
  note m = AXC_Mint_frame [OF mint] and t = StakingPool_TurnIntoNewEpoch_frame [OF turn]
  have bal: "balances w' = (balances w)(StakingManagerContractAddr := balances w StakingManagerContractAddr + r)"
    using m t by (auto simp: w' fun_eq_iff r_def)
  show "balances w' = (balances w)(StakingManagerContractAddr :=
      balances w StakingManagerContractAddr + pool_reward perBlock w p)"
    unfolding r by (rule bal)
  show sum: "sum_balances w' = sum_balances w + pool_reward perBlock w p"
    unfolding sum_balances_def bal sum_upd r by simp
  have "totalSupply (axc w') = Some (sum_balances w + r)"
    using mint sup t by (auto simp: w' AXC_Mint_ok_iff supply_inv_def r_def)
  then show "supply_inv w'" using sum r by (simp add: supply_inv_def)
  show "rewardPerBlock (staking w') = Some perBlock" "totalStake (staking w') = totalStake (staking w)"
    using m t rate by (simp_all add: w' staking_puts)
  show "pool_reward perBlock w' k = pool_reward perBlock w k" if "k \<noteq> p" for k
    using m t that by (simp add: w' staking_puts pool_reward_def)
qed

lemma StakingManager_turnPools_effect:
  assumes "efold (StakingManager_turnPool old new) pools w = Inr w'"
    and "rewardPerBlock (staking w) = Some perBlock" and "supply_inv w" and "distinct pools"
  shows "supply_inv w' \<and> rewardPerBlock (staking w') = Some perBlock \<and>
     sum_balances w' = sum_balances w + sum_list (map (pool_reward perBlock w) pools) \<and>
     balances w' = (balances w)(StakingManagerContractAddr :=
        balances w StakingManagerContractAddr + sum_list (map (pool_reward perBlock w) pools)) \<and>
     totalStake (staking w') = totalStake (staking w)"
  using assms
proof (induction pools arbitrary: w)
  case Nil
  then show ?case by simp
next
  case (Cons p pools)
  from Cons.prems(1) obtain w1 where one: "StakingManager_turnPool old new p w = Inr w1"
    and rest: "efold (StakingManager_turnPool old new) pools w1 = Inr w'"
    by (auto elim!: ebind_InrE)
  note eff = StakingManager_turnPool_effect [OF one Cons.prems(2,3)]
  have same: "map (pool_reward perBlock w1) pools = map (pool_reward perBlock w) pools"
    using Cons.prems(4) by (auto intro!: eff(5))
  from Cons.IH [OF rest eff(2,1), unfolded same] Cons.prems(4) eff(3,4,6)
  show ?case by (auto simp: fun_eq_iff)
qed

section \<open>Watching the validators' stake\<close>

definition short_of_stake :: "epoch_info \<Rightarrow> world \<Rightarrow> u64 \<Rightarrow> bool" where
  "short_of_stake e w k \<longleftrightarrow> (case poolInfos (staking w) k of None \<Rightarrow> False
     | Some info \<Rightarrow> nextEpochActiveStake info < MinValidatorStake (StakeParams e))"

lemma checkValidatorStakes_eq:
  "checkValidatorStakes e w ids notEnough needRemove =
     (if \<forall>k\<in>set ids. poolInfos (staking w) k \<noteq> None
      then Inr (notEnough @ filter (short_of_stake e w) ids,
                rev (filter (\<lambda>k. \<not> short_of_stake e w k) ids) @ needRemove)
      else Inl NotExist)"
  by (induction ids arbitrary: notEnough needRemove)
    (auto simp: short_of_stake_def must_def split: option.splits)

definition storedNotEnough :: "world \<Rightarrow> u64 list" where
  "storedNotEnough w =
     (case currentEpochTotalStakeNotEnoughValidators (staking w) of None \<Rightarrow> [] | Some ids \<Rightarrow> ids)"

definition nextNotEnough :: "epoch_info \<Rightarrow> u64 list \<Rightarrow> world \<Rightarrow> u64 list" where
  "nextNotEnough e ids w =
     filter (\<lambda>k. k \<notin> set (filter (\<lambda>k. \<not> short_of_stake e w k) ids))
       (uniq (storedNotEnough w @ filter (short_of_stake e w) ids))"

lemma set_nextNotEnough:
  "set (nextNotEnough e ids w) =
     {k. (k \<in> set ids \<and> short_of_stake e w k) \<or> (k \<notin> set ids \<and> k \<in> set (storedNotEnough w))}"
  by (auto simp: nextNotEnough_def)

lemma distinct_nextNotEnough [simp]: "distinct (nextNotEnough e ids w)"
  by (simp add: nextNotEnough_def)

lemma StakingManager_check_eq:
  "StakingManager_checkNextEpochValidatorActiveStake e n ids pend w =
     (if \<forall>k\<in>set ids. poolInfos (staking w) k \<noteq> None then
        if word_of_int (int n - int (length (uniq (pend @ nextNotEnough e ids w)))) < MinValidatorNum (ConsensusParams e)
        then Inl (StakeErr RemainValidatorsNotEnough)
        else Inr (putNotEnough (nextNotEnough e ids w) w)
      else Inl NotExist)"
  by (simp add: StakingManager_checkNextEpochValidatorActiveStake_def checkValidatorStakes_eq
      nextNotEnough_def storedNotEnough_def Let_def)

lemma length_uniq: "length (uniq xs) = card (set xs)"
  using distinct_card [OF distinct_uniq, of xs] by simp

section \<open>Loops over tokens keep owners\<close>

lemma StakingPool_UnlockStake_frame:
  assumes "StakingPool_UnlockStake ctx p t ti amount w = Inr w'"
  shows "ownerMap (lst w') = ownerMap (lst w)" "epochs w' = epochs w" "nodes w' = nodes w"
    "axc w' = axc w" "balances w' = balances w" "totalStake (staking w') = totalStake (staking w)"
    "availablePools (staking w') = availablePools (staking w)"
proof -
  from assms obtain info cur where r: "poolInfos (staking w) p = Some info" "EpochManager_CurrentEpoch w = Inr cur"
    by (rule StakingPool_UnlockStake_reads)
  show "ownerMap (lst w') = ownerMap (lst w)" "epochs w' = epochs w" "nodes w' = nodes w"
    "axc w' = axc w" "balances w' = balances w" "totalStake (staking w') = totalStake (staking w)"
    "availablePools (staking w') = availablePools (staking w)"
    by (rule StakingPool_UnlockStake_Inr [OF assms r], simp)+
qed

lemma StakingPool_WithdrawStake_frame:
  assumes "StakingPool_WithdrawStake ctx p t ti a amount w = Inr (pw, w')"
  shows "ownerMap (lst w') = ownerMap (lst w)" "epochs w' = epochs w" "nodes w' = nodes w"
    "axc w' = axc w" "availablePools (staking w') = availablePools (staking w)"
proof -
  from assms obtain info cur where r: "poolInfos (staking w) p = Some info" "EpochManager_CurrentEpoch w = Inr cur"
    by (rule StakingPool_WithdrawStake_reads)
  show "ownerMap (lst w') = ownerMap (lst w)" "epochs w' = epochs w" "nodes w' = nodes w"
    "axc w' = axc w" "availablePools (staking w') = availablePools (staking w)"
    by (rule StakingPool_WithdrawStake_Inr [OF assms r], simp add: Transfer_frame)+
qed

lemma ownerOf_cong:
  "ownerMap (lst w) = ownerMap (lst w') \<Longrightarrow> LiquidStakingToken_ownerOf t w = LiquidStakingToken_ownerOf t w'"
  by (simp add: LiquidStakingToken_ownerOf_def)

lemma checkLiquidStakingTokenPermission_Inr:
  "StakingManager_checkLiquidStakingTokenPermission ctx t w = Inr info \<longleftrightarrow>
     infoMap (lst w) t = Some info \<and> PoolID info \<noteq> 0 \<and> ctx_From ctx = LiquidStakingToken_ownerOf t w"
  by (auto simp: StakingManager_checkLiquidStakingTokenPermission_def LiquidStakingToken_mustGetInfo_Inr
      ebind_Inr_iff)

lemma unlockOne_Inr:
  assumes "unlockOne ctx vs (t, amount) (iv, w) = Inr (iv', w')"
  obtains info where "infoMap (lst w) t = Some info" "ctx_From ctx = LiquidStakingToken_ownerOf t w"
    "PoolID info \<noteq> 0" "StakingPool_UnlockStake ctx (PoolID info) t info amount w = Inr w'"
    "iv' = (if PoolID info \<in> set vs \<and> PoolID info \<notin> set iv then iv @ [PoolID info] else iv)"
  using assms
  by (auto simp: unlockOne_def checkLiquidStakingTokenPermission_Inr elim!: ebind_InrE split: if_splits)

lemma withdrawOne_Inr:
  assumes "withdrawOne ctx a (t, amount) (acc, w) = Inr (acc', w')"
  obtains info pw where "infoMap (lst w) t = Some info" "ctx_From ctx = LiquidStakingToken_ownerOf t w"
    "PoolID info \<noteq> 0" "StakingPool_WithdrawStake ctx (PoolID info) t info a amount w = Inr (pw, w')"
    "acc' = acc + pw"
  using assms
  by (auto simp: withdrawOne_def checkLiquidStakingTokenPermission_Inr elim!: ebind_InrE)

lemma unlockAll_owner:
  assumes "efold (unlockOne ctx vs) ps (iv, w) = Inr (iv', w')" and "(t, amount) \<in> set ps"
  shows "ctx_From ctx = LiquidStakingToken_ownerOf t w"
  using assms
proof (induction ps arbitrary: iv w)
  case (Cons p ps)
  obtain t1 a1 where p: "p = (t1, a1)" by (cases p)
  from Cons.prems(1) obtain i1 w1 where one: "unlockOne ctx vs (t1, a1) (iv, w) = Inr (i1, w1)"
    and rest: "efold (unlockOne ctx vs) ps (i1, w1) = Inr (iv', w')"
    by (auto simp: p elim!: ebind_InrE)
  from one obtain info where own: "ctx_From ctx = LiquidStakingToken_ownerOf t1 w"
    and step: "StakingPool_UnlockStake ctx (PoolID info) t1 info a1 w = Inr w1"
    by (rule unlockOne_Inr)
  show ?case
  proof (cases "(t, amount) \<in> set ps")
    case True
    then show ?thesis
      using Cons.IH [OF rest] ownerOf_cong [OF StakingPool_UnlockStake_frame(1) [OF step]] by simp
  next
    case False
    then show ?thesis using Cons.prems(2) own p by auto
  qed
qed simp

lemma withdrawAll_owner:
  assumes "efold (withdrawOne ctx a) ps (acc, w) = Inr (acc', w')" and "(t, amount) \<in> set ps"
  shows "ctx_From ctx = LiquidStakingToken_ownerOf t w"
  using assms
proof (induction ps arbitrary: acc w)
  case (Cons p ps)
  obtain t1 a1 where p: "p = (t1, a1)" by (cases p)
  from Cons.prems(1) obtain s1 w1 where one: "withdrawOne ctx a (t1, a1) (acc, w) = Inr (s1, w1)"
    and rest: "efold (withdrawOne ctx a) ps (s1, w1) = Inr (acc', w')"
    by (auto simp: p elim!: ebind_InrE)
  from one obtain info pw where own: "ctx_From ctx = LiquidStakingToken_ownerOf t1 w"
    and step: "StakingPool_WithdrawStake ctx (PoolID info) t1 info a a1 w = Inr (pw, w1)"
    by (rule withdrawOne_Inr)
  show ?case
  proof (cases "(t, amount) \<in> set ps")
    case True
    then show ?thesis
      using Cons.IH [OF rest] ownerOf_cong [OF StakingPool_WithdrawStake_frame(1) [OF step]] by simp
  next
    case False
    then show ?thesis using Cons.prems(2) own p by auto
  qed
qed simp

section \<open>Limits per epoch\<close>

text \<open>The slots of the staking contract other than the pools.\<close>

definition limit_slots :: "world \<Rightarrow> int option \<times> int option \<times> int option \<times> u64 list option" where
  "limit_slots w = (currentEpochTotalAddStake (staking w), currentEpochTotalUnlockStake (staking w),
     lastEpochTotalStake (staking w), availablePools (staking w))"

lemma limit_slots_puts [simp]:
  "limit_slots (putPool p info w) = limit_slots w" "limit_slots (putTotalStake n w) = limit_slots w"
  "limit_slots (putNotEnough ids w) = limit_slots w" "limit_slots (EmitEvent e w) = limit_slots w"
  "limit_slots (LiquidStakingToken_updateInfo t ti w) = limit_slots w"
  by (simp_all add: limit_slots_def putPool_def putTotalStake_def putNotEnough_def)

lemma limit_slots_cong: "staking w = staking w' \<Longrightarrow> limit_slots w = limit_slots w'"
  by (simp add: limit_slots_def)

lemma StakingPool_AddStake_Inr:
  assumes "StakingPool_AddStake ctx p owner amount w = Inr w'"
  obtains info cur node v t w1 where "poolInfos (staking w) p = Some info" "IsActive info"
    "ctx_Value ctx = Some v" "amount \<le> v" "nodeRegistry (nodes w) (pool_ID info) = Some node"
    "Status node = Candidate \<or> Status node = Active" "EpochManager_CurrentEpoch w = Inr cur"
    "LiquidStakingToken_Mint owner \<lparr>PoolID = pool_ID info, Principal = amount, Unlocked = 0,
       ActiveEpoch = Epoch cur + 1, UnlockingRecords = []\<rparr> w = Inr (t, w1)"
    "w' = EmitEvent (EventAddStake (pool_ID info) owner amount t)
       (putPool p (info\<lparr>PendingActiveStake := PendingActiveStake info + amount\<rparr>) w1)"
  using assms
  by (auto simp: StakingPool_AddStake_def Let_def not_less elim!: ebind_InrE split: if_splits option.splits)

lemma StakingPool_AddStake_frame:
  assumes "StakingPool_AddStake ctx p owner amount w = Inr w'"
  shows "limit_slots w' = limit_slots w" "epochs w' = epochs w" "nodes w' = nodes w"
    "balances w' = balances w" "axc w' = axc w"
proof -
  from assms obtain info m t w1 where mint: "LiquidStakingToken_Mint owner m w = Inr (t, w1)"
    and w': "w' = EmitEvent (EventAddStake (pool_ID info) owner amount t)
       (putPool p (info\<lparr>PendingActiveStake := PendingActiveStake info + amount\<rparr>) w1)"
    by (rule StakingPool_AddStake_Inr)
  note m = LiquidStakingToken_Mint_Inr [OF mint]
  show "limit_slots w' = limit_slots w" "epochs w' = epochs w" "nodes w' = nodes w"
    "balances w' = balances w" "axc w' = axc w"
    using limit_slots_cong [OF m(9)] m(6,7,8,10) by (simp_all add: w')
qed

lemma StakingPool_UnlockStake_slots:
  assumes "StakingPool_UnlockStake ctx p t ti amount w = Inr w'"
  shows "limit_slots w' = limit_slots w"
proof -
  from assms obtain info cur where r: "poolInfos (staking w) p = Some info" "EpochManager_CurrentEpoch w = Inr cur"
    by (rule StakingPool_UnlockStake_reads)
  show ?thesis by (rule StakingPool_UnlockStake_Inr [OF assms r]) simp
qed

lemma StakingPool_WithdrawStake_slots:
  assumes "StakingPool_WithdrawStake ctx p t ti a amount w = Inr (pw, w')"
  shows "limit_slots w' = limit_slots w"
proof -
  from assms obtain info cur where r: "poolInfos (staking w) p = Some info" "EpochManager_CurrentEpoch w = Inr cur"
    by (rule StakingPool_WithdrawStake_reads)
  from StakingPool_WithdrawStake_Inr [OF assms r] obtain w1 w2 ti' where
    "w1 = LiquidStakingToken_updateInfo t ti'
       (if pw = 0 then w else putPool p (info\<lparr>PendingActiveStake := PendingActiveStake info - pw\<rparr>) w)"
    "Transfer StakingManagerContractAddr a amount w1 = Inr w2"
    "w' = EmitEvent (EventWithdraw t a amount) w2" by metis
  then show ?thesis using limit_slots_cong [OF Transfer_frame(4), of _ _ _ w1 w2] by simp
qed

lemma unlockAll_frame:
  assumes "efold (unlockOne ctx vs) ps s = Inr s'"
  shows "limit_slots (snd s') = limit_slots (snd s)" "epochs (snd s') = epochs (snd s)"
    "nodes (snd s') = nodes (snd s)"
proof -
  have step: "limit_slots (snd t') = limit_slots (snd t) \<and> epochs (snd t') = epochs (snd t) \<and>
      nodes (snd t') = nodes (snd t)" if "unlockOne ctx vs x t = Inr t'" for x t t'
  proof -
    obtain k n i w i' w' where [simp]: "x = (k, n)" "t = (i, w)" "t' = (i', w')"
      by (metis surj_pair)
    from that show ?thesis
      by (auto elim!: unlockOne_Inr dest: StakingPool_UnlockStake_slots StakingPool_UnlockStake_frame)
  qed
  show "limit_slots (snd s') = limit_slots (snd s)" "epochs (snd s') = epochs (snd s)"
    "nodes (snd s') = nodes (snd s)"
    using efold_unchanged [OF assms, of "\<lambda>t. limit_slots (snd t)"] efold_unchanged [OF assms, of "\<lambda>t. epochs (snd t)"]
      efold_unchanged [OF assms, of "\<lambda>t. nodes (snd t)"] step by blast+
qed

lemma withdrawAll_frame:
  assumes "efold (withdrawOne ctx a) ps s = Inr s'"
  shows "limit_slots (snd s') = limit_slots (snd s)" "epochs (snd s') = epochs (snd s)"
    "nodes (snd s') = nodes (snd s)"
proof -
  have step: "limit_slots (snd t') = limit_slots (snd t) \<and> epochs (snd t') = epochs (snd t) \<and>
      nodes (snd t') = nodes (snd t)" if "withdrawOne ctx a x t = Inr t'" for x t t'
  proof -
    obtain k n i w i' w' where [simp]: "x = (k, n)" "t = (i, w)" "t' = (i', w')"
      by (metis surj_pair)
    from that show ?thesis
      by (auto elim!: withdrawOne_Inr dest: StakingPool_WithdrawStake_slots StakingPool_WithdrawStake_frame)
  qed
  show "limit_slots (snd s') = limit_slots (snd s)" "epochs (snd s') = epochs (snd s)"
    "nodes (snd s') = nodes (snd s)"
    using efold_unchanged [OF assms, of "\<lambda>t. limit_slots (snd t)"] efold_unchanged [OF assms, of "\<lambda>t. epochs (snd t)"]
      efold_unchanged [OF assms, of "\<lambda>t. nodes (snd t)"] step by blast+
qed

lemma StakingManager_AddStake_Inr:
  assumes "StakingManager_AddStake rl ctx p owner amount w = Inr w'"
  obtains cur add last vs pend w1 w2 w3 where "EpochManager_CurrentEpoch w = Inr cur"
    "MinDelegateStake (StakeParams cur) \<le> amount" "currentEpochTotalAddStake (staking w) = Some add"
    "lastEpochTotalStake (staking w) = Some last"
    "add + amount \<le> epochLimit rl last (MaxAddStakeRatio (StakeParams cur))"
    "StakingManager_getActiveValidatorIDSetMap w = (vs, pend)"
    "StakingManager_updateTotalStake True amount w = Inr w1"
    "StakingPool_AddStake ctx p owner amount w1 = Inr w2"
    "StakingManager_checkNextEpochValidatorActiveStake cur (length vs) (if p \<in> set vs then [p] else []) pend w2 = Inr w3"
    "w' = putEpochAdd (add + amount) w3"
proof -
  obtain vs pend where vp: "StakingManager_getActiveValidatorIDSetMap w = (vs, pend)" by fastforce
  show thesis
    using assms that [OF _ _ _ _ _ vp]
    by (auto simp: StakingManager_AddStake_def Let_def vp not_less elim!: ebind_InrE split: if_splits)
qed

lemma StakingManager_BatchUnlock_Inr:
  assumes "StakingManager_BatchUnlock rl iter ctx ts as w = Inr w'"
  obtains cur unl last vs pend inv1 w1 w2 w3 where "length ts = length as" "ts \<noteq> []"
    "EpochManager_CurrentEpoch w = Inr cur"
    "currentEpochTotalUnlockStake (staking w) = Some unl" "lastEpochTotalStake (staking w) = Some last"
    "unl + sum_list as \<le> epochLimit rl last (MaxUnlockStakeRatio (StakeParams cur))"
    "StakingManager_getActiveValidatorIDSetMap w = (vs, pend)"
    "efold (unlockOne ctx vs) (zip ts as) ([], w) = Inr (inv1, w1)"
    "StakingManager_checkNextEpochValidatorActiveStake cur (length vs) (iter inv1) pend w1 = Inr w2"
    "StakingManager_updateTotalStake False (sum_list as) w2 = Inr w3"
    "w' = putEpochUnlock (unl + sum_list as) w3"
proof -
  obtain vs pend where vp: "StakingManager_getActiveValidatorIDSetMap w = (vs, pend)" by fastforce
  show thesis
    using assms that [OF _ _ _ _ _ _ vp]
    by (auto simp: StakingManager_BatchUnlock_def Let_def vp not_less elim!: ebind_InrE split: if_splits)
qed

lemma StakingManager_BatchWithdraw_Inr:
  assumes "StakingManager_BatchWithdraw ctx ts a as w = Inr w'"
  obtains n w1 where "length ts = length as" "ts \<noteq> []"
    "efold (withdrawOne ctx a) (zip ts as) (0, w) = Inr (n, w1)"
    "StakingManager_updateTotalStake False n w1 = Inr w'"
  using assms
  by (auto simp: StakingManager_BatchWithdraw_def elim!: ebind_InrE split: if_splits)

section \<open>The calls together\<close>

datatype stake_call =
    CallAddStake vm_ctx u64 address int
  | CallUnlock vm_ctx int int
  | CallBatchUnlock vm_ctx "int list" "int list"
  | CallWithdraw vm_ctx int address int
  | CallBatchWithdraw vm_ctx "int list" address "int list"
  | CallUpdateRate vm_ctx u64 u64

fun stake_exec :: "int \<Rightarrow> (u64 list \<Rightarrow> u64 list) \<Rightarrow> stake_call \<Rightarrow> world \<Rightarrow> world res" where
  "stake_exec rl iter (CallAddStake ctx p owner n) w = StakingManager_AddStake rl ctx p owner n w"
| "stake_exec rl iter (CallUnlock ctx t n) w = StakingManager_Unlock rl iter ctx t n w"
| "stake_exec rl iter (CallBatchUnlock ctx ts ns) w = StakingManager_BatchUnlock rl iter ctx ts ns w"
| "stake_exec rl iter (CallWithdraw ctx t a n) w = StakingManager_Withdraw ctx t a n w"
| "stake_exec rl iter (CallBatchWithdraw ctx ts a ns) w = StakingManager_BatchWithdraw ctx ts a ns w"
| "stake_exec rl iter (CallUpdateRate ctx p r) w = StakingManager_UpdatePoolCommissionRate ctx p r w"

fun added_by :: "stake_call \<Rightarrow> int" where
  "added_by (CallAddStake ctx p owner n) = n"
| "added_by _ = 0"

fun unlocked_by :: "stake_call \<Rightarrow> int" where
  "unlocked_by (CallUnlock ctx t n) = n"
| "unlocked_by (CallBatchUnlock ctx ts ns) = sum_list ns"
| "unlocked_by _ = 0"

text \<open>The sum of \<open>f\<close> over the calls of a sequence that succeed.\<close>

fun successes :: "('op \<Rightarrow> 's \<Rightarrow> 'e + 's) \<Rightarrow> ('op \<Rightarrow> int) \<Rightarrow> 'op list \<Rightarrow> 's \<Rightarrow> int" where
  "successes exec f [] s = 0"
| "successes exec f (x # xs) s =
     (case exec x s of Inl _ \<Rightarrow> 0 | Inr _ \<Rightarrow> f x) + successes exec f xs (apply_tx exec x s)"

definition epoch_add :: "world \<Rightarrow> int" where
  "epoch_add w = (case currentEpochTotalAddStake (staking w) of None \<Rightarrow> 0 | Some n \<Rightarrow> n)"

definition epoch_unlock :: "world \<Rightarrow> int" where
  "epoch_unlock w = (case currentEpochTotalUnlockStake (staking w) of None \<Rightarrow> 0 | Some n \<Rightarrow> n)"

text \<open>The amounts counted in the running epoch are within the limits of that epoch.\<close>

definition limits_inv :: "int \<Rightarrow> world \<Rightarrow> bool" where
  "limits_inv rl w \<longleftrightarrow> (\<exists>e add unl last. EpochManager_CurrentEpoch w = Inr e \<and>
     currentEpochTotalAddStake (staking w) = Some add \<and>
     currentEpochTotalUnlockStake (staking w) = Some unl \<and>
     lastEpochTotalStake (staking w) = Some last \<and>
     add \<le> epochLimit rl last (MaxAddStakeRatio (StakeParams e)) \<and>
     unl \<le> epochLimit rl last (MaxUnlockStakeRatio (StakeParams e)))"

lemma StakingManager_updateTotalStake_slots:
  "StakingManager_updateTotalStake b n w = Inr w' \<Longrightarrow>
     limit_slots w' = limit_slots w \<and> epochs w' = epochs w \<and> nodes w' = nodes w"
  using StakingManager_updateTotalStake_Inr [of b n w w'] by auto

lemma StakingManager_check_slots:
  "StakingManager_checkNextEpochValidatorActiveStake e n ids pend w = Inr w' \<Longrightarrow>
     limit_slots w' = limit_slots w \<and> epochs w' = epochs w \<and> nodes w' = nodes w"
  using StakingManager_check_Inr [of e n ids pend w w'] by auto

lemma limit_slots_D:
  assumes "limit_slots w' = limit_slots w"
  shows "currentEpochTotalAddStake (staking w') = currentEpochTotalAddStake (staking w)"
    "currentEpochTotalUnlockStake (staking w') = currentEpochTotalUnlockStake (staking w)"
    "lastEpochTotalStake (staking w') = lastEpochTotalStake (staking w)"
    "availablePools (staking w') = availablePools (staking w)"
  using assms by (simp_all add: limit_slots_def)

text \<open>What a successful call does to the counters.\<close>

definition counts :: "int \<Rightarrow> int \<Rightarrow> world \<Rightarrow> world \<Rightarrow> bool" where
  "counts a u w w' \<longleftrightarrow> epochs w' = epochs w \<and> lastEpochTotalStake (staking w') = lastEpochTotalStake (staking w) \<and>
     availablePools (staking w') = availablePools (staking w) \<and>
     epoch_add w' = epoch_add w + a \<and> epoch_unlock w' = epoch_unlock w + u"

lemma counts_same: "limit_slots w' = limit_slots w \<Longrightarrow> epochs w' = epochs w \<Longrightarrow> counts 0 0 w w'"
  by (simp add: counts_def epoch_add_def epoch_unlock_def limit_slots_def)

lemma StakingManager_AddStake_counts:
  assumes "StakingManager_AddStake rl ctx p owner n w = Inr w'"
  shows "counts n 0 w w'" and "limits_inv rl w \<Longrightarrow> limits_inv rl w'"
proof -
  from assms obtain cur add last vs pend w1 w2 w3 where
    reads: "EpochManager_CurrentEpoch w = Inr cur" "currentEpochTotalAddStake (staking w) = Some add"
      "lastEpochTotalStake (staking w) = Some last"
      "add + n \<le> epochLimit rl last (MaxAddStakeRatio (StakeParams cur))"
    and steps: "StakingManager_updateTotalStake True n w = Inr w1"
      "StakingPool_AddStake ctx p owner n w1 = Inr w2"
      "StakingManager_checkNextEpochValidatorActiveStake cur (length vs) (if p \<in> set vs then [p] else []) pend w2 = Inr w3"
    and w': "w' = putEpochAdd (add + n) w3" by (rule StakingManager_AddStake_Inr)
  have same: "limit_slots w3 = limit_slots w" "epochs w3 = epochs w"
    using StakingManager_updateTotalStake_slots [OF steps(1)] StakingPool_AddStake_frame(1,2) [OF steps(2)]
      StakingManager_check_slots [OF steps(3)] by simp_all
  note s = limit_slots_D [OF same(1)]
  show "counts n 0 w w'"
    using reads same(2) s by (simp add: counts_def epoch_add_def epoch_unlock_def w' putEpochAdd_def)
  show "limits_inv rl w'" if "limits_inv rl w"
    using that reads s EpochManager_CurrentEpoch_cong [of w' w] same(2)
    by (auto simp: limits_inv_def w' putEpochAdd_def)
qed

lemma StakingManager_BatchUnlock_counts:
  assumes "StakingManager_BatchUnlock rl iter ctx ts ns w = Inr w'"
  shows "counts 0 (sum_list ns) w w'" and "limits_inv rl w \<Longrightarrow> limits_inv rl w'"
proof -
  from assms obtain cur unl last vs pend inv1 w1 w2 w3 where
    reads: "EpochManager_CurrentEpoch w = Inr cur" "currentEpochTotalUnlockStake (staking w) = Some unl"
      "lastEpochTotalStake (staking w) = Some last"
      "unl + sum_list ns \<le> epochLimit rl last (MaxUnlockStakeRatio (StakeParams cur))"
    and steps: "efold (unlockOne ctx vs) (zip ts ns) ([], w) = Inr (inv1, w1)"
      "StakingManager_checkNextEpochValidatorActiveStake cur (length vs) (iter inv1) pend w1 = Inr w2"
      "StakingManager_updateTotalStake False (sum_list ns) w2 = Inr w3"
    and w': "w' = putEpochUnlock (unl + sum_list ns) w3" by (rule StakingManager_BatchUnlock_Inr)
  have same: "limit_slots w3 = limit_slots w" "epochs w3 = epochs w"
    using unlockAll_frame(1,2) [OF steps(1)] StakingManager_check_slots [OF steps(2)]
      StakingManager_updateTotalStake_slots [OF steps(3)] by simp_all
  note s = limit_slots_D [OF same(1)]
  show "counts 0 (sum_list ns) w w'"
    using reads same(2) s by (simp add: counts_def epoch_add_def epoch_unlock_def w' putEpochUnlock_def)
  show "limits_inv rl w'" if "limits_inv rl w"
    using that reads s EpochManager_CurrentEpoch_cong [of w' w] same(2)
    by (auto simp: limits_inv_def w' putEpochUnlock_def)
qed

lemma limits_inv_same:
  assumes "limit_slots w' = limit_slots w" and "epochs w' = epochs w"
  shows "limits_inv rl w' = limits_inv rl w"
  using limit_slots_D [OF assms(1)] EpochManager_CurrentEpoch_cong [OF assms(2)]
  by (simp add: limits_inv_def)

lemma StakingManager_BatchWithdraw_slots:
  assumes "StakingManager_BatchWithdraw ctx ts a ns w = Inr w'"
  shows "limit_slots w' = limit_slots w" "epochs w' = epochs w" "nodes w' = nodes w"
proof -
  from assms obtain n w1 where "efold (withdrawOne ctx a) (zip ts ns) (0, w) = Inr (n, w1)"
    "StakingManager_updateTotalStake False n w1 = Inr w'"
    by (rule StakingManager_BatchWithdraw_Inr)
  then show "limit_slots w' = limit_slots w" "epochs w' = epochs w" "nodes w' = nodes w"
    using withdrawAll_frame [of ctx a "zip ts ns" "(0, w)" "(n, w1)"]
      StakingManager_updateTotalStake_slots [of False n w1 w'] by auto
qed

lemma StakingManager_UpdatePoolCommissionRate_Inr:
  assumes "StakingManager_UpdatePoolCommissionRate ctx p r w = Inr w'"
  obtains info node where "nodeRegistry (nodes w) p = Some node" "ctx_From ctx = Operator node"
    "poolInfos (staking w) p = Some info" "r \<le> CommissionRateDenominator"
    "w' = putPool p (info\<lparr>NextEpochCommissionRate := r\<rparr>) w"
  using assms
  by (auto simp: StakingManager_UpdatePoolCommissionRate_def StakingManager_checkPoolPermission_def
      StakingPool_UpdateCommissionRate_def elim!: ebind_InrE split: if_splits)

lemma StakingManager_UpdatePoolCommissionRate_slots:
  assumes "StakingManager_UpdatePoolCommissionRate ctx p r w = Inr w'"
  shows "limit_slots w' = limit_slots w" "epochs w' = epochs w"
  by (rule StakingManager_UpdatePoolCommissionRate_Inr [OF assms], simp)+

lemma stake_exec_counts:
  assumes "stake_exec rl iter x w = Inr w'"
  shows "counts (added_by x) (unlocked_by x) w w'"
proof (cases x)
  case (CallUnlock ctx t n)
  then show ?thesis
    using assms StakingManager_BatchUnlock_counts(1) [of rl iter ctx "[t]" "[n]" w w']
    by (simp add: StakingManager_Unlock_def)
qed (use assms in \<open>auto simp: StakingManager_Withdraw_def
       dest: StakingManager_AddStake_counts StakingManager_BatchUnlock_counts(1)
       intro: counts_same StakingManager_BatchWithdraw_slots StakingManager_UpdatePoolCommissionRate_slots\<close>)

lemma stake_exec_limits:
  assumes "limits_inv rl w" and "stake_exec rl iter x w = Inr w'"
  shows "limits_inv rl w'"
  using assms
  by (cases x)
    (auto simp: StakingManager_Unlock_def StakingManager_Withdraw_def
      limits_inv_same [OF StakingManager_BatchWithdraw_slots(1,2)]
      limits_inv_same [OF StakingManager_UpdatePoolCommissionRate_slots]
      dest: StakingManager_AddStake_counts(2) StakingManager_BatchUnlock_counts(2))

interpretation stake_limits: contract_machine "stake_exec rl iter" "\<lambda>_. True" "limits_inv rl" for rl iter
  by unfold_locales (rule stake_exec_limits)

lemma run_counts:
  "counts (successes (stake_exec rl iter) added_by xs w) (successes (stake_exec rl iter) unlocked_by xs w)
     w (run_txs (stake_exec rl iter) xs w)"
proof (induction xs arbitrary: w)
  case Nil
  then show ?case by (simp add: counts_def)
next
  case (Cons x xs)
  have "counts (case stake_exec rl iter x w of Inl _ \<Rightarrow> 0 | Inr _ \<Rightarrow> added_by x)
      (case stake_exec rl iter x w of Inl _ \<Rightarrow> 0 | Inr _ \<Rightarrow> unlocked_by x) w (apply_tx (stake_exec rl iter) x w)"
    using stake_exec_counts [of rl iter x w]
    by (auto simp: apply_tx_def counts_def split: sum.split)
  then show ?case using Cons.IH [of "apply_tx (stake_exec rl iter) x w"] by (simp add: counts_def)
qed

lemma turnPools_reset:
  assumes "efold (StakingManager_turnPool old new) pools w = Inr w'" and "p \<in> set pools"
  shows "proposeBlockCountTable (staking w') p = Some 0 \<and> gasRewardTable (staking w') p = Some 0"
  using assms
proof (induction pools arbitrary: w' rule: rev_induct)
  case (snoc q pools)
  from snoc.prems(1) obtain w1 where rest: "efold (StakingManager_turnPool old new) pools w = Inr w1"
    and one: "StakingManager_turnPool old new q w1 = Inr w'"
    by (auto simp: efold_append elim!: ebind_InrE)
  have "proposeBlockCountTable (staking w') = (proposeBlockCountTable (staking w1))(q \<mapsto> 0) \<and>
      gasRewardTable (staking w') = (gasRewardTable (staking w1))(q \<mapsto> 0)"
    by (rule StakingManager_turnPool_Inr [OF one])
      (simp add: staking_puts AXC_Mint_frame StakingPool_TurnIntoNewEpoch_frame)
  then show ?case using snoc.IH [OF rest] snoc.prems(2) by auto
qed simp

section \<open>Properties\<close>

text \<open>The example state: one available pool with ten proposed blocks, four validators.\<close>

definition stake_world :: world where
  "stake_world = pool_world
     \<lparr>axc := \<lparr>totalSupply = Some 5000\<rparr>,
      lst := (lst pool_world)\<lparr>ownerMap := [1 \<mapsto> 7]\<rparr>,
      nodes := (nodes pool_world)\<lparr>activeValidatorVotingPowers :=
        Some (map (\<lambda>k. \<lparr>NodeID = k, ConsensusVotingPower = 1\<rparr>) [11, 12, 13, 14])\<rparr>,
      staking := (staking pool_world)
        \<lparr>availablePools := Some [1], rewardPerBlock := Some 7, proposeBlockCountTable := [1 \<mapsto> 10],
         gasRewardTable := [1 \<mapsto> 3], totalStake := Some 1050, lastEpochTotalStake := Some 1000,
         currentEpochTotalAddStake := Some 50, currentEpochTotalUnlockStake := Some 100\<rparr>\<rparr>"

lemma stake_world_fields [simp]:
  "poolInfos (staking stake_world) = [1 \<mapsto> pool_example]"
  "poolRates (staking stake_world) p = Map.empty"
  "infoMap (lst stake_world) = [1 \<mapsto> token_example]" "ownerMap (lst stake_world) = [1 \<mapsto> 7]"
  "totalSupply (axc stake_world) = Some 5000"
  "availablePools (staking stake_world) = Some [1]" "rewardPerBlock (staking stake_world) = Some 7"
  "proposeBlockCountTable (staking stake_world) = [1 \<mapsto> 10]"
  "gasRewardTable (staking stake_world) = [1 \<mapsto> 3]"
  "totalStake (staking stake_world) = Some 1050" "lastEpochTotalStake (staking stake_world) = Some 1000"
  "currentEpochTotalAddStake (staking stake_world) = Some 50"
  "currentEpochTotalUnlockStake (staking stake_world) = Some 100"
  "EpochManager_CurrentEpoch stake_world = Inr epoch_example"
  "balances stake_world = (\<lambda>_. 0)(StakingManagerContractAddr := 5000)"
  using EpochManager_CurrentEpoch_cong [of stake_world pool_world]
  by (simp_all add: stake_world_def token_example_def)

lemma stake_world_supply: "supply_inv stake_world"
  unfolding supply_inv_def sum_balances_def by (simp only: stake_world_fields sum_upd) simp

text \<open>Whole-number arithmetic in place of floats, to run the example.\<close>

definition int_float :: "(int, int) float_ops" where
  "int_float = \<lparr>f_lit = (div), f_add = (+), f_mul = (*), f_div = (div), f_exp = (\<lambda>x. x + 1),
     f_floor = (\<lambda>x. x), f_to_u64 = word_of_int, f_of_nat = int, b_SetInt = (\<lambda>x. x),
     b_SetUint64 = uint, b_SetFloat64 = (\<lambda>x. x), b_Mul = (*), b_Quo = (div), b_Float64 = (\<lambda>x. x),
     b_Int = (\<lambda>x. x)\<rparr>"

text \<open>
  C16: The rewards of an epoch are minted exactly. When the staking contract turns the epoch,
  the recorded supply and the sum of all balances grow by the same amount, the number of blocks
  each available pool proposed times the reward per block; the staking contract receives all
  of it and no other balance changes; every pool's block and gas counters start again at zero;
  and the limits of the new epoch are based on the total stake at this moment.
\<close>

theorem epoch_rewards_minted:
  assumes ok: "StakingManager_TurnIntoNewEpoch fo old new w = Inr w'" and sup: "supply_inv w"
    and pools: "availablePools (staking w) = Some pools" "distinct pools"
    and rate: "rewardPerBlock (staking w) = Some perBlock"
  shows "supply_inv w' \<and>
         sum_balances w' = sum_balances w + sum_list (map (pool_reward perBlock w) pools) \<and>
         balances w' = (balances w)(StakingManagerContractAddr :=
           balances w StakingManagerContractAddr + sum_list (map (pool_reward perBlock w) pools)) \<and>
         (\<forall>p\<in>set pools. proposeBlockCountTable (staking w') p = Some 0 \<and> gasRewardTable (staking w') p = Some 0) \<and>
         lastEpochTotalStake (staking w') = totalStake (staking w) \<and>
         epoch_add w' = 0 \<and> epoch_unlock w' = 0 \<and> storedNotEnough w' = []"
proof -
  from ok pools(1) obtain w1 total n where
    loop: "efold (StakingManager_turnPool old new) pools w = Inr w1"
    and total: "totalStake (staking w1) = Some total"
    and w': "w' = putRewardPerBlock n (putLastEpochTotalStake total (putNotEnough [] (putEpochUnlock 0 (putEpochAdd 0 w1))))"
    by (auto simp: StakingManager_TurnIntoNewEpoch_def Let_def staking_puts
        elim!: ebind_InrE dest!: StakingManager_UpdateStakeRewardPerBlock_Inr)
  note eff = StakingManager_turnPools_effect [OF loop rate sup pools(2)]
  have "sum_balances w' = sum_balances w1" "supply_inv w' = supply_inv w1"
    by (simp_all add: w' sum_balances_def supply_inv_def)
  then show ?thesis
    using eff turnPools_reset [OF loop] total
    by (simp add: w' staking_puts epoch_add_def epoch_unlock_def storedNotEnough_def)
qed

theorem epoch_rewards_minted_witness:
  "\<exists>w'. StakingManager_TurnIntoNewEpoch int_float epoch_example (epoch_example\<lparr>Epoch := 2\<rparr>) stake_world = Inr w' \<and>
     sum_balances w' = sum_balances stake_world + 70 \<and> balances w' StakingManagerContractAddr = 5070"
proof -
  have "\<exists>w'. StakingManager_TurnIntoNewEpoch int_float epoch_example (epoch_example\<lparr>Epoch := 2\<rparr>) stake_world = Inr w'"
    by (simp add: StakingManager_TurnIntoNewEpoch_def StakingManager_turnPool_def Let_def AXC_Mint_def
        StakingPool_TurnIntoNewEpoch_def StakingPool_MustGetInfo_def LiquidStakingToken_mustGetInfo_def
        LiquidStakingToken_GetInfo_def pool_example_def token_example_def staking_puts AXC_TotalSupply_def
        StakingPool_HistoryLiquidStakingTokenRate_def StakingManager_UpdateStakeRewardPerBlock_def
        putPool_def putRate_def LiquidStakingToken_updateInfo_def
        split: prod.split)
  then obtain w' where w': "StakingManager_TurnIntoNewEpoch int_float epoch_example (epoch_example\<lparr>Epoch := 2\<rparr>) stake_world = Inr w'"
    by blast
  from epoch_rewards_minted [OF this stake_world_supply] w' show ?thesis
    by (auto simp: pool_reward_def)
qed

text \<open>
  C14: Only the owner moves stake. A batch of unlocks, or of withdrawals, that succeeds was sent
  by the owner of every token in it.
\<close>

theorem only_owner_moves_stake:
  "(StakingManager_BatchUnlock rl iter ctx ts ns w = Inr w' \<longrightarrow>
      (\<forall>t\<in>set ts. LiquidStakingToken_ownerOf t w = ctx_From ctx)) \<and>
   (StakingManager_BatchWithdraw ctx ts a ns w = Inr w' \<longrightarrow>
      (\<forall>t\<in>set ts. LiquidStakingToken_ownerOf t w = ctx_From ctx))"
proof -
  have mem: "\<exists>n. (t, n) \<in> set (zip ts ns)" if "length ts = length ns" "t \<in> set ts" for t
    using that by (metis fst_conv imageE list.set_map map_fst_zip prod.collapse)
  show ?thesis
    by (auto elim!: StakingManager_BatchUnlock_Inr StakingManager_BatchWithdraw_Inr
        dest!: mem dest: unlockAll_owner withdrawAll_owner)
qed

theorem only_owner_moves_stake_witness:
  "(\<exists>w'. StakingManager_BatchWithdraw (user 7) [1] 7 [10] stake_world = Inr w') \<and>
   LiquidStakingToken_ownerOf 1 stake_world = 7 \<and>
   (\<forall>w'. StakingManager_BatchUnlock 10000 (\<lambda>l. l) (user 8) [1] [300] stake_world \<noteq> Inr w')"
proof -
  have "\<exists>w'. StakingManager_BatchWithdraw (user 7) [1] 7 [10] stake_world = Inr w'"
    by (simp add: StakingManager_BatchWithdraw_def withdrawOne_def user_def Transfer_def
        StakingManager_checkLiquidStakingTokenPermission_def LiquidStakingToken_mustGetInfo_def
        LiquidStakingToken_GetInfo_def LiquidStakingToken_ownerOf_def Let_def token_example_def
        StakingPool_WithdrawStake_def StakingPool_MustGetInfo_def StakingManager_updateTotalStake_def
        updateLiquidStakingTokenUnlockingRecords_def)
  then show ?thesis
    using only_owner_moves_stake [of 10000 "\<lambda>l. l" "user 7" "[1]" "[10]" stake_world _ 7]
      only_owner_moves_stake [of 10000 "\<lambda>l. l" "user 8" "[1]" "[300]" stake_world _ 8]
    by (force simp: user_def)
qed

text \<open>
  C15: The limits of an epoch hold for every sequence of calls. Starting an epoch with both
  counters at zero and limits that are not negative, whatever calls follow and whichever of
  them fail and are reverted, the amounts of all successful \<open>AddStake\<close> calls add up to at most the
  add limit of the epoch, and the amounts of all successful unlocks to at most its unlock limit.
\<close>

theorem epoch_limits_hold:
  assumes cur: "EpochManager_CurrentEpoch w = Inr e"
    and zero: "currentEpochTotalAddStake (staking w) = Some 0" "currentEpochTotalUnlockStake (staking w) = Some 0"
    and base: "lastEpochTotalStake (staking w) = Some base0"
    and limits: "0 \<le> epochLimit rl base0 (MaxAddStakeRatio (StakeParams e))"
      "0 \<le> epochLimit rl base0 (MaxUnlockStakeRatio (StakeParams e))"
  shows "successes (stake_exec rl iter) added_by calls w \<le> epochLimit rl base0 (MaxAddStakeRatio (StakeParams e)) \<and>
         successes (stake_exec rl iter) unlocked_by calls w \<le> epochLimit rl base0 (MaxUnlockStakeRatio (StakeParams e))"
proof -
  have "limits_inv rl w" using assms by (auto simp: limits_inv_def)
  then have inv: "limits_inv rl (run_txs (stake_exec rl iter) calls w)"
    by (rule stake_limits.run_txs_inv) (simp add: list_all_iff)
  note run = run_counts [of rl iter calls w, unfolded counts_def]
  have "EpochManager_CurrentEpoch (run_txs (stake_exec rl iter) calls w) = Inr e"
    using run cur EpochManager_CurrentEpoch_cong by metis
  then show ?thesis
    using inv run zero base by (auto simp: limits_inv_def epoch_add_def epoch_unlock_def)
qed

theorem epoch_limits_hold_witness:
  "successes (stake_exec 10000 (\<lambda>l. l)) unlocked_by
     [CallUnlock (user 7) 1 60, CallUnlock (user 7) 1 60]
     (stake_world\<lparr>staking := (staking stake_world)
        \<lparr>currentEpochTotalAddStake := Some 0, currentEpochTotalUnlockStake := Some 0\<rparr>\<rparr>) \<le> 100"
proof -
  let ?w = "stake_world\<lparr>staking := (staking stake_world)
        \<lparr>currentEpochTotalAddStake := Some 0, currentEpochTotalUnlockStake := Some 0\<rparr>\<rparr>"
  have "EpochManager_CurrentEpoch ?w = Inr epoch_example"
    using EpochManager_CurrentEpoch_cong [of ?w stake_world] by simp
  from epoch_limits_hold [OF this, of 1000 10000 "\<lambda>l. l"] show ?thesis
    by (simp add: epochLimit_def del: successes.simps)
qed

text \<open>
  C19: The watch on validators that will fall short. When the check succeeds, the stored list has
  no duplicates; a pool that was checked is on it exactly if its stake in the next epoch will be
  below the minimum, and a pool that was not checked is on it exactly if it was before; if no
  more validators leave than there are, at least the required number remains; and running
  the check over the same pools in any other order also succeeds and stores the same pools.
\<close>

theorem validator_watch_exact:
  assumes ok: "StakingManager_checkNextEpochValidatorActiveStake e n ids pend w = Inr w'"
    and size: "n < 2 ^ 64"
  shows "\<exists>l. currentEpochTotalStakeNotEnoughValidators (staking w') = Some l \<and> distinct l \<and>
           (\<forall>k. k \<in> set l \<longleftrightarrow> (if k \<in> set ids then short_of_stake e w k else k \<in> set (storedNotEnough w))) \<and>
           (card (set pend \<union> set l) \<le> n \<longrightarrow>
              unat (MinValidatorNum (ConsensusParams e)) \<le> n - card (set pend \<union> set l)) \<and>
           (\<forall>ids'. set ids' = set ids \<longrightarrow>
              (\<exists>l'. StakingManager_checkNextEpochValidatorActiveStake e n ids' pend w = Inr (putNotEnough l' w) \<and>
                 mset l' = mset l))"
proof -
  let ?l = "nextNotEnough e ids w" and ?c = "card (set pend \<union> set (nextNotEnough e ids w))"
  from ok have pools: "\<forall>k\<in>set ids. poolInfos (staking w) k \<noteq> None"
    and enough: "\<not> word_of_int (int n - int ?c) < MinValidatorNum (ConsensusParams e)"
    and w': "w' = putNotEnough ?l w"
    by (auto simp: StakingManager_check_eq length_uniq split: if_splits)
  have "unat (MinValidatorNum (ConsensusParams e)) \<le> n - ?c" if "?c \<le> n"
  proof -
    have "word_of_int (int n - int ?c) = (of_nat (n - ?c) :: u64)"
      using that by (simp flip: of_nat_diff)
    moreover have "unat (of_nat (n - ?c) :: u64) = n - ?c"
      using size by (simp add: unat_of_nat)
    ultimately show ?thesis using enough by (simp add: word_less_nat_alt)
  qed
  moreover have "\<exists>l'. StakingManager_checkNextEpochValidatorActiveStake e n ids' pend w = Inr (putNotEnough l' w) \<and>
      mset l' = mset ?l" if "set ids' = set ids" for ids'
  proof -
    have same: "set (nextNotEnough e ids' w) = set ?l" using that by (simp add: set_nextNotEnough)
    then have "mset (nextNotEnough e ids' w) = mset ?l"
      by (simp add: set_eq_iff_mset_eq_distinct)
    then show ?thesis
      using pools enough that same
      by (intro exI [of _ "nextNotEnough e ids' w"]) (simp add: StakingManager_check_eq length_uniq)
  qed
  ultimately show ?thesis
    by (intro exI [of _ ?l]) (auto simp: w' putNotEnough_def set_nextNotEnough)
qed

theorem validator_watch_exact_witness:
  "\<exists>w' l. StakingManager_checkNextEpochValidatorActiveStake epoch_example 5 [1] [] stake_world = Inr w' \<and>
     currentEpochTotalStakeNotEnoughValidators (staking w') = Some l \<and> 1 \<in> set l"
proof -
  have short: "short_of_stake epoch_example stake_world 1"
    by (simp add: short_of_stake_def nextEpochActiveStake_def pool_example_def)
  have "storedNotEnough stake_world = []"
    by (simp add: storedNotEnough_def stake_world_def pool_world_def empty_world_def)
  then have "nextNotEnough epoch_example [1] stake_world = [1]"
    using short by (simp add: nextNotEnough_def uniq_def)
  then obtain w' where w': "StakingManager_checkNextEpochValidatorActiveStake epoch_example 5 [1] [] stake_world = Inr w'"
    by (simp add: StakingManager_check_eq uniq_def)
  from validator_watch_exact [OF this] w' short show ?thesis by auto
qed

end
