(* ===== verification/Token_Views.thy ===== *)
theory Token_Views
  imports Staking_Manager
begin

text \<open>
  The read-only calls of the liquid staking token contract that depend on the pools
  (\<open>src/internal/executor/system/framework/liquid_staking_token.go\<close>): what a token has earned,
  what is locked, unlocking and free. They are tied to what the staking calls really pay.
\<close>

section \<open>The calls\<close>

definition LiquidStakingToken_lockedReward :: "lst_info \<Rightarrow> world \<Rightarrow> int res" where
  "LiquidStakingToken_lockedReward info w =
     ebind (EpochManager_CurrentEpoch w) (\<lambda>currentEpoch.
     if ActiveEpoch info - 1 = Epoch currentEpoch \<or> ActiveEpoch info = Epoch currentEpoch then Inr 0
     else
       ebind (StakingManager_GetPoolHistoryLiquidStakingTokenRate (PoolID info) (ActiveEpoch info - 1) w)
         (\<lambda>stakingRate.
       ebind (StakingManager_GetPoolHistoryLiquidStakingTokenRate (PoolID info) (Epoch currentEpoch - 1) w)
         (\<lambda>lastRate.
       Inr (calculatePrincipalAndReward stakingRate lastRate (Principal info) - Principal info))))"

definition LiquidStakingToken_GetLockedReward :: "int \<Rightarrow> world \<Rightarrow> int res" where
  "LiquidStakingToken_GetLockedReward tokenID w =
     (case infoMap (lst w) tokenID of None \<Rightarrow> Inr 0
      | Some info \<Rightarrow> LiquidStakingToken_lockedReward info w)"

definition LiquidStakingToken_GetUnlockingCoin :: "vm_ctx \<Rightarrow> int \<Rightarrow> world \<Rightarrow> int" where
  "LiquidStakingToken_GetUnlockingCoin ctx tokenID w =
     (case infoMap (lst w) tokenID of None \<Rightarrow> 0
      | Some info \<Rightarrow> foldl (\<lambda>acc record. if ctx_Time ctx < UnlockTimestamp record then acc + Amount record else acc)
          0 (UnlockingRecords info))"

definition LiquidStakingToken_GetUnlockedCoin :: "vm_ctx \<Rightarrow> int \<Rightarrow> world \<Rightarrow> int" where
  "LiquidStakingToken_GetUnlockedCoin ctx tokenID w =
     (case infoMap (lst w) tokenID of None \<Rightarrow> 0
      | Some info \<Rightarrow> foldl (\<lambda>acc record. if UnlockTimestamp record \<le> ctx_Time ctx then acc + Amount record else acc)
          (Unlocked info) (UnlockingRecords info))"

definition LiquidStakingToken_getLockedCoin :: "lst_info \<Rightarrow> world \<Rightarrow> int res" where
  "LiquidStakingToken_getLockedCoin info w =
     ebind (EpochManager_CurrentEpoch w) (\<lambda>currentEpoch.
     if Epoch currentEpoch < ActiveEpoch info then Inr 0
     else if ActiveEpoch info = Epoch currentEpoch then Inr (Principal info)
     else ebind (LiquidStakingToken_lockedReward info w) (\<lambda>lockedReward.
       Inr (lockedReward + Principal info)))"

definition LiquidStakingToken_GetLockedCoin :: "int \<Rightarrow> world \<Rightarrow> int res" where
  "LiquidStakingToken_GetLockedCoin tokenID w =
     (case infoMap (lst w) tokenID of None \<Rightarrow> Inr 0
      | Some info \<Rightarrow> LiquidStakingToken_getLockedCoin info w)"

definition LiquidStakingToken_GetTotalCoin :: "int \<Rightarrow> world \<Rightarrow> int res" where
  "LiquidStakingToken_GetTotalCoin tokenID w =
     (case infoMap (lst w) tokenID of None \<Rightarrow> Inr 0
      | Some info \<Rightarrow>
          ebind (LiquidStakingToken_lockedReward info w) (\<lambda>lockedReward.
          Inr (foldl (\<lambda>acc record. acc + Amount record) (Principal info + lockedReward)
                 (UnlockingRecords info))))"

definition LiquidStakingToken_Name :: string where
  "LiquidStakingToken_Name = ''liquid staking AXC''"

definition LiquidStakingToken_Symbol :: string where
  "LiquidStakingToken_Symbol = ''lstAXC''"

section \<open>Sums\<close>

lemma foldl_if_add:
  fixes f :: "'a \<Rightarrow> int"
  shows "foldl (\<lambda>acc r. if P r then acc + f r else acc) n rs = n + sum_list (map f (filter P rs))"
  by (induction rs arbitrary: n) auto

lemma foldl_add:
  fixes f :: "'a \<Rightarrow> int"
  shows "foldl (\<lambda>acc r. acc + f r) n rs = n + sum_list (map f rs)"
  by (induction rs arbitrary: n) auto

lemma GetUnlockedCoin_refresh:
  assumes "infoMap (lst w) t = Some info"
  shows "LiquidStakingToken_GetUnlockedCoin ctx t w =
           Unlocked (updateLiquidStakingTokenUnlockingRecords (ctx_Time ctx) info)"
    and "LiquidStakingToken_GetUnlockingCoin ctx t w =
           sum_list (map Amount (UnlockingRecords (updateLiquidStakingTokenUnlockingRecords (ctx_Time ctx) info)))"
  using assms
  by (simp_all add: LiquidStakingToken_GetUnlockedCoin_def LiquidStakingToken_GetUnlockingCoin_def
      foldl_if_add updateLiquidStakingTokenUnlockingRecords_eq not_le)

lemma unlockValue_refresh:
  "unlockValue p (updateLiquidStakingTokenUnlockingRecords ts info) e w = unlockValue p info e w"
  unfolding unlockValue_def updateRecords_fields ..

lemma getLockedCoin_unlockValue:
  assumes "EpochManager_CurrentEpoch w = Inr e" and "ActiveEpoch info \<le> Epoch e"
    and "ActiveEpoch info - 1 \<noteq> Epoch e" and "poolInfos (staking w) (PoolID info) \<noteq> None"
  shows "\<exists>l v. unlockValue (PoolID info) info e w = Inr (l, v) \<and>
           LiquidStakingToken_getLockedCoin info w = Inr v"
  using assms
  by (auto simp: unlockValue_def LiquidStakingToken_getLockedCoin_def LiquidStakingToken_lockedReward_def
      StakingManager_GetPoolHistoryLiquidStakingTokenRate_def StakingPool_MustGetInfo_def
      StakingPool_HistoryLiquidStakingTokenRate_def Let_def)

section \<open>Properties\<close>

text \<open>
  C21: The views agree with the payments. For a token that is active, of an existing pool:
  \<open>GetLockedCoin\<close> is exactly the value at which an unlock prices the token, so an unlock for more
  fails; and a withdrawal succeeds exactly if the amount is at most \<open>GetUnlockedCoin\<close> and the
  contract can pay it.
\<close>

theorem views_match_payments:
  assumes tok: "infoMap (lst w) t = Some info" and cur: "EpochManager_CurrentEpoch w = Inr e"
    and active: "ActiveEpoch info \<le> Epoch e" "ActiveEpoch info - 1 \<noteq> Epoch e"
    and pool: "poolInfos (staking w) (PoolID info) = Some pl" and n: "0 < n"
  shows "\<exists>v. LiquidStakingToken_GetLockedCoin t w = Inr v \<and>
           (v < n \<longrightarrow> StakingPool_UnlockStake ctx (PoolID info) t info n w = Inl (PoolErr (AmountNotEnough v n))) \<and>
           (\<forall>w'. StakingPool_UnlockStake ctx (PoolID info) t info n w = Inr w' \<longrightarrow> n \<le> v) \<and>
           ((\<exists>pw w'. StakingPool_WithdrawStake ctx (PoolID info) t info a n w = Inr (pw, w')) \<longleftrightarrow>
              n \<le> LiquidStakingToken_GetUnlockedCoin ctx t w \<and> n \<le> balances w StakingManagerContractAddr)"
proof -
  let ?u = "updateLiquidStakingTokenUnlockingRecords (ctx_Time ctx) info"
  from getLockedCoin_unlockValue [OF cur active] pool obtain l v where
    v: "unlockValue (PoolID info) info e w = Inr (l, v)" "LiquidStakingToken_getLockedCoin info w = Inr v"
    by auto
  have locked: "LiquidStakingToken_GetLockedCoin t w = Inr v"
    using tok v(2) by (simp add: LiquidStakingToken_GetLockedCoin_def)
  have less: "StakingPool_UnlockStake ctx (PoolID info) t info n w = Inl (PoolErr (AmountNotEnough v n))"
    if "v < n"
    using that active(2) cur pool v(1)
    by (simp add: StakingPool_UnlockStake_def StakingPool_MustGetInfo_def Let_def unlockValue_refresh)
  have "(\<exists>pw w'. StakingPool_WithdrawStake ctx (PoolID info) t info a n w = Inr (pw, w')) \<longleftrightarrow>
      n \<le> Unlocked ?u \<and> n \<le> balances w StakingManagerContractAddr"
    using active(1) cur pool n
    by (auto simp: StakingPool_WithdrawStake_def StakingPool_MustGetInfo_def Let_def Transfer_def not_less)
  moreover have "n \<le> v" if "StakingPool_UnlockStake ctx (PoolID info) t info n w = Inr w'" for w'
    using less that by (cases "v < n") simp_all
  ultimately show ?thesis
    using locked less GetUnlockedCoin_refresh(1) [OF tok, of ctx] by (intro exI [of _ v]) simp
qed

theorem views_match_payments_witness:
  "\<exists>v. LiquidStakingToken_GetLockedCoin 1 stake_world = Inr v \<and>
     ((\<exists>pw w'. StakingPool_WithdrawStake (user 7) 1 1 token_example 7 20 stake_world = Inr (pw, w')) \<longleftrightarrow>
        20 \<le> LiquidStakingToken_GetUnlockedCoin (user 7) 1 stake_world \<and>
        20 \<le> balances stake_world StakingManagerContractAddr)"
  using views_match_payments [of stake_world 1 token_example epoch_example pool_example 20 "user 7" 7]
  by (auto simp: token_example_def)

end
