(* ===== verification/Staking_Invariants.thy ===== *)
theory Staking_Invariants
  imports Token_Views
begin

text \<open>
  What ties the pools to the tokens: in every available pool the stake that is booked as pending
  is, to the coin, the principal of the pool's tokens that become active in the next epoch; a
  token never belongs to a pool that does not exist nor becomes active later than the next epoch;
  commission rates stay within 100 percent. Every call of the stakers, every token transfer and
  the end of an epoch keep it.
\<close>

section \<open>The invariant\<close>

definition pending_weight :: "u64 \<Rightarrow> u64 \<Rightarrow> lst_info \<Rightarrow> int" where
  "pending_weight p e i = (if PoolID i = p \<and> ActiveEpoch i = e + 1 then Principal i else 0)"

definition pending_sum :: "u64 \<Rightarrow> u64 \<Rightarrow> world \<Rightarrow> int" where
  "pending_sum p e w = map_sum (pending_weight p e) (infoMap (lst w))"

definition available :: "world \<Rightarrow> u64 list" where
  "available w = (case availablePools (staking w) of None \<Rightarrow> [] | Some ids \<Rightarrow> ids)"

definition tokens_ok :: "epoch_info \<Rightarrow> world \<Rightarrow> bool" where
  "tokens_ok e w \<longleftrightarrow> (\<forall>t i. infoMap (lst w) t = Some i \<longrightarrow>
     ActiveEpoch i \<le> Epoch e + 1 \<and> poolInfos (staking w) (PoolID i) \<noteq> None)"

definition pool_ok :: "u64 \<Rightarrow> pool_info \<Rightarrow> bool" where
  "pool_ok p info \<longleftrightarrow> pool_ID info = p \<and> CommissionRate info \<le> CommissionRateDenominator \<and>
     NextEpochCommissionRate info \<le> CommissionRateDenominator"

definition pools_ok :: "world \<Rightarrow> bool" where
  "pools_ok w \<longleftrightarrow> (\<forall>p info. poolInfos (staking w) p = Some info \<longrightarrow> pool_ok p info)"

definition pending_ok :: "epoch_info \<Rightarrow> world \<Rightarrow> bool" where
  "pending_ok e w \<longleftrightarrow> (\<forall>p info. p \<in> set (available w) \<longrightarrow> poolInfos (staking w) p = Some info \<longrightarrow>
     PendingActiveStake info = pending_sum p (Epoch e) w)"

definition stake_inv :: "epoch_info \<Rightarrow> world \<Rightarrow> bool" where
  "stake_inv e w \<longleftrightarrow> lst_inv w \<and> EpochManager_CurrentEpoch w = Inr e \<and> Epoch e \<noteq> - 1 \<and>
     tokens_ok e w \<and> pools_ok w \<and> pending_ok e w"

lemma stake_invD:
  assumes "stake_inv e w"
  shows "lst_inv w" "EpochManager_CurrentEpoch w = Inr e" "Epoch e \<noteq> - 1"
    "infoMap (lst w) t = Some i \<Longrightarrow> ActiveEpoch i \<le> Epoch e + 1"
    "infoMap (lst w) t = Some i \<Longrightarrow> poolInfos (staking w) (PoolID i) \<noteq> None"
    "poolInfos (staking w) p = Some info \<Longrightarrow> pool_ok p info"
    "p \<in> set (available w) \<Longrightarrow> poolInfos (staking w) p = Some info \<Longrightarrow>
       PendingActiveStake info = pending_sum p (Epoch e) w"
  using assms by (auto simp: stake_inv_def tokens_ok_def pools_ok_def pending_ok_def)

lemma lst_inv_finite: "lst_inv w \<Longrightarrow> finite (dom (infoMap (lst w)))"
  by (simp add: lst_inv_def issued_inv_def)

lemma pending_sum_upd:
  assumes "lst_inv w" and "infoMap (lst w') = (infoMap (lst w))(t \<mapsto> i)"
  shows "pending_sum p e w' = pending_sum p e w
     - (case infoMap (lst w) t of None \<Rightarrow> 0 | Some j \<Rightarrow> pending_weight p e j) + pending_weight p e i"
  unfolding pending_sum_def assms(2) by (rule map_sum_upd [OF lst_inv_finite [OF assms(1)]])

lemma pending_sum_cong: "infoMap (lst w) = infoMap (lst w') \<Longrightarrow> pending_sum p e w = pending_sum p e w'"
  by (simp add: pending_sum_def)

lemma pending_weight_other: "PoolID i \<noteq> p \<Longrightarrow> pending_weight p e i = 0"
  by (simp add: pending_weight_def)

text \<open>
  The step all stakers' calls share: one record of a pool is written and the pending stake of
  the pool moves by the change of the record's weight.
\<close>

lemma stake_step:
  assumes inv: "stake_inv e w"
    and tok: "infoMap (lst w') = (infoMap (lst w))(t \<mapsto> ti')" "lst_inv w'" "PoolID ti' = p"
      "ActiveEpoch ti' \<le> Epoch e + 1" "\<And>old. infoMap (lst w) t = Some old \<Longrightarrow> PoolID old = p"
    and pool: "poolInfos (staking w) p = Some info" "poolInfos (staking w') = (poolInfos (staking w))(p \<mapsto> info')"
      "pool_ok p info'"
      "PendingActiveStake info' = PendingActiveStake info
         - (case infoMap (lst w) t of None \<Rightarrow> 0 | Some old \<Rightarrow> pending_weight p (Epoch e) old)
         + pending_weight p (Epoch e) ti'"
    and same: "epochs w' = epochs w" "availablePools (staking w') = availablePools (staking w)"
  shows "stake_inv e w'"
proof -
  note D = stake_invD [OF inv]
  have cur: "EpochManager_CurrentEpoch w' = Inr e"
    using EpochManager_CurrentEpoch_cong [OF same(1)] D(2) by simp
  have av: "available w' = available w" using same(2) by (simp add: available_def)
  have "tokens_ok e w'"
    unfolding tokens_ok_def using tok(1,3,4) pool(2) D(4,5) by (auto split: if_splits)
  moreover have "pools_ok w'" unfolding pools_ok_def using pool(2,3) D(6) by auto
  moreover have "PendingActiveStake info2 = pending_sum q (Epoch e) w'"
    if "q \<in> set (available w)" "poolInfos (staking w') q = Some info2" for q info2
  proof (cases "q = p")
    case True
    then show ?thesis
      using that pool D(7) [of p info] pending_sum_upd [OF D(1) tok(1), of p "Epoch e"] by simp
  next
    case False
    then have "pending_sum q (Epoch e) w' = pending_sum q (Epoch e) w"
      using pending_sum_upd [OF D(1) tok(1), of q "Epoch e"] tok(3,5)
      by (auto simp: pending_weight_other split: option.splits)
    then show ?thesis using that D(7) False pool(2) by simp
  qed
  ultimately show ?thesis using tok(2) cur D(3) av by (auto simp: stake_inv_def pending_ok_def)
qed

lemma stake_inv_same:
  assumes "stake_inv e w" and "infoMap (lst w') = infoMap (lst w)" and "lst_inv w'"
    and "poolInfos (staking w') = poolInfos (staking w)" and "epochs w' = epochs w"
    and "set (available w') \<subseteq> set (available w)"
  shows "stake_inv e w'"
proof -
  have "EpochManager_CurrentEpoch w' = EpochManager_CurrentEpoch w"
    using assms(5) by (rule EpochManager_CurrentEpoch_cong)
  moreover have "pending_sum p n w' = pending_sum p n w" for p n
    using assms(2) by (rule pending_sum_cong)
  ultimately show ?thesis
    using assms by (auto simp: stake_inv_def tokens_ok_def pools_ok_def pending_ok_def)
qed

lemma stake_inv_slots:
  assumes "stake_inv e w" and "lst w' = lst w" and "poolInfos (staking w') = poolInfos (staking w)"
    and "epochs w' = epochs w" and "availablePools (staking w') = availablePools (staking w)"
  shows "stake_inv e w'"
  using stake_inv_same [OF assms(1)] assms(2-) lst_inv_cong [OF assms(2)] stake_invD(1) [OF assms(1)]
  by (simp add: available_def)

section \<open>The calls of the stakers\<close>

lemma StakingPool_UnlockStake_stake_inv:
  assumes inv: "stake_inv e w" and tok: "infoMap (lst w) t = Some ti"
    and ok: "StakingPool_UnlockStake ctx (PoolID ti) t ti n w = Inr w'"
  shows "stake_inv e w'"
proof -
  note D = stake_invD [OF inv]
  from D(5) [OF tok] obtain info where info: "poolInfos (staking w) (PoolID ti) = Some info" by auto
  let ?u = "updateLiquidStakingTokenUnlockingRecords (ctx_Time ctx) ti"
  from ok info D(2) obtain l pr ti' where late: "ActiveEpoch ti - 1 \<noteq> Epoch e"
    and eq: "ti' = ?u\<lparr>UnlockingRecords := UnlockingRecords ?u @
          [\<lparr>Amount = n, UnlockTimestamp = ctx_Time ctx + UnlockPeriod (StakeParams e)\<rparr>],
        Principal := pr - n, ActiveEpoch := Epoch e + 1\<rparr>"
    and w': "w' = EmitEvent (EventUnlock t n (ctx_Time ctx + UnlockPeriod (StakeParams e)))
       (putPool (PoolID ti) (info\<lparr>PendingInactiveStake := PendingInactiveStake info + pr,
          PendingInactiveLiquidStakingTokenAmount := PendingInactiveLiquidStakingTokenAmount info + l,
          PendingActiveStake := PendingActiveStake info + (pr - n)\<rparr>)
         (LiquidStakingToken_updateInfo t ti' w))"
    by (rule StakingPool_UnlockStake_Inr)
  have ti': "PoolID ti' = PoolID ti" "Principal ti' = pr - n" "ActiveEpoch ti' = Epoch e + 1"
    by (simp_all add: eq)
  have "ActiveEpoch ti \<noteq> Epoch e + 1" using late by auto
  then have zero: "pending_weight (PoolID ti) (Epoch e) ti = 0" by (simp add: pending_weight_def)
  have "lst w' = lst (LiquidStakingToken_updateInfo t ti' w)" by (simp add: w')
  then have lst: "lst_inv w'"
    using LiquidStakingToken_updateInfo_inv [OF D(1), of t ti'] tok lst_inv_cong by blast
  let ?info' = "info\<lparr>PendingInactiveStake := PendingInactiveStake info + pr,
          PendingInactiveLiquidStakingTokenAmount := PendingInactiveLiquidStakingTokenAmount info + l,
          PendingActiveStake := PendingActiveStake info + (pr - n)\<rparr>"
  have new: "pending_weight (PoolID ti) (Epoch e) ti' = pr - n" using ti' by (simp add: pending_weight_def)
  show ?thesis
    by (rule stake_step [OF inv, of w' t ti' "PoolID ti" info ?info'])
      (use D(6) [OF info] tok ti' lst zero new info in \<open>simp_all add: w' pool_ok_def\<close>)
qed

lemma StakingPool_WithdrawStake_stake_inv:
  assumes inv: "stake_inv e w" and tok: "infoMap (lst w) t = Some ti"
    and ok: "StakingPool_WithdrawStake ctx (PoolID ti) t ti a n w = Inr (pw, w')"
  shows "stake_inv e w'"
proof -
  note D = stake_invD [OF inv]
  from D(5) [OF tok] obtain info where info: "poolInfos (staking w) (PoolID ti) = Some info" by auto
  from ok info D(2) obtain u ti' w1 w2 where
    u: "u = updateLiquidStakingTokenUnlockingRecords (ctx_Time ctx) ti"
    and early: "pw \<noteq> 0 \<longrightarrow> Epoch e < ActiveEpoch ti \<and> n \<le> Principal ti + Unlocked u"
    and eq: "ti' = u\<lparr>Principal := Principal u - pw, Unlocked := Unlocked u - (n - pw)\<rparr>"
    and w1: "w1 = LiquidStakingToken_updateInfo t ti' (if pw = 0 then w
       else putPool (PoolID ti) (info\<lparr>PendingActiveStake := PendingActiveStake info - pw\<rparr>) w)"
    and w2: "Transfer StakingManagerContractAddr a n w1 = Inr w2"
    and w': "w' = EmitEvent (EventWithdraw t a n) w2"
    by (rule StakingPool_WithdrawStake_Inr)
  note T = Transfer_frame [OF w2]
  have ti': "PoolID ti' = PoolID ti" "Principal ti' = Principal ti - pw" "ActiveEpoch ti' = ActiveEpoch ti"
    by (simp_all add: eq u)
  have "ActiveEpoch ti = Epoch e + 1" if "pw \<noteq> 0"
  proof -
    have "Epoch e < ActiveEpoch ti" "ActiveEpoch ti \<le> Epoch e + 1" using that early D(4) [OF tok] by auto
    then show ?thesis
      using u64_less_Suc_iff [OF D(3), of "ActiveEpoch ti"] by (meson antisym not_le not_less)
  qed
  then have weight: "pending_weight (PoolID ti) (Epoch e) ti' = pending_weight (PoolID ti) (Epoch e) ti - pw"
    using ti' by (auto simp: pending_weight_def)
  have "lst w' = lst (LiquidStakingToken_updateInfo t ti' w)"
    using T(3) by (simp add: w' w1 LiquidStakingToken_updateInfo_def)
  then have lst: "lst_inv w'"
    using LiquidStakingToken_updateInfo_inv [OF D(1), of t ti'] tok lst_inv_cong by blast
  let ?info' = "info\<lparr>PendingActiveStake := PendingActiveStake info - pw\<rparr>"
  have pools: "poolInfos (staking w') = (poolInfos (staking w))(PoolID ti \<mapsto> ?info')"
    using T(4) info by (auto simp: w' w1 fun_eq_iff)
  show ?thesis
    by (rule stake_step [OF inv, of w' t ti' "PoolID ti" info ?info'])
      (use D(4) [OF tok] D(6) [OF info] tok ti' lst weight info pools T in \<open>simp_all add: w' w1 pool_ok_def\<close>)
qed

lemma StakingPool_AddStake_stake_inv:
  assumes inv: "stake_inv e w" and ok: "StakingPool_AddStake ctx p owner n w = Inr w'"
  shows "stake_inv e w'"
proof -
  note D = stake_invD [OF inv]
  from ok obtain info cur t w1 where info: "poolInfos (staking w) p = Some info"
    and cur: "EpochManager_CurrentEpoch w = Inr cur"
    and mint: "LiquidStakingToken_Mint owner \<lparr>PoolID = pool_ID info, Principal = n, Unlocked = 0,
       ActiveEpoch = Epoch cur + 1, UnlockingRecords = []\<rparr> w = Inr (t, w1)"
    and w': "w' = EmitEvent (EventAddStake (pool_ID info) owner n t)
       (putPool p (info\<lparr>PendingActiveStake := PendingActiveStake info + n\<rparr>) w1)"
    by (rule StakingPool_AddStake_Inr)
  note m = LiquidStakingToken_Mint_Inr [OF mint]
  let ?ti = "\<lparr>PoolID = pool_ID info, Principal = n, Unlocked = 0, ActiveEpoch = Epoch cur + 1, UnlockingRecords = []\<rparr>"
  let ?info' = "info\<lparr>PendingActiveStake := PendingActiveStake info + n\<rparr>"
  have p: "pool_ID info = p" using D(6) [OF info] by (simp add: pool_ok_def)
  have fresh: "infoMap (lst w) t = None" by (rule lst_ledger.mint_fresh [OF D(1) mint])
  have "lst_inv w1" by (rule LiquidStakingToken_Mint_inv [OF D(1) mint])
  then have lst: "lst_inv w'" using lst_inv_cong [of w' w1] by (simp add: w')
  have weight: "pending_weight p (Epoch e) ?ti = n" using cur D(2) p by (simp add: pending_weight_def)
  show ?thesis
    by (rule stake_step [OF inv, of w' t ?ti p info ?info'])
      (use D(2,6) info cur p fresh lst weight m in \<open>simp_all add: w' pool_ok_def\<close>)
qed

lemma updateTotalStake_stake_inv:
  assumes "stake_inv e w" and "StakingManager_updateTotalStake b n w = Inr w'"
  shows "stake_inv e w'"
  using StakingManager_updateTotalStake_Inr [OF assms(2)] assms(1) by (auto elim!: stake_inv_slots)

lemma check_stake_inv:
  assumes "stake_inv e w" and "StakingManager_checkNextEpochValidatorActiveStake c n ids pend w = Inr w'"
  shows "stake_inv e w'"
  using StakingManager_check_Inr [OF assms(2)] assms(1) by (auto elim!: stake_inv_slots)

lemma StakingManager_AddStake_stake_inv:
  assumes "stake_inv e w" and "StakingManager_AddStake rl ctx p owner n w = Inr w'"
  shows "stake_inv e w'"
proof -
  from assms(2) obtain cur add vs pend w1 w2 w3 where
    "StakingManager_updateTotalStake True n w = Inr w1" "StakingPool_AddStake ctx p owner n w1 = Inr w2"
    "StakingManager_checkNextEpochValidatorActiveStake cur (length vs) (if p \<in> set vs then [p] else []) pend w2 = Inr w3"
    and w': "w' = putEpochAdd (add + n) w3" by (rule StakingManager_AddStake_Inr)
  then have "stake_inv e w3"
    using assms(1) updateTotalStake_stake_inv StakingPool_AddStake_stake_inv check_stake_inv by blast
  then show ?thesis unfolding w' by (rule stake_inv_slots) simp_all
qed

lemma unlockAll_stake_inv:
  assumes "efold (unlockOne ctx vs) ps (i, w) = Inr (j, w')" and "stake_inv e w"
  shows "stake_inv e w'"
proof -
  have "stake_inv e (snd s')" if "stake_inv e (snd s)" "unlockOne ctx vs x s = Inr s'" for x s s'
  proof -
    obtain t n i1 w1 j1 w2 where [simp]: "x = (t, n)" "s = (i1, w1)" "s' = (j1, w2)" by (metis surj_pair)
    from that show ?thesis by (auto elim!: unlockOne_Inr intro: StakingPool_UnlockStake_stake_inv)
  qed
  then show ?thesis using efold_invariant [OF assms(1), of "\<lambda>s. stake_inv e (snd s)"] assms(2) by auto
qed

lemma withdrawAll_stake_inv:
  assumes "efold (withdrawOne ctx a) ps (i, w) = Inr (j, w')" and "stake_inv e w"
  shows "stake_inv e w'"
proof -
  have "stake_inv e (snd s')" if "stake_inv e (snd s)" "withdrawOne ctx a x s = Inr s'" for x s s'
  proof -
    obtain t n i1 w1 j1 w2 where [simp]: "x = (t, n)" "s = (i1, w1)" "s' = (j1, w2)" by (metis surj_pair)
    from that show ?thesis by (auto elim!: withdrawOne_Inr intro: StakingPool_WithdrawStake_stake_inv)
  qed
  then show ?thesis using efold_invariant [OF assms(1), of "\<lambda>s. stake_inv e (snd s)"] assms(2) by auto
qed

lemma StakingManager_BatchUnlock_stake_inv:
  assumes "stake_inv e w" and "StakingManager_BatchUnlock rl iter ctx ts ns w = Inr w'"
  shows "stake_inv e w'"
proof -
  from assms(2) obtain cur unl vs pend inv1 w1 w2 w3 where
    "efold (unlockOne ctx vs) (zip ts ns) ([], w) = Inr (inv1, w1)"
    "StakingManager_checkNextEpochValidatorActiveStake cur (length vs) (iter inv1) pend w1 = Inr w2"
    "StakingManager_updateTotalStake False (sum_list ns) w2 = Inr w3"
    and w': "w' = putEpochUnlock (unl + sum_list ns) w3" by (rule StakingManager_BatchUnlock_Inr)
  then have "stake_inv e w3"
    using assms(1) updateTotalStake_stake_inv unlockAll_stake_inv check_stake_inv by blast
  then show ?thesis unfolding w' by (rule stake_inv_slots) simp_all
qed

lemma StakingManager_BatchWithdraw_stake_inv:
  assumes "stake_inv e w" and "StakingManager_BatchWithdraw ctx ts a ns w = Inr w'"
  shows "stake_inv e w'"
proof -
  from assms(2) obtain n w1 where "efold (withdrawOne ctx a) (zip ts ns) (0, w) = Inr (n, w1)"
    "StakingManager_updateTotalStake False n w1 = Inr w'" by (rule StakingManager_BatchWithdraw_Inr)
  then show ?thesis using assms(1) withdrawAll_stake_inv updateTotalStake_stake_inv by blast
qed

lemma putPool_stake_inv:
  assumes inv: "stake_inv e w" and info: "poolInfos (staking w) p = Some info"
    and new: "pool_ok p info'" "PendingActiveStake info' = PendingActiveStake info"
  shows "stake_inv e (putPool p info' w)"
proof -
  note D = stake_invD [OF inv]
  have "EpochManager_CurrentEpoch (putPool p info' w) = Inr e"
    using D(2) EpochManager_CurrentEpoch_cong [of "putPool p info' w" w] by simp
  moreover have "pending_sum q n (putPool p info' w) = pending_sum q n w" for q n
    by (rule pending_sum_cong) simp
  ultimately show ?thesis
    using D info new lst_inv_cong [of "putPool p info' w" w]
    by (auto simp: stake_inv_def tokens_ok_def pools_ok_def pending_ok_def available_def)
qed

lemma StakingManager_UpdatePoolCommissionRate_stake_inv:
  assumes inv: "stake_inv e w" and ok: "StakingManager_UpdatePoolCommissionRate ctx p r w = Inr w'"
  shows "stake_inv e w'"
proof -
  from ok obtain info where info: "poolInfos (staking w) p = Some info"
    and r: "r \<le> CommissionRateDenominator" and w': "w' = putPool p (info\<lparr>NextEpochCommissionRate := r\<rparr>) w"
    by (rule StakingManager_UpdatePoolCommissionRate_Inr)
  show ?thesis
    unfolding w' by (rule putPool_stake_inv [OF inv info])
      (use stake_invD(6) [OF inv info] r in \<open>simp_all add: pool_ok_def\<close>)
qed

lemma stake_exec_stake_inv:
  assumes "stake_inv e w" and "stake_exec rl iter x w = Inr w'"
  shows "stake_inv e w'"
  using assms
  by (cases x)
    (auto simp: StakingManager_Unlock_def StakingManager_Withdraw_def
      intro: StakingManager_AddStake_stake_inv StakingManager_BatchUnlock_stake_inv
        StakingManager_BatchWithdraw_stake_inv StakingManager_UpdatePoolCommissionRate_stake_inv)

interpretation stakers: contract_machine "stake_exec rl iter" "\<lambda>_. True" "stake_inv e" for rl iter e
  by unfold_locales (rule stake_exec_stake_inv)

section \<open>Transfers of tokens\<close>

fun user_call :: "lst_call \<Rightarrow> bool" where
  "user_call (CallMint a info) = False"
| "user_call (CallBurn ctx t) = False"
| "user_call (CallUpdateInfo t f) = False"
| "user_call _ = True"

definition records_same :: "world \<Rightarrow> world \<Rightarrow> bool" where
  "records_same w w' \<longleftrightarrow> infoMap (lst w') = infoMap (lst w) \<and> staking w' = staking w \<and>
     epochs w' = epochs w \<and> nodes w' = nodes w \<and> balances w' = balances w \<and> axc w' = axc w"

lemma LiquidStakingToken_TransferFrom_records:
  assumes "LiquidStakingToken_TransferFrom ctx a b t w = Inr w'"
  shows "records_same w w'"
proof -
  from assms have "LiquidStakingToken_updateOwnership b t (ctx_From ctx) w = Inr (a, w')"
    by (rule LiquidStakingToken_TransferFromE)
  from updateOwnership_Inr [OF this] show ?thesis by (simp add: records_same_def)
qed

lemma LiquidStakingToken_approve_records_same:
  "LiquidStakingToken_approve a t auth emit w = Inr w' \<Longrightarrow> records_same w w'"
  by (auto simp: LiquidStakingToken_approve_def records_same_def Let_def split: if_splits elim!: ebind_InrE)

lemma LiquidStakingToken_SetApprovalForAll_records:
  "LiquidStakingToken_SetApprovalForAll ctx a ok w = Inr w' \<Longrightarrow> records_same w w'"
  by (auto simp: LiquidStakingToken_SetApprovalForAll_def records_same_def split: if_splits)

lemma lst_user_frame:
  assumes "lst_exec x w = Inr w'" and "user_call x"
  shows "records_same w w'"
  using assms
  by (cases x)
    (auto simp: LiquidStakingToken_SafeTransferFrom0_def LiquidStakingToken_SafeTransferFrom_def
      LiquidStakingToken_Approve_def
      intro: LiquidStakingToken_TransferFrom_records LiquidStakingToken_approve_records_same
        LiquidStakingToken_SetApprovalForAll_records)

lemma lst_user_stake_inv:
  assumes "stake_inv e w" and "lst_exec x w = Inr w'" and "lst_signed x" and "user_call x"
  shows "stake_inv e w'"
proof (rule stake_inv_same [OF assms(1)])
  note f = lst_user_frame [OF assms(2,4)]
  show "infoMap (lst w') = infoMap (lst w)" "poolInfos (staking w') = poolInfos (staking w)"
    "epochs w' = epochs w" "set (available w') \<subseteq> set (available w)"
    using f by (simp_all add: available_def records_same_def)
  show "lst_inv w'" by (rule lst_exec_inv [OF stake_invD(1) [OF assms(1)] assms(3,2)])
qed

section \<open>Opening and closing pools\<close>

lemma StakingPool_Create_Inr:
  assumes "StakingPool_Create p operator e0 c n w = Inr (t, w')"
  obtains w1 info where "LiquidStakingToken_Mint operator
       \<lparr>PoolID = p, Principal = n, Unlocked = 0, ActiveEpoch = e0, UnlockingRecords = []\<rparr> w = Inr (t, w1)"
    "poolInfos (staking w) p = None" "c \<le> CommissionRateDenominator"
    "pool_ok p info" "PendingActiveStake info = 0" "ActiveStake info = n" "TotalLiquidStakingToken info = n"
    "OperatorLiquidStakingTokenID info = t" "IsActive info" "w' = putPool p info w1"
proof -
  from assms obtain w1 where
    mint: "LiquidStakingToken_Mint operator
       \<lparr>PoolID = p, Principal = n, Unlocked = 0, ActiveEpoch = e0, UnlockingRecords = []\<rparr> w = Inr (t, w1)"
    and rest: "\<not> StakingPool_Exists p w1" "c \<le> CommissionRateDenominator"
    and w': "w' = putPool p (pool_info_zero\<lparr>pool_ID := p, IsActive := True, ActiveStake := n,
         TotalLiquidStakingToken := n, CommissionRate := c, NextEpochCommissionRate := c,
         OperatorLiquidStakingTokenID := t\<rparr>) w1"
    by (auto simp: StakingPool_Create_def Let_def pool_info_zero_def elim!: ebind_InrE split: if_splits)
  show thesis
    by (rule that [OF mint _ rest(2) _ _ _ _ _ _ w'])
      (use rest LiquidStakingToken_Mint_Inr(9) [OF mint] in
        \<open>simp_all add: pool_ok_def pool_info_zero_def StakingPool_Exists_def\<close>)
qed

lemma StakingManager_CreatePool_Inr:
  assumes "StakingManager_CreatePoolWithStake p c n False w = Inr (t, w')"
  obtains cur node w1 pools where "EpochManager_CurrentEpoch w = Inr cur"
    "nodeRegistry (nodes w) p = Some node"
    "StakingPool_Create p (Operator node) (Epoch cur) c n w = Inr (t, w1)"
    "availablePools (staking w1) = Some pools" "p \<notin> set pools"
    "w' = putGasReward p 0 (putBlockCount p 0 (putAvailablePools (sort (pools @ [p])) w1))"
  using assms
  by (auto simp: StakingManager_CreatePoolWithStake_def StakingManager_addAvailableStakingPool_def
      elim!: ebind_InrE split: if_splits)

lemma StakingManager_CreatePool_stake_inv:
  assumes inv: "stake_inv e w" and ok: "StakingManager_CreatePool p c w = Inr (t, w')"
  shows "stake_inv e w'"
proof -
  note D = stake_invD [OF inv]
  from ok have ok': "StakingManager_CreatePoolWithStake p c 0 False w = Inr (t, w')"
    by (simp add: StakingManager_CreatePool_def)
  from ok' obtain cur node w2 pools where cur: "EpochManager_CurrentEpoch w = Inr cur"
    and "nodeRegistry (nodes w) p = Some node" and create: "StakingPool_Create p (Operator node) (Epoch cur) c 0 w = Inr (t, w2)"
    and pools: "availablePools (staking w2) = Some pools"
    and w': "w' = putGasReward p 0 (putBlockCount p 0 (putAvailablePools (sort (pools @ [p])) w2))"
    by (rule StakingManager_CreatePool_Inr)
  let ?ti = "\<lparr>PoolID = p, Principal = 0, Unlocked = 0, ActiveEpoch = Epoch cur, UnlockingRecords = []\<rparr>"
  from create obtain w1 info where mint: "LiquidStakingToken_Mint (Operator node) ?ti w = Inr (t, w1)"
    and new: "poolInfos (staking w) p = None" "pool_ok p info" "PendingActiveStake info = 0"
    and w2: "w2 = putPool p info w1" by (rule StakingPool_Create_Inr)
  note m = LiquidStakingToken_Mint_Inr [OF mint]
  have [simp]: "cur = e" using cur D(2) by simp
  have tok: "infoMap (lst w') = (infoMap (lst w))(t \<mapsto> ?ti)" using m(3) by (simp add: w' w2)
  have sum: "pending_sum q (Epoch e) w' = pending_sum q (Epoch e) w" for q
    using pending_sum_upd [OF D(1) tok, of q "Epoch e"] lst_ledger.mint_fresh [OF D(1) mint]
    by (simp add: pending_weight_def)
  have zero: "pending_sum p (Epoch e) w = 0"
    unfolding pending_sum_def
  proof (rule map_sum_zero)
    fix k v assume "infoMap (lst w) k = Some v"
    then have "PoolID v \<noteq> p" using D(5) new(1) by metis
    then show "pending_weight p (Epoch e) v = 0" by (rule pending_weight_other)
  qed
  have pool: "poolInfos (staking w') = (poolInfos (staking w))(p \<mapsto> info)" using m(9) by (simp add: w' w2)
  have "lst_inv w'" using LiquidStakingToken_Mint_inv [OF D(1) mint] lst_inv_cong [of w' w1] by (simp add: w' w2)
  moreover have "EpochManager_CurrentEpoch w' = Inr e"
    using D(2) EpochManager_CurrentEpoch_cong [of w' w] m(8) by (simp add: w' w2)
  moreover have "tokens_ok e w'"
    unfolding tokens_ok_def
    using tok pool D(4,5) new(1) u64_less_Suc [OF D(3)] by (auto split: if_splits)
  moreover have "set (available w') = insert p (set (available w))"
    using pools m(9) by (simp add: available_def w' w2)
  ultimately show ?thesis
    using D pool new(2,3) sum zero by (auto simp: stake_inv_def pools_ok_def pending_ok_def split: if_splits)
qed

lemma StakingManager_DisablePool_Inr:
  assumes "StakingManager_DisablePool p w = Inr w'"
  obtains pools where "availablePools (staking w) = Some pools" "p \<in> set pools"
    "poolInfos (staking w) p \<noteq> None" "w' = putAvailablePools (sort (remove1 p pools)) w"
  using assms
  by (auto simp: StakingManager_DisablePool_def StakingManager_removeAvailableStakingPool_def
      StakingPool_Exists_def elim!: ebind_InrE split: if_splits)

lemma StakingManager_DisablePool_stake_inv:
  assumes inv: "stake_inv e w" and ok: "StakingManager_DisablePool p w = Inr w'"
  shows "stake_inv e w'"
proof -
  from ok obtain pools where av: "availablePools (staking w) = Some pools"
    and w': "w' = putAvailablePools (sort (remove1 p pools)) w" by (rule StakingManager_DisablePool_Inr)
  show ?thesis
    by (rule stake_inv_same [OF inv])
      (use av stake_invD(1) [OF inv] lst_inv_cong [of w' w] in
        \<open>auto simp: w' available_def dest: notin_set_remove1 set_remove1_subset [THEN subsetD]\<close>)
qed

section \<open>The end of an epoch\<close>

text \<open>While the pools are settled one by one, tokens and pools stay well formed.\<close>

definition turning_inv :: "epoch_info \<Rightarrow> world \<Rightarrow> bool" where
  "turning_inv e w \<longleftrightarrow> lst_inv w \<and> tokens_ok e w \<and> pools_ok w"

lemma stakeCommission_next [simp]:
  "NextEpochCommissionRate (stakeCommission q e info) = NextEpochCommissionRate info"
  by (simp add: stakeCommission_def Let_def)

lemma StakingPool_TurnIntoNewEpoch_turning:
  assumes inv: "turning_inv old w" and ok: "StakingPool_TurnIntoNewEpoch p old new r w = Inr w'"
    and epoch: "Epoch new = Epoch old + 1"
  shows "turning_inv old w'"
    and "\<exists>info'. poolInfos (staking w') = (poolInfos (staking w))(p \<mapsto> info') \<and> PendingActiveStake info' = 0"
proof -
  from ok obtain info s q op lastRate where info: "poolInfos (staking w) p = Some info"
    and op: "LiquidStakingToken_mustGetInfo (OperatorLiquidStakingTokenID info) w = Inr op"
    and w': "w' = putRate p (Epoch old) (pool_rate (stakeCommission q old (settlePool s q info)))
            (putPool p (stakeCommission q old (settlePool s q info))
              (LiquidStakingToken_updateInfo (OperatorLiquidStakingTokenID info)
                (restakeOperator lastRate (settlePool s q info) old new q op) w))"
    by (rule StakingPool_TurnIntoNewEpoch_Inr)
  let ?info' = "stakeCommission q old (settlePool s q info)"
  let ?op' = "restakeOperator lastRate (settlePool s q info) old new q op"
  have op: "infoMap (lst w) (OperatorLiquidStakingTokenID info) = Some op"
    using op by (simp add: LiquidStakingToken_mustGetInfo_Inr)
  have pools: "poolInfos (staking w') = (poolInfos (staking w))(p \<mapsto> ?info')" by (simp add: w')
  then show "\<exists>info'. poolInfos (staking w') = (poolInfos (staking w))(p \<mapsto> info') \<and> PendingActiveStake info' = 0"
    by (intro exI [of _ ?info']) simp
  have "lst w' = lst (LiquidStakingToken_updateInfo (OperatorLiquidStakingTokenID info) ?op' w)" by (simp add: w')
  then have "lst_inv w'"
    using LiquidStakingToken_updateInfo_inv [of w "OperatorLiquidStakingTokenID info" ?op'] op inv lst_inv_cong
    unfolding turning_inv_def by blast
  moreover have "tokens_ok old w'"
    using inv op pools epoch by (auto simp: turning_inv_def tokens_ok_def w' split: if_splits)
  moreover have "pools_ok w'"
    using inv info pools by (auto simp: turning_inv_def pools_ok_def pool_ok_def)
  ultimately show "turning_inv old w'" by (simp add: turning_inv_def)
qed

lemma turning_inv_frame:
  assumes "lst w' = lst w" and "poolInfos (staking w') = poolInfos (staking w)"
  shows "turning_inv e w' = turning_inv e w"
  using assms lst_inv_cong [OF assms(1)] by (simp add: turning_inv_def tokens_ok_def pools_ok_def)

lemma StakingManager_turnPool_turning:
  assumes inv: "turning_inv old w" and ok: "StakingManager_turnPool old new p w = Inr w'"
    and epoch: "Epoch new = Epoch old + 1"
  shows "turning_inv old w'" and "availablePools (staking w') = availablePools (staking w)"
    and "epochs w' = epochs w" and "nodes w' = nodes w"
    and "\<exists>info'. poolInfos (staking w') = (poolInfos (staking w))(p \<mapsto> info') \<and> PendingActiveStake info' = 0"
proof -
  from ok obtain perBlock count gas w1 w3 where "rewardPerBlock (staking w) = Some perBlock"
    "proposeBlockCountTable (staking w) p = Some count"
    "gas = (case gasRewardTable (staking w) p of None \<Rightarrow> 0 | Some g \<Rightarrow> g)"
    and mint: "AXC_Mint (uint count * perBlock) w = Inr w1"
    and turn: "StakingPool_TurnIntoNewEpoch p old new (uint count * perBlock + gas)
       (AddBalance StakingManagerContractAddr (uint count * perBlock)
         (SubBalance AXCContractAddr (uint count * perBlock) w1)) = Inr w3"
    and w': "w' = putGasReward p 0 (putBlockCount p 0 w3)" by (rule StakingManager_turnPool_Inr)
  let ?w2 = "AddBalance StakingManagerContractAddr (uint count * perBlock)
         (SubBalance AXCContractAddr (uint count * perBlock) w1)"
  note m = AXC_Mint_frame [OF mint] and f = StakingPool_TurnIntoNewEpoch_frame [OF turn]
  have "turning_inv old ?w2" using inv turning_inv_frame [of ?w2 w] m by simp
  note t = StakingPool_TurnIntoNewEpoch_turning [OF this turn epoch]
  show "turning_inv old w'" using t(1) turning_inv_frame [of w' w3] by (simp add: w')
  show "availablePools (staking w') = availablePools (staking w)" "epochs w' = epochs w" "nodes w' = nodes w"
    using f m by (simp_all add: w')
  show "\<exists>info'. poolInfos (staking w') = (poolInfos (staking w))(p \<mapsto> info') \<and> PendingActiveStake info' = 0"
    using t(2) m by (simp add: w')
qed

lemma StakingManager_turnPools_turning:
  assumes "efold (StakingManager_turnPool old new) pools w = Inr w'" and "turning_inv old w"
    and "Epoch new = Epoch old + 1"
  shows "turning_inv old w' \<and> availablePools (staking w') = availablePools (staking w) \<and>
     epochs w' = epochs w \<and> nodes w' = nodes w \<and>
     (\<forall>p\<in>set pools. \<exists>info'. poolInfos (staking w') p = Some info' \<and> PendingActiveStake info' = 0)"
  using assms(1)
proof (induction pools arbitrary: w' rule: rev_induct)
  case Nil
  then show ?case using assms(2) by simp
next
  case (snoc q pools)
  from snoc.prems obtain w1 where rest: "efold (StakingManager_turnPool old new) pools w = Inr w1"
    and one: "StakingManager_turnPool old new q w1 = Inr w'"
    by (auto simp: efold_append elim!: ebind_InrE)
  note IH = snoc.IH [OF rest]
  note step = StakingManager_turnPool_turning [OF conjunct1 [OF IH] one assms(3)]
  from step(5) obtain info' where "poolInfos (staking w') = (poolInfos (staking w1))(q \<mapsto> info')"
    "PendingActiveStake info' = 0" by blast
  then show ?case using IH step by auto
qed

lemma StakingManager_TurnIntoNewEpoch_Inr:
  assumes "StakingManager_TurnIntoNewEpoch fo old new w = Inr w'"
  obtains pools w1 stake n where "availablePools (staking w) = Some pools"
    "efold (StakingManager_turnPool old new) pools w = Inr w1" "totalStake (staking w1) = Some stake"
    "w' = putRewardPerBlock n (putLastEpochTotalStake stake (putNotEnough [] (putEpochUnlock 0 (putEpochAdd 0 w1))))"
  using assms
  by (auto simp: StakingManager_TurnIntoNewEpoch_def Let_def staking_puts
      elim!: ebind_InrE dest!: StakingManager_UpdateStakeRewardPerBlock_Inr)

lemma StakingManager_TurnIntoNewEpoch_stake_inv:
  assumes inv: "turning_inv old w" and cur: "EpochManager_CurrentEpoch w = Inr new"
    and epoch: "Epoch new = Epoch old + 1" "Epoch new \<noteq> - 1"
    and ok: "StakingManager_TurnIntoNewEpoch fo old new w = Inr w'"
  shows "stake_inv new w'" and "nodes w' = nodes w"
proof -
  from ok obtain pools w1 stake n where av: "availablePools (staking w) = Some pools"
    and loop: "efold (StakingManager_turnPool old new) pools w = Inr w1"
    and "totalStake (staking w1) = Some stake"
    and w': "w' = putRewardPerBlock n (putLastEpochTotalStake stake (putNotEnough [] (putEpochUnlock 0 (putEpochAdd 0 w1))))"
    by (rule StakingManager_TurnIntoNewEpoch_Inr)
  note t = StakingManager_turnPools_turning [OF loop inv epoch(1)]
  show "nodes w' = nodes w" using t by (simp add: w')
  have turn: "turning_inv old w'" using t turning_inv_frame [of w' w1] by (simp add: w')
  have late: "ActiveEpoch i \<le> Epoch new" if "infoMap (lst w') k = Some i" for k i
    using turn that epoch(1) by (auto simp: turning_inv_def tokens_ok_def)
  have later: "x \<le> Epoch new \<Longrightarrow> x < Epoch new + 1" for x
    using u64_less_Suc_iff [OF epoch(2)] by simp
  have "tokens_ok new w'"
    using turn late later by (auto simp: turning_inv_def tokens_ok_def intro: order.strict_implies_order)
  moreover have zero: "pending_sum p (Epoch new) w' = 0" for p
    unfolding pending_sum_def
  proof (rule map_sum_zero)
    fix k i assume "infoMap (lst w') k = Some i"
    then have "ActiveEpoch i < Epoch new + 1" by (rule later [OF late])
    then show "pending_weight p (Epoch new) i = 0" by (auto simp: pending_weight_def)
  qed
  have "available w' = pools" using t av by (simp add: available_def w')
  then have "pending_ok new w'"
    unfolding pending_ok_def zero using t by (fastforce simp: w')
  moreover have "EpochManager_CurrentEpoch w' = Inr new"
    using cur t EpochManager_CurrentEpoch_cong [of w' w] by (simp add: w')
  ultimately show "stake_inv new w'"
    using turn epoch(2) by (simp add: stake_inv_def turning_inv_def)
qed

section \<open>Properties\<close>

text \<open>
  C11: The pending stake of a pool is backed by its tokens. Start in a state where, for every
  available pool, the booked pending stake is the sum of the principals of the pool's tokens that
  become active in the next epoch; run any sequence of calls of the stakers, failing ones being
  reverted; then it is so again, and no token is due later than the next epoch or belongs to a
  pool that does not exist.
\<close>

theorem pending_stake_backed:
  assumes inv: "stake_inv e w" and w': "w' = run_txs (stake_exec rl iter) calls w"
  shows "(\<forall>p info. p \<in> set (available w') \<longrightarrow> poolInfos (staking w') p = Some info \<longrightarrow>
            PendingActiveStake info = pending_sum p (Epoch e) w') \<and>
         (\<forall>t i. infoMap (lst w') t = Some i \<longrightarrow>
            ActiveEpoch i \<le> Epoch e + 1 \<and> poolInfos (staking w') (PoolID i) \<noteq> None)"
proof -
  have "stake_inv e w'" unfolding w' by (rule stakers.run_txs_inv [OF inv]) (simp add: list_all_iff)
  then show ?thesis by (auto dest: stake_invD(4,5,7))
qed

definition fresh_world :: world where
  "fresh_world = epoch_world
     \<lparr>nodes := (nodes epoch_world)\<lparr>nodeRegistry := [1 \<mapsto> node_example 1 Candidate],
         activeValidatorVotingPowers := Some (map (\<lambda>k. \<lparr>NodeID = k, ConsensusVotingPower = 1\<rparr>) [11, 12, 13, 14])\<rparr>,
      staking := (staking epoch_world)
        \<lparr>poolInfos := [1 \<mapsto> pool_example\<lparr>PendingActiveStake := 0\<rparr>], availablePools := Some [1],
         totalStake := Some 1000, lastEpochTotalStake := Some 1000,
         currentEpochTotalAddStake := Some 0, currentEpochTotalUnlockStake := Some 0\<rparr>\<rparr>"

lemma fresh_world_inv: "stake_inv epoch_example fresh_world"
proof -
  have "EpochManager_CurrentEpoch fresh_world = Inr epoch_example"
    using epoch_world_current EpochManager_CurrentEpoch_cong [of fresh_world epoch_world]
    by (simp add: fresh_world_def)
  moreover have "lst_inv fresh_world" by (rule lst_inv_empty) (simp add: fresh_world_def epoch_world_def)
  ultimately show ?thesis
    by (simp add: stake_inv_def tokens_ok_def pools_ok_def pending_ok_def fresh_world_def epoch_world_def
        pool_ok_def pool_example_def pending_sum_def map_sum_def CommissionRateDenominator_def)
qed

theorem pending_stake_backed_witness:
  "\<exists>w' info. w' = run_txs (stake_exec 10000 (\<lambda>l. l)) [CallAddStake ((user 7)\<lparr>ctx_Value := Some 200\<rparr>) 1 7 200] fresh_world \<and>
     poolInfos (staking w') 1 = Some info \<and> PendingActiveStake info = 200 \<and> pending_sum 1 1 w' = 200"
proof -
  let ?calls = "[CallAddStake ((user 7)\<lparr>ctx_Value := Some 200\<rparr>) 1 7 200]"
  let ?w = "run_txs (stake_exec 10000 (\<lambda>l. l)) ?calls fresh_world"
  have "map_option PendingActiveStake (poolInfos (staking ?w) 1) = Some 200" "available ?w = [1]"
    by code_simp+
  then show ?thesis using pending_stake_backed [OF fresh_world_inv refl, of 10000 "\<lambda>l. l" ?calls]
    by (auto simp del: run_txs_simps)
qed

end
