(* ===== verification/Node_Manager.thy ===== *)
theory Node_Manager
  imports Staking_Invariants "HOL-Library.Product_Lexorder"
begin

text \<open>
  The node contract (\<open>src/internal/executor/system/framework/node_manager.go\<close>), the part that
  works with the staking contract: the status machine of a node, joining and leaving, the
  election of the validators of a new epoch and the genesis registration.
\<close>

section \<open>Status transfer\<close>

definition NodeManager_operatorTransferStatus ::
  "node_status \<Rightarrow> node_status \<Rightarrow> node_info \<Rightarrow> world \<Rightarrow> world res" where
  "NodeManager_operatorTransferStatus from to nodeInfo w =
     ebind (NodeManager_moveStatus from to nodeInfo w) (\<lambda>w1.
     if to = Exited \<and> (from = PendingInactive \<or> from = Candidate)
     then StakingManager_DisablePool (node_ID nodeInfo) w1
     else Inr w1)"

definition NodeManager_JoinCandidateSet :: "vm_ctx \<Rightarrow> u64 \<Rightarrow> u64 \<Rightarrow> world \<Rightarrow> world res" where
  "NodeManager_JoinCandidateSet ctx nodeID commissionRate w =
     ebind (NodeManager_checkPermission ctx nodeID w) (\<lambda>nodeInfo.
     ebind (NodeManager_operatorTransferStatus DataSyncer Candidate nodeInfo w) (\<lambda>w1.
     ebind (StakingManager_CreatePool nodeID commissionRate w1) (\<lambda>(lstID, w2).
     Inr (EmitEvent (EventJoinedCandidateSet nodeID commissionRate lstID) w2))))"

text \<open>How many validators may leave in one epoch: a share of the active set, but at least one.\<close>

definition maxPendingInactiveNumber :: "('f, 'b) float_ops \<Rightarrow> nat \<Rightarrow> u64 \<Rightarrow> u64" where
  "maxPendingInactiveNumber fo activeNum ratio =
     (let number = f_to_u64 fo (f_floor fo (b_Float64 fo
            (b_Mul fo (b_SetFloat64 fo (f_of_nat fo activeNum))
               (b_Quo fo (b_SetUint64 fo ratio)
                  (b_SetFloat64 fo (f_of_nat fo (unat CommissionRateDenominator)))))))
      in if number = 0 then 1 else number)"

definition NodeManager_Exit :: "('f, 'b) float_ops \<Rightarrow> vm_ctx \<Rightarrow> u64 \<Rightarrow> world \<Rightarrow> world res" where
  "NodeManager_Exit fo ctx nodeID w =
     ebind (NodeManager_checkPermission ctx nodeID w) (\<lambda>nodeInfo.
     if Status nodeInfo = Active then
       ebind (must NotExist (statusSets (nodes w) Active)) (\<lambda>activeSet.
       let pendingInactiveSet = statusIDs PendingInactive w in
       ebind (EpochManager_CurrentEpoch w) (\<lambda>epochInfo.
       if maxPendingInactiveNumber fo (length activeSet)
            (MaxPendingInactiveValidatorRatio (StakeParams epochInfo)) \<le> of_nat (length pendingInactiveSet)
       then Inl (NodeErr PendingInactiveSetIsFull)
       else if of_nat (length activeSet) - 1 < MinValidatorNum (ConsensusParams epochInfo)
       then Inl (NodeErr (NotEnoughValidator (length activeSet) (MinValidatorNum (ConsensusParams epochInfo))))
       else
         ebind (NodeManager_operatorTransferStatus Active PendingInactive nodeInfo w) (\<lambda>w1.
         ebind (StakingManager_checkNextEpochValidatorActiveStake epochInfo
                  (length (NodeManager_GetActiveValidatorIDSet w1)) []
                  (uniq (NodeManager_GetPendingInactiveIDSet w1)) w1) (\<lambda>w2.
         Inr (EmitEvent (EventExit nodeID) w2)))))
     else if Status nodeInfo = Candidate \<or> Status nodeInfo = DataSyncer then
       ebind (NodeManager_operatorTransferStatus (Status nodeInfo) Exited nodeInfo w) (\<lambda>w1.
       Inr (EmitEvent (EventExit nodeID) w1))
     else Inl (NodeErr (IncorrectStatus (status_u8 (Status nodeInfo)))))"

section \<open>The election\<close>

record sort_info =
  stakeValue :: int
  sortNode :: node_info

definition axcUnit :: int where
  "axcUnit = 10 ^ 18"

definition votingPower :: "u64 \<Rightarrow> int \<Rightarrow> voting_power" where
  "votingPower nodeID stake = \<lparr>NodeID = nodeID, ConsensusVotingPower = word_of_int (bigDiv stake axcUnit)\<rparr>"

definition putVotingPowers :: "voting_power list \<Rightarrow> world \<Rightarrow> world" where
  "putVotingPowers powers w = w\<lparr>nodes := (nodes w)\<lparr>activeValidatorVotingPowers := Some powers\<rparr>\<rparr>"

text \<open>One pass of \<open>processNodeLeave\<close>; the ids come from the slot as it was at the start.\<close>

definition NodeManager_leave :: "u64 \<Rightarrow> world \<Rightarrow> world res" where
  "NodeManager_leave nodeID w =
     ebind (NodeManager_GetInfo nodeID w) (\<lambda>info.
     NodeManager_operatorTransferStatus PendingInactive Exited info w)"

definition NodeManager_processNodeLeave :: "world \<Rightarrow> (u64 list \<times> world) res" where
  "NodeManager_processNodeLeave w =
     (case statusSets (nodes w) PendingInactive of
        None \<Rightarrow> Inr ([], w)
      | Some nodeIDs \<Rightarrow> ebind (efold NodeManager_leave nodeIDs w) (\<lambda>w1. Inr (nodeIDs, w1)))"

definition NodeManager_getConsensusCandidateNodeIDs :: "world \<Rightarrow> u64 list" where
  "NodeManager_getConsensusCandidateNodeIDs w = sort (statusIDs Candidate w @ statusIDs Active w)"

text \<open>The loop that fills the validator set, from the highest stake down.\<close>

fun elect :: "u64 \<Rightarrow> int \<Rightarrow> sort_info list \<Rightarrow> sort_info list \<Rightarrow> sort_info list \<Rightarrow> sort_info list \<times> sort_info list" where
  "elect maxValidator minStakeValue [] validators candidates = (validators, candidates)"
| "elect maxValidator minStakeValue (x # xs) validators candidates =
     (if minStakeValue \<le> stakeValue x \<and> of_nat (length validators) < maxValidator
      then elect maxValidator minStakeValue xs (validators @ [x]) candidates
      else elect maxValidator minStakeValue xs validators (candidates @ [x]))"

definition stakeOfNode :: "world \<Rightarrow> node_info \<Rightarrow> sort_info res" where
  "stakeOfNode w info =
     ebind (StakingManager_PoolActiveStake (node_ID info) w) (\<lambda>stake.
     Inr \<lparr>stakeValue = stake, sortNode = info\<rparr>)"

text \<open>Rewrite the record of an elected or rejected node if its status changes.\<close>

definition setRole :: "node_status \<Rightarrow> sort_info \<Rightarrow> world \<Rightarrow> world" where
  "setRole st x w =
     (if Status (sortNode x) \<noteq> st
      then putNodeInfo (node_ID (sortNode x)) ((sortNode x)\<lparr>Status := st\<rparr>) w else w)"

text \<open>
  \<open>sort.Sort\<close> is not stable, so the order of nodes of equal stake is open: \<open>srt\<close> is any
  function that returns a permutation of its argument in which the stakes ascend.
\<close>

definition NodeManager_TurnIntoNewEpoch ::
  "(sort_info list \<Rightarrow> sort_info list) \<Rightarrow> epoch_info \<Rightarrow> world \<Rightarrow> world res" where
  "NodeManager_TurnIntoNewEpoch srt newEpoch w =
     ebind (NodeManager_processNodeLeave w) (\<lambda>(exitedNodes, w1).
     let nodeIDs = filter (\<lambda>k. k \<notin> set exitedNodes) (NodeManager_getConsensusCandidateNodeIDs w1) in
     ebind (NodeManager_GetInfos nodeIDs w1) (\<lambda>nodeInfos.
     ebind (emap (stakeOfNode w1) nodeInfos) (\<lambda>sortInfos.
     let (validators, candidates) =
           elect (MaxValidatorNum (ConsensusParams newEpoch)) (MinValidatorStake (StakeParams newEpoch))
             (rev (srt sortInfos)) [] []
     in if of_nat (length validators) < MinValidatorNum (ConsensusParams newEpoch)
        then Inl (NodeErr NotEnoughValidators)
        else
          let w2 = putStatusIDs Candidate (map (\<lambda>x. node_ID (sortNode x)) candidates) w1;
              w3 = putStatusIDs Active (map (\<lambda>x. node_ID (sortNode x)) validators) w2;
              w4 = putVotingPowers (map (\<lambda>x. votingPower (node_ID (sortNode x)) (stakeValue x)) validators) w3
          in Inr (fold (setRole Active) validators (fold (setRole Candidate) candidates w4)))))"

section \<open>Genesis\<close>

text \<open>What the first loop over the configured nodes collects.\<close>

record genesis_nodes =
  nodeInfoMap :: "u64 \<rightharpoonup> node_info"
  nodeStakeNumberMap :: "u64 \<rightharpoonup> int"
  pendingValidators :: "u64 list"
  candidateNodes :: "u64 list"
  dataSyncers :: "u64 list"

text \<open>
  \<open>isHexAddress\<close> and \<open>hexToAddress\<close> are go-ethereum's, the key parsers those of \<open>CheckNodeInfo\<close>.
\<close>

definition checkGenesisNode ::
  "(string \<Rightarrow> bool) \<Rightarrow> (string \<Rightarrow> address) \<Rightarrow> (string \<Rightarrow> bool) \<Rightarrow> (string \<Rightarrow> string option) \<Rightarrow>
   epoch_info \<Rightarrow> u64 \<Rightarrow> genesis_node \<Rightarrow> node_info res" where
  "checkGenesisNode isHexAddress hexToAddress consensusKeyOk p2pIDOf epochInfo nodeID cfg =
     (let nodeInfo = \<lparr>node_ID = nodeID, ConsensusPubKey = gn_ConsensusPubKey cfg, P2PPubKey = gn_P2PPubKey cfg,
                      P2PID = '''', Operator = 0, MetaData = gn_MetaData cfg, Status = DataSyncer\<rparr>
      in if gn_IsDataSyncer cfg \<and> gn_StakeNumber cfg \<noteq> 0 then Inl (GenesisErr DataSyncerWithStake)
         else if \<not> isHexAddress (gn_OperatorAddress cfg) then Inl (GenesisErr InvalidOperatorAddress)
         else
           let nodeInfo = nodeInfo\<lparr>Operator := hexToAddress (gn_OperatorAddress cfg)\<rparr> in
           if CommissionRateDenominator < gn_CommissionRate cfg
           then Inl (GenesisErr (GenesisCommissionRate (gn_CommissionRate cfg)))
           else if MaxValidatorStake (StakeParams epochInfo) < gn_StakeNumber cfg
           then Inl (GenesisErr (StakeNumberTooLarge (gn_StakeNumber cfg)))
           else ebind (CheckNodeInfo consensusKeyOk p2pIDOf nodeInfo) (\<lambda>p2pID.
             Inr (nodeInfo\<lparr>P2PID := p2pID\<rparr>)))"

fun checkGenesisNodes ::
  "(string \<Rightarrow> bool) \<Rightarrow> (string \<Rightarrow> address) \<Rightarrow> (string \<Rightarrow> bool) \<Rightarrow> (string \<Rightarrow> string option) \<Rightarrow>
   epoch_info \<Rightarrow> nat \<Rightarrow> genesis_node list \<Rightarrow> genesis_nodes \<Rightarrow> genesis_nodes res" where
  "checkGenesisNodes isHexAddress hexToAddress consensusKeyOk p2pIDOf epochInfo i [] g = Inr g"
| "checkGenesisNodes isHexAddress hexToAddress consensusKeyOk p2pIDOf epochInfo i (cfg # cfgs) g =
     (let nodeID = of_nat (i + 1) in
      ebind (checkGenesisNode isHexAddress hexToAddress consensusKeyOk p2pIDOf epochInfo nodeID cfg) (\<lambda>nodeInfo.
      let g = g\<lparr>nodeInfoMap := (nodeInfoMap g)(nodeID \<mapsto> nodeInfo),
                nodeStakeNumberMap := (nodeStakeNumberMap g)(nodeID \<mapsto> gn_StakeNumber cfg)\<rparr>;
          g = (if gn_IsDataSyncer cfg then g\<lparr>dataSyncers := dataSyncers g @ [nodeID]\<rparr>
               else if MinValidatorStake (StakeParams epochInfo) \<le> gn_StakeNumber cfg
               then g\<lparr>pendingValidators := pendingValidators g @ [nodeID]\<rparr>
               else g\<lparr>candidateNodes := candidateNodes g @ [nodeID]\<rparr>)
      in checkGenesisNodes isHexAddress hexToAddress consensusKeyOk p2pIDOf epochInfo (i + 1) cfgs g))"

text \<open>The order of \<open>sort.Slice\<close> in genesis is total on distinct ids: higher stake first, then lower id.\<close>

definition stakeNumber :: "genesis_nodes \<Rightarrow> u64 \<Rightarrow> int" where
  "stakeNumber g nodeID = (case nodeStakeNumberMap g nodeID of None \<Rightarrow> 0 | Some stake \<Rightarrow> stake)"

definition sortByStake :: "genesis_nodes \<Rightarrow> u64 list \<Rightarrow> u64 list" where
  "sortByStake g ids = sort_key (\<lambda>k. (- stakeNumber g k, k)) ids"

definition registerNodes ::
  "(string \<Rightarrow> string) \<Rightarrow> genesis_nodes \<Rightarrow> node_status \<Rightarrow> u64 list \<Rightarrow> world \<Rightarrow> world res" where
  "registerNodes hexNorm g nodeStatus nodeIDs w =
     efold (\<lambda>nodeID w.
       ebind (must NotExist (nodeInfoMap g nodeID)) (\<lambda>nodeInfo.
       ebind (NodeManager_register hexNorm (nodeInfo\<lparr>Status := nodeStatus\<rparr>) True w) (\<lambda>(_, w1). Inr w1)))
       nodeIDs w"

definition NodeManager_GenesisInit ::
  "(string \<Rightarrow> bool) \<Rightarrow> (string \<Rightarrow> address) \<Rightarrow> (string \<Rightarrow> bool) \<Rightarrow> (string \<Rightarrow> string option) \<Rightarrow>
   (string \<Rightarrow> string) \<Rightarrow> genesis_config \<Rightarrow> world \<Rightarrow> world res" where
  "NodeManager_GenesisInit isHexAddress hexToAddress consensusKeyOk p2pIDOf hexNorm genesis w =
     ebind (checkGenesisNodes isHexAddress hexToAddress consensusKeyOk p2pIDOf (EpochInfo genesis) 0 (Nodes genesis)
              \<lparr>nodeInfoMap = Map.empty, nodeStakeNumberMap = Map.empty, pendingValidators = [],
               candidateNodes = [], dataSyncers = []\<rparr>) (\<lambda>g.
     let pending = sortByStake g (pendingValidators g);
         maxNum = MaxValidatorNum (ConsensusParams (EpochInfo genesis));
         (active, candidates) =
           (if of_nat (length pending) \<le> maxNum then (pending, candidateNodes g)
            else (take (unat maxNum) pending, candidateNodes g @ drop (unat maxNum) pending));
         candidates = sortByStake g candidates;
         syncers = sort (dataSyncers g)
     in ebind (registerNodes hexNorm g Active active w) (\<lambda>w1.
        ebind (registerNodes hexNorm g Candidate candidates w1) (\<lambda>w2.
        ebind (registerNodes hexNorm g DataSyncer syncers w2) (\<lambda>w3.
        let w4 = w3\<lparr>nodes := (nodes w3)\<lparr>nextNodeID := Some (of_nat (length (Nodes genesis) + 1))\<rparr>\<rparr>;
            w5 = putStatusIDs DataSyncer syncers (putStatusIDs Candidate candidates (putStatusIDs Active active w4))
        in Inr (putVotingPowers (map (\<lambda>k. votingPower k (stakeNumber g k)) active) w5)))))"

section \<open>Status transfers keep the registry in order\<close>

lemma NodeManager_operatorTransferStatus_Inr:
  assumes "NodeManager_operatorTransferStatus from to info w = Inr w'"
  obtains w1 where "NodeManager_moveStatus from to info w = Inr w1"
    "nodes w' = nodes w1" "epochs w' = epochs w" "lst w' = lst w" "balances w' = balances w" "axc w' = axc w"
    "if to = Exited \<and> (from = PendingInactive \<or> from = Candidate)
     then StakingManager_DisablePool (node_ID info) w1 = Inr w' else w' = w1"
proof -
  from assms obtain w1 where w1: "NodeManager_moveStatus from to info w = Inr w1"
    and rest: "if to = Exited \<and> (from = PendingInactive \<or> from = Candidate)
     then StakingManager_DisablePool (node_ID info) w1 = Inr w' else w' = w1"
    by (auto simp: NodeManager_operatorTransferStatus_def elim!: ebind_InrE split: if_splits)
  have "nodes w' = nodes w1" "epochs w' = epochs w1" "lst w' = lst w1" "balances w' = balances w1" "axc w' = axc w1"
    using rest by (auto elim!: StakingManager_DisablePool_Inr split: if_splits)
  with w1 rest NodeManager_moveStatus_sets [OF w1] show thesis by (intro that) auto
qed

lemma NodeManager_operatorTransferStatus_staking:
  assumes "NodeManager_operatorTransferStatus from to info w = Inr w'"
  shows "staking w' = (staking w)\<lparr>availablePools := availablePools (staking w')\<rparr>"
    and "\<not> (to = Exited \<and> (from = PendingInactive \<or> from = Candidate)) \<Longrightarrow>
      availablePools (staking w') = availablePools (staking w)"
    and "to = Exited \<and> (from = PendingInactive \<or> from = Candidate) \<Longrightarrow>
      \<exists>pools. availablePools (staking w) = Some pools \<and> node_ID info \<in> set pools \<and>
        availablePools (staking w') = Some (sort (remove1 (node_ID info) pools))"
proof -
  from assms obtain w1 where w1: "NodeManager_moveStatus from to info w = Inr w1"
    and rest: "if to = Exited \<and> (from = PendingInactive \<or> from = Candidate)
     then StakingManager_DisablePool (node_ID info) w1 = Inr w' else w' = w1"
    by (rule NodeManager_operatorTransferStatus_Inr)
  have s: "staking w1 = staking w" using NodeManager_moveStatus_sets [OF w1] by simp
  show "staking w' = (staking w)\<lparr>availablePools := availablePools (staking w')\<rparr>"
    using rest s by (auto simp: putAvailablePools_def elim!: StakingManager_DisablePool_Inr split: if_splits)
  show "\<not> (to = Exited \<and> (from = PendingInactive \<or> from = Candidate)) \<Longrightarrow>
      availablePools (staking w') = availablePools (staking w)"
    using rest s by auto
  show "to = Exited \<and> (from = PendingInactive \<or> from = Candidate) \<Longrightarrow>
      \<exists>pools. availablePools (staking w) = Some pools \<and> node_ID info \<in> set pools \<and>
        availablePools (staking w') = Some (sort (remove1 (node_ID info) pools))"
    using rest s by (auto simp: putAvailablePools_def elim!: StakingManager_DisablePool_Inr)
qed

lemma node_parts_cong:
  assumes "nodes w = nodes w'"
  shows "node_index_inv w = node_index_inv w'" "node_status_inv w = node_status_inv w'"
    "voting_inv w = voting_inv w'" "statusIDs st w = statusIDs st w'" "next_node w = next_node w'"
    "NodeManager_GetActiveValidatorIDSet w = NodeManager_GetActiveValidatorIDSet w'"
  using assms
  by (simp_all add: node_index_inv_def node_status_inv_def voting_inv_def next_node_def
      statusIDs_def NodeManager_GetActiveValidatorIDSet_def)

lemma NodeManager_operatorTransferStatus_nodes:
  assumes "NodeManager_operatorTransferStatus from to info w = Inr w'"
  shows "statusIDs st w' = (if st = to then statusIDs to w @ [node_ID info]
           else if st = from then remove1 (node_ID info) (statusIDs from w) else statusIDs st w)"
    and "nodeRegistry (nodes w') = (nodeRegistry (nodes w))(node_ID info \<mapsto> info\<lparr>Status := to\<rparr>)"
    and "activeValidatorVotingPowers (nodes w') = activeValidatorVotingPowers (nodes w)"
    and "nextNodeID (nodes w') = nextNodeID (nodes w)"
    and "Status info = from" "from \<noteq> to"
proof -
  from assms obtain w1 where w1: "NodeManager_moveStatus from to info w = Inr w1" and same: "nodes w' = nodes w1"
    by (rule NodeManager_operatorTransferStatus_Inr)
  note sets = NodeManager_moveStatus_sets [OF w1]
  show "statusIDs st w' = (if st = to then statusIDs to w @ [node_ID info]
           else if st = from then remove1 (node_ID info) (statusIDs from w) else statusIDs st w)"
    using sets(1) node_parts_cong(4) [OF same] by simp
  show "nodeRegistry (nodes w') = (nodeRegistry (nodes w))(node_ID info \<mapsto> info\<lparr>Status := to\<rparr>)"
    "activeValidatorVotingPowers (nodes w') = activeValidatorVotingPowers (nodes w)"
    using sets(2,3) same by simp_all
  show "nextNodeID (nodes w') = nextNodeID (nodes w)" "Status info = from" "from \<noteq> to"
    using w1 same by (auto elim!: NodeManager_moveStatus_Inr)
qed

lemma NodeManager_operatorTransferStatus_inv:
  assumes "node_index_inv w" and "node_status_inv w" and "nodeRegistry (nodes w) k = Some info"
    and ok: "NodeManager_operatorTransferStatus from to info w = Inr w'"
  shows "node_index_inv w'" and "node_status_inv w'"
    and "voting_inv w \<Longrightarrow> from \<in> {Active, PendingInactive} \<longleftrightarrow> to \<in> {Active, PendingInactive} \<Longrightarrow> voting_inv w'"
proof -
  from ok obtain w1 where w1: "NodeManager_moveStatus from to info w = Inr w1" and same: "nodes w' = nodes w1"
    by (rule NodeManager_operatorTransferStatus_Inr)
  show "node_index_inv w'" "node_status_inv w'"
    using NodeManager_moveStatus_inv [OF assms(1-3) w1] node_parts_cong [OF same] by simp_all
  show "voting_inv w \<Longrightarrow> from \<in> {Active, PendingInactive} \<longleftrightarrow> to \<in> {Active, PendingInactive} \<Longrightarrow> voting_inv w'"
    using NodeManager_moveStatus_voting [OF assms(1,2) _ assms(3) w1] node_parts_cong(3) [OF same] by simp
qed

section \<open>Calls to the node contract\<close>

datatype node_call =
    CallRegister node_info
  | CallJoin vm_ctx u64 u64
  | CallExit vm_ctx u64
  | CallUpdateMetaData vm_ctx u64 string string string string
  | CallUpdateOperator vm_ctx u64 address

fun node_exec :: "(string \<Rightarrow> string) \<Rightarrow> ('f, 'b) float_ops \<Rightarrow> node_call \<Rightarrow> world \<Rightarrow> world res" where
  "node_exec hexNorm fo (CallRegister info) w =
     ebind (NodeManager_Register hexNorm info w) (\<lambda>(_, w1). Inr w1)"
| "node_exec hexNorm fo (CallJoin ctx k rate) w = NodeManager_JoinCandidateSet ctx k rate w"
| "node_exec hexNorm fo (CallExit ctx k) w = NodeManager_Exit fo ctx k w"
| "node_exec hexNorm fo (CallUpdateMetaData ctx k name desc img site) w =
     NodeManager_UpdateMetaData ctx k name desc img site w"
| "node_exec hexNorm fo (CallUpdateOperator ctx k a) w = NodeManager_UpdateOperator ctx k a w"

text \<open>The life of a node: the edges of the status graph.\<close>

inductive status_step :: "node_status \<Rightarrow> node_status \<Rightarrow> bool" where
  join: "status_step DataSyncer Candidate"
| quit_syncer: "status_step DataSyncer Exited"
| quit_candidate: "status_step Candidate Exited"
| elected: "status_step Candidate Active"
| demoted: "status_step Active Candidate"
| retire: "status_step Active PendingInactive"
| left: "status_step PendingInactive Exited"

code_pred status_step .

inductive_simps status_step_Exited [simp]: "status_step Exited st"
inductive_simps status_step_PendingInactive: "status_step PendingInactive st"

lemma NodeManager_JoinCandidateSet_Inr:
  assumes "NodeManager_JoinCandidateSet ctx k rate w = Inr w'"
  obtains info w1 w2 t where "nodeRegistry (nodes w) k = Some info"
    "ctx_CallFromSystem ctx \<or> ctx_From ctx = Operator info"
    "NodeManager_operatorTransferStatus DataSyncer Candidate info w = Inr w1"
    "StakingManager_CreatePool k rate w1 = Inr (t, w2)"
    "w' = EmitEvent (EventJoinedCandidateSet k rate t) w2"
  using assms
  by (auto simp: NodeManager_JoinCandidateSet_def NodeManager_checkPermission_Inr elim!: ebind_InrE)

lemma StakingManager_CreatePool_effect:
  assumes "StakingManager_CreatePool p c w = Inr (t, w')"
  obtains info pools where "nodes w' = nodes w" "epochs w' = epochs w" "poolInfos (staking w) p = None"
    "poolInfos (staking w') = (poolInfos (staking w))(p \<mapsto> info)"
    "availablePools (staking w) = Some pools" "p \<notin> set pools"
    "availablePools (staking w') = Some (sort (pools @ [p]))"
    "currentEpochTotalStakeNotEnoughValidators (staking w') = currentEpochTotalStakeNotEnoughValidators (staking w)"
proof -
  from assms have "StakingManager_CreatePoolWithStake p c 0 False w = Inr (t, w')"
    by (simp add: StakingManager_CreatePool_def)
  then obtain cur node w1 pools
    where "EpochManager_CurrentEpoch w = Inr cur" "nodeRegistry (nodes w) p = Some node"
      and create: "StakingPool_Create p (Operator node) (Epoch cur) c 0 w = Inr (t, w1)"
      and av: "availablePools (staking w1) = Some pools" "p \<notin> set pools"
      and w': "w' = putGasReward p 0 (putBlockCount p 0 (putAvailablePools (sort (pools @ [p])) w1))"
    by (rule StakingManager_CreatePool_Inr)
  from create obtain w0 info where mint: "LiquidStakingToken_Mint (Operator node)
       \<lparr>PoolID = p, Principal = 0, Unlocked = 0, ActiveEpoch = Epoch cur, UnlockingRecords = []\<rparr> w = Inr (t, w0)"
    and new: "poolInfos (staking w) p = None" and w1: "w1 = putPool p info w0"
    by (rule StakingPool_Create_Inr)
  note m = LiquidStakingToken_Mint_Inr(8,9,10) [OF mint]
  show thesis
    by (rule that [of info pools]) (use m new av in \<open>simp_all add: w' w1 staking_puts putPool_def\<close>)
qed

lemma NodeManager_Exit_active_Inr:
  assumes "NodeManager_Exit fo ctx k w = Inr w'" and "nodeRegistry (nodes w) k = Some info" and "Status info = Active"
  obtains e activeSet w1 w2 where "ctx_CallFromSystem ctx \<or> ctx_From ctx = Operator info"
    "statusSets (nodes w) Active = Some activeSet" "EpochManager_CurrentEpoch w = Inr e"
    "of_nat (length (statusIDs PendingInactive w)) <
       maxPendingInactiveNumber fo (length activeSet) (MaxPendingInactiveValidatorRatio (StakeParams e))"
    "MinValidatorNum (ConsensusParams e) \<le> of_nat (length activeSet) - 1"
    "NodeManager_operatorTransferStatus Active PendingInactive info w = Inr w1"
    "StakingManager_checkNextEpochValidatorActiveStake e (length (NodeManager_GetActiveValidatorIDSet w1)) []
       (uniq (NodeManager_GetPendingInactiveIDSet w1)) w1 = Inr w2"
    "w' = EmitEvent (EventExit k) w2"
  using assms
  by (auto simp: NodeManager_Exit_def NodeManager_checkPermission_Inr Let_def not_le not_less
      elim!: ebind_InrE split: if_splits)

lemma NodeManager_Exit_other_Inr:
  assumes "NodeManager_Exit fo ctx k w = Inr w'" and "nodeRegistry (nodes w) k = Some info" and "Status info \<noteq> Active"
  obtains w1 where "ctx_CallFromSystem ctx \<or> ctx_From ctx = Operator info"
    "Status info = Candidate \<or> Status info = DataSyncer"
    "NodeManager_operatorTransferStatus (Status info) Exited info w = Inr w1"
    "w' = EmitEvent (EventExit k) w1"
  using assms
  by (auto simp: NodeManager_Exit_def NodeManager_checkPermission_Inr elim!: ebind_InrE split: if_splits)

lemma NodeManager_Exit_known:
  "NodeManager_Exit fo ctx k w = Inr w' \<Longrightarrow> \<exists>info. nodeRegistry (nodes w) k = Some info"
  by (auto simp: NodeManager_Exit_def NodeManager_checkPermission_Inr elim!: ebind_InrE)

fun call_target :: "node_call \<Rightarrow> (vm_ctx \<times> u64) option" where
  "call_target (CallRegister info) = None"
| "call_target (CallJoin ctx k rate) = Some (ctx, k)"
| "call_target (CallExit ctx k) = Some (ctx, k)"
| "call_target (CallUpdateMetaData ctx k name desc img site) = Some (ctx, k)"
| "call_target (CallUpdateOperator ctx k a) = Some (ctx, k)"

text \<open>What a call may do to one record: made by the operator, it keeps id and keys and follows the graph.\<close>

definition record_step :: "node_call \<Rightarrow> u64 \<Rightarrow> node_info \<Rightarrow> node_info \<Rightarrow> bool" where
  "record_step call k i i' \<longleftrightarrow>
     (\<exists>ctx. call_target call = Some (ctx, k) \<and> (ctx_CallFromSystem ctx \<or> ctx_From ctx = Operator i)) \<and>
     node_ID i' = node_ID i \<and> ConsensusPubKey i' = ConsensusPubKey i \<and> P2PID i' = P2PID i \<and>
     (Status i' = Status i \<or> status_step (Status i) (Status i'))"

lemma recordI:
  assumes "reg k = Some i" and "reg' = reg(k \<mapsto> i')" and "record_step call k i i'"
  shows "\<exists>i i'. reg k = Some i \<and> reg' = reg(k \<mapsto> i') \<and> record_step call k i i'"
  using assms by blast

lemma NodeManager_JoinCandidateSet_record:
  assumes "NodeManager_JoinCandidateSet ctx k rate w = Inr w'" and "node_index_inv w"
  shows "\<exists>i i'. nodeRegistry (nodes w) k = Some i \<and> nodeRegistry (nodes w') = (nodeRegistry (nodes w))(k \<mapsto> i') \<and>
    record_step (CallJoin ctx k rate) k i i'"
proof -
  from assms(1) obtain info w1 w2 t where info: "nodeRegistry (nodes w) k = Some info"
    and perm: "ctx_CallFromSystem ctx \<or> ctx_From ctx = Operator info"
    and move: "NodeManager_operatorTransferStatus DataSyncer Candidate info w = Inr w1"
    and pool: "StakingManager_CreatePool k rate w1 = Inr (t, w2)"
    and w': "w' = EmitEvent (EventJoinedCandidateSet k rate t) w2"
    by (rule NodeManager_JoinCandidateSet_Inr)
  from pool have "nodes w2 = nodes w1" by (rule StakingManager_CreatePool_effect)
  with info perm NodeManager_operatorTransferStatus_nodes [OF move] node_index_invD(1) [OF assms(2) info]
  show ?thesis
    by (intro recordI [where i = info and i' = "info\<lparr>Status := Candidate\<rparr>"])
      (auto simp: w' record_step_def intro: status_step.intros)
qed

lemma NodeManager_Exit_record:
  assumes ok: "NodeManager_Exit fo ctx k w = Inr w'" and "node_index_inv w"
  shows "\<exists>i i'. nodeRegistry (nodes w) k = Some i \<and> nodeRegistry (nodes w') = (nodeRegistry (nodes w))(k \<mapsto> i') \<and>
    record_step (CallExit ctx k) k i i'"
proof -
  from NodeManager_Exit_known [OF ok] obtain info where info: "nodeRegistry (nodes w) k = Some info" ..
  note ID = node_index_invD(1) [OF assms(2) info]
  show ?thesis
  proof (cases "Status info = Active")
    case True
    from ok info this obtain e activeSet w1 w2
      where perm: "ctx_CallFromSystem ctx \<or> ctx_From ctx = Operator info"
      and "statusSets (nodes w) Active = Some activeSet" "EpochManager_CurrentEpoch w = Inr e"
      and move: "NodeManager_operatorTransferStatus Active PendingInactive info w = Inr w1"
      and chk: "StakingManager_checkNextEpochValidatorActiveStake e (length (NodeManager_GetActiveValidatorIDSet w1)) []
       (uniq (NodeManager_GetPendingInactiveIDSet w1)) w1 = Inr w2"
      and w': "w' = EmitEvent (EventExit k) w2"
      by (rule NodeManager_Exit_active_Inr)
    have "nodes w2 = nodes w1" using StakingManager_check_slots [OF chk] by simp
    with info perm NodeManager_operatorTransferStatus_nodes [OF move] ID True
    show ?thesis
      by (intro recordI [where i = info and i' = "info\<lparr>Status := PendingInactive\<rparr>"])
        (auto simp: w' record_step_def intro: status_step.intros)
  next
    case False
    from ok info this obtain w1 where perm: "ctx_CallFromSystem ctx \<or> ctx_From ctx = Operator info"
      and st: "Status info = Candidate \<or> Status info = DataSyncer"
      and move: "NodeManager_operatorTransferStatus (Status info) Exited info w = Inr w1"
      and w': "w' = EmitEvent (EventExit k) w1"
      by (rule NodeManager_Exit_other_Inr)
    with info NodeManager_operatorTransferStatus_nodes [OF move] ID
    show ?thesis
      by (intro recordI [where i = info and i' = "info\<lparr>Status := Exited\<rparr>"])
        (auto simp: w' record_step_def intro: status_step.intros)
  qed
qed

lemma NodeManager_UpdateMetaData_record:
  assumes "NodeManager_UpdateMetaData ctx k name desc img site w = Inr w'"
  shows "\<exists>i i'. nodeRegistry (nodes w) k = Some i \<and> nodeRegistry (nodes w') = (nodeRegistry (nodes w))(k \<mapsto> i') \<and>
    record_step (CallUpdateMetaData ctx k name desc img site) k i i'"
proof -
  let ?meta = "\<lparr>Name = name, Desc = desc, ImageURL = img, WebsiteURL = site\<rparr>"
  from assms obtain i where "nodeRegistry (nodes w) k = Some i" "ctx_CallFromSystem ctx \<or> ctx_From ctx = Operator i"
    "nodeRegistry (nodes w') = (nodeRegistry (nodes w))(k \<mapsto> i\<lparr>MetaData := ?meta\<rparr>)"
    by (rule NodeManager_UpdateMetaData_Inr) auto
  then show ?thesis
    by (intro recordI [where i = i and i' = "i\<lparr>MetaData := ?meta\<rparr>"]) (auto simp: record_step_def)
qed

lemma NodeManager_UpdateOperator_record:
  assumes "NodeManager_UpdateOperator ctx k a w = Inr w'"
  shows "\<exists>i i'. nodeRegistry (nodes w) k = Some i \<and> nodeRegistry (nodes w') = (nodeRegistry (nodes w))(k \<mapsto> i') \<and>
    record_step (CallUpdateOperator ctx k a) k i i'"
proof -
  from assms obtain i where "nodeRegistry (nodes w) k = Some i" "ctx_CallFromSystem ctx \<or> ctx_From ctx = Operator i"
    "nodes w' = nodes (putNodeInfo k (i\<lparr>Operator := a\<rparr>) w)"
    by (auto simp: NodeManager_UpdateOperator_def NodeManager_checkPermission_Inr elim!: ebind_InrE split: if_splits)
  then show ?thesis
    by (intro recordI [where i = i and i' = "i\<lparr>Operator := a\<rparr>"]) (auto simp: record_step_def)
qed

lemma NodeManager_Register_Inr:
  assumes "NodeManager_Register hexNorm info w = Inr (k, w')"
  obtains w1 where "NodeManager_register hexNorm (info\<lparr>Status := DataSyncer\<rparr>) False w = Inr (k, w1)"
    "nodes w' = nodes w1"
  using assms by (auto simp: NodeManager_Register_def Let_def elim!: ebind_InrE)

lemma NodeManager_Register_record:
  assumes "NodeManager_Register hexNorm info w = Inr (k, w')" and "node_index_inv w"
  shows "\<exists>i. nodeRegistry (nodes w) k = None \<and> k = next_node w \<and> Status i = DataSyncer \<and>
    nodeRegistry (nodes w') = (nodeRegistry (nodes w))(k \<mapsto> i) \<and> nextNodeID (nodes w') = Some (k + 1)"
proof -
  from assms(1) obtain w1 where reg: "NodeManager_register hexNorm (info\<lparr>Status := DataSyncer\<rparr>) False w = Inr (k, w1)"
    and same: "nodes w' = nodes w1" by (rule NodeManager_Register_Inr)
  note r = NodeManager_register_user [OF reg]
  have "nodeRegistry (nodes w) k = None"
    using node_index_invD(2) [OF assms(2), of k] r(1) by (cases "nodeRegistry (nodes w) k") auto
  then show ?thesis
    using r(1,2) same
    by (intro exI [of _ "(StandardizationNodeInfo hexNorm (info\<lparr>Status := DataSyncer\<rparr>))
        \<lparr>node_ID := next_node w, Status := DataSyncer\<rparr>"]) simp
qed

text \<open>Every call writes one record: it files a new node, or steps the record of its target.\<close>

lemma node_exec_record:
  assumes inv: "node_inv w" and ok: "node_exec hexNorm fo call w = Inr w'"
  shows "\<exists>k i'. nodeRegistry (nodes w') = (nodeRegistry (nodes w))(k \<mapsto> i') \<and>
    (case nodeRegistry (nodes w) k of
       None \<Rightarrow> call_target call = None \<and> k = next_node w \<and> Status i' = DataSyncer
     | Some i \<Rightarrow> record_step call k i i')"
proof -
  have idx: "node_index_inv w" using inv by (simp add: node_inv_def)
  have known: "\<exists>k i'. nodeRegistry (nodes w') = (nodeRegistry (nodes w))(k \<mapsto> i') \<and>
    (case nodeRegistry (nodes w) k of
       None \<Rightarrow> call_target call = None \<and> k = next_node w \<and> Status i' = DataSyncer
     | Some i \<Rightarrow> record_step call k i i')"
    if "\<exists>i i'. nodeRegistry (nodes w) k = Some i \<and> nodeRegistry (nodes w') = (nodeRegistry (nodes w))(k \<mapsto> i') \<and>
      record_step call k i i'" for k
    using that by (metis option.simps(5))
  show ?thesis
  proof (cases call)
    case (CallRegister info)
    with ok obtain k where "NodeManager_Register hexNorm info w = Inr (k, w')" by (auto elim!: ebind_InrE)
    from NodeManager_Register_record [OF this idx] obtain i where "nodeRegistry (nodes w) k = None"
      "k = next_node w" "Status i = DataSyncer" "nodeRegistry (nodes w') = (nodeRegistry (nodes w))(k \<mapsto> i)" by blast
    then show ?thesis by (intro exI [of _ k] exI [of _ i]) (simp add: CallRegister)
  next
    case (CallJoin ctx k rate)
    with ok NodeManager_JoinCandidateSet_record [OF _ idx, of ctx k rate w'] show ?thesis by (intro known) simp
  next
    case (CallExit ctx k)
    with ok NodeManager_Exit_record [OF _ idx, of fo ctx k w'] show ?thesis by (intro known) simp
  next
    case (CallUpdateMetaData ctx k name desc img site)
    with ok NodeManager_UpdateMetaData_record [of ctx k name desc img site w w'] show ?thesis
      by (intro known) simp
  next
    case (CallUpdateOperator ctx k a)
    with ok NodeManager_UpdateOperator_record [of ctx k a w w'] show ?thesis by (intro known) simp
  qed
qed

lemma NodeManager_JoinCandidateSet_inv:
  assumes inv: "node_inv w" and ok: "NodeManager_JoinCandidateSet ctx k rate w = Inr w'"
  shows "node_inv w'" and "next_node w' = next_node w"
proof -
  from ok obtain info w1 w2 t where info: "nodeRegistry (nodes w) k = Some info"
    and perm: "ctx_CallFromSystem ctx \<or> ctx_From ctx = Operator info"
    and move: "NodeManager_operatorTransferStatus DataSyncer Candidate info w = Inr w1"
    and pool: "StakingManager_CreatePool k rate w1 = Inr (t, w2)"
    and w': "w' = EmitEvent (EventJoinedCandidateSet k rate t) w2"
    by (rule NodeManager_JoinCandidateSet_Inr)
  from pool have "nodes w2 = nodes w1" by (rule StakingManager_CreatePool_effect)
  then have same: "nodes w' = nodes w1" by (simp add: w')
  from inv have parts: "node_index_inv w" "node_status_inv w" "voting_inv w" by (simp_all add: node_inv_def)
  have "node_inv w1"
    using NodeManager_operatorTransferStatus_inv [OF parts(1,2) info move] parts(3) by (simp add: node_inv_def)
  then show "node_inv w'" using node_inv_cong [OF same] by simp
  show "next_node w' = next_node w"
    using same NodeManager_operatorTransferStatus_nodes(4) [OF move] by (simp add: next_node_def)
qed

lemma NodeManager_Exit_inv:
  assumes inv: "node_inv w" and ok: "NodeManager_Exit fo ctx k w = Inr w'"
  shows "node_inv w'" and "next_node w' = next_node w"
proof -
  from NodeManager_Exit_known [OF ok] obtain info where info: "nodeRegistry (nodes w) k = Some info" ..
  from inv have parts: "node_index_inv w" "node_status_inv w" "voting_inv w" by (simp_all add: node_inv_def)
  have "node_inv w' \<and> next_node w' = next_node w"
  proof (cases "Status info = Active")
    case True
    from ok info this obtain e activeSet w1 w2
      where perm: "ctx_CallFromSystem ctx \<or> ctx_From ctx = Operator info"
      and "statusSets (nodes w) Active = Some activeSet" "EpochManager_CurrentEpoch w = Inr e"
      and move: "NodeManager_operatorTransferStatus Active PendingInactive info w = Inr w1"
      and chk: "StakingManager_checkNextEpochValidatorActiveStake e (length (NodeManager_GetActiveValidatorIDSet w1)) []
       (uniq (NodeManager_GetPendingInactiveIDSet w1)) w1 = Inr w2"
      and w': "w' = EmitEvent (EventExit k) w2"
      by (rule NodeManager_Exit_active_Inr)
    have same: "nodes w' = nodes w1" using StakingManager_check_slots [OF chk] by (simp add: w')
    have "node_inv w1"
      using NodeManager_operatorTransferStatus_inv [OF parts(1,2) info move] parts(3) by (simp add: node_inv_def)
    then show ?thesis
      using node_inv_cong [OF same] same NodeManager_operatorTransferStatus_nodes(4) [OF move]
      by (simp add: next_node_def)
  next
    case False
    from ok info this obtain w1 where perm: "ctx_CallFromSystem ctx \<or> ctx_From ctx = Operator info"
      and st: "Status info = Candidate \<or> Status info = DataSyncer"
      and move: "NodeManager_operatorTransferStatus (Status info) Exited info w = Inr w1"
      and w': "w' = EmitEvent (EventExit k) w1"
      by (rule NodeManager_Exit_other_Inr)
    have same: "nodes w' = nodes w1" by (simp add: w')
    have "node_inv w1"
      using NodeManager_operatorTransferStatus_inv [OF parts(1,2) info move] parts(3) st
      by (auto simp: node_inv_def)
    then show ?thesis
      using node_inv_cong [OF same] same NodeManager_operatorTransferStatus_nodes(4) [OF move]
      by (simp add: next_node_def)
  qed
  then show "node_inv w'" "next_node w' = next_node w" by simp_all
qed

lemma node_exec_inv:
  assumes inv: "node_inv w" and ok: "node_exec hexNorm fo call w = Inr w'" and room: "next_node w \<noteq> - 1"
  shows "node_inv w'" and "next_node w' = next_node w \<or> next_node w' = next_node w + 1"
proof -
  have idx: "node_index_inv w" using inv by (simp add: node_inv_def)
  have "node_inv w' \<and> (next_node w' = next_node w \<or> next_node w' = next_node w + 1)"
  proof (cases call)
    case (CallRegister info)
    with ok obtain k where reg: "NodeManager_Register hexNorm info w = Inr (k, w')" by (auto elim!: ebind_InrE)
    from reg obtain w1 where r: "NodeManager_register hexNorm (info\<lparr>Status := DataSyncer\<rparr>) False w = Inr (k, w1)"
      and same: "nodes w' = nodes w1" by (rule NodeManager_Register_Inr)
    have "node_inv w'" using NodeManager_register_user_inv [OF inv r room] node_inv_cong [OF same] by simp
    then show ?thesis using NodeManager_Register_record [OF reg idx] by (auto simp: next_node_def)
  next
    case (CallUpdateMetaData ctx k name desc img site)
    with ok have up: "NodeManager_UpdateMetaData ctx k name desc img site w = Inr w'" by simp
    then have "nextNodeID (nodes w') = nextNodeID (nodes w)" by (rule NodeManager_UpdateMetaData_Inr) auto
    then show ?thesis using NodeManager_UpdateMetaData_inv [OF inv up] by (simp add: next_node_def)
  next
    case (CallUpdateOperator ctx k a)
    with ok have up: "NodeManager_UpdateOperator ctx k a w = Inr w'" by simp
    then have "nextNodeID (nodes w') = nextNodeID (nodes w)"
      by (auto simp: NodeManager_UpdateOperator_def elim!: ebind_InrE split: if_splits)
    then show ?thesis using NodeManager_UpdateOperator_inv [OF inv up] by (simp add: next_node_def)
  qed (use ok NodeManager_JoinCandidateSet_inv [OF inv] NodeManager_Exit_inv [OF inv] in auto)
  then show "node_inv w'" "next_node w' = next_node w \<or> next_node w' = next_node w + 1" by simp_all
qed

section \<open>Sequences of calls\<close>

text \<open>
  Ids are 64 bit: the calls are followed as long as an id is left. \<open>bounded_exec\<close> refuses the call
  at the last id, and does not differ from \<open>node_exec\<close> before.
\<close>

definition bounded_exec :: "(string \<Rightarrow> string) \<Rightarrow> ('f, 'b) float_ops \<Rightarrow> node_call \<Rightarrow> world \<Rightarrow> world res" where
  "bounded_exec hexNorm fo call w =
     (if next_node w = - 1 then Inl (NodeErr ErrNodeNotFound) else node_exec hexNorm fo call w)"

lemma next_node_bound:
  assumes "unat (next_node w) + Suc n < 2 ^ 64"
  shows "next_node w \<noteq> - 1" "unat (next_node w + 1) = Suc (unat (next_node w))"
proof -
  show room: "next_node w \<noteq> - 1"
  proof
    assume "next_node w = - 1"
    then have "unat (next_node w) = 2 ^ 64 - 1" by (simp add: unsigned_minus_1_eq_mask mask_eq_exp_minus_1)
    with assms show False by simp
  qed
  show "unat (next_node w + 1) = Suc (unat (next_node w))" by (rule unat_u64_Suc [OF room])
qed

lemma run_bounded:
  assumes "node_inv w" and "unat (next_node w) + length calls < 2 ^ 64"
  shows "run_txs (node_exec hexNorm fo) calls w = run_txs (bounded_exec hexNorm fo) calls w"
  using assms
proof (induction calls arbitrary: w)
  case (Cons call calls)
  note room = next_node_bound [of w "length calls"]
  have eq: "apply_tx (node_exec hexNorm fo) call w = apply_tx (bounded_exec hexNorm fo) call w"
    using room Cons.prems by (simp add: apply_tx_def bounded_exec_def)
  have "node_inv (apply_tx (node_exec hexNorm fo) call w)"
    using Cons.prems room node_exec_inv(1) [OF Cons.prems(1)] by (auto simp: apply_tx_def split: sum.split)
  moreover have "unat (next_node (apply_tx (node_exec hexNorm fo) call w)) \<le> Suc (unat (next_node w))"
    using Cons.prems room node_exec_inv(2) [OF Cons.prems(1), of hexNorm fo call]
    by (cases "node_exec hexNorm fo call w") (auto simp: apply_tx_def)
  ultimately show ?case using Cons.IH Cons.prems(2) eq by simp
qed simp

text \<open>What a sequence of calls keeps of the nodes already registered.\<close>

definition nodes_kept :: "world \<Rightarrow> world \<Rightarrow> bool" where
  "nodes_kept w w' \<longleftrightarrow> (\<forall>k i. nodeRegistry (nodes w) k = Some i \<longrightarrow>
     (\<exists>i'. nodeRegistry (nodes w') k = Some i' \<and> ConsensusPubKey i' = ConsensusPubKey i \<and>
        P2PID i' = P2PID i \<and> status_step\<^sup>*\<^sup>* (Status i) (Status i')))"

lemma nodes_kept_refl: "nodes_kept w w"
  by (simp add: nodes_kept_def)

lemma nodes_kept_trans:
  assumes "nodes_kept u v" and "nodes_kept v w"
  shows "nodes_kept u w"
  unfolding nodes_kept_def
proof (intro allI impI)
  fix k i assume "nodeRegistry (nodes u) k = Some i"
  with assms(1) obtain j where j: "nodeRegistry (nodes v) k = Some j" "ConsensusPubKey j = ConsensusPubKey i"
    "P2PID j = P2PID i" "status_step\<^sup>*\<^sup>* (Status i) (Status j)" by (auto simp: nodes_kept_def)
  from assms(2) j(1) obtain l where "nodeRegistry (nodes w) k = Some l" "ConsensusPubKey l = ConsensusPubKey j"
    "P2PID l = P2PID j" "status_step\<^sup>*\<^sup>* (Status j) (Status l)" by (auto simp: nodes_kept_def)
  with j show "\<exists>i'. nodeRegistry (nodes w) k = Some i' \<and> ConsensusPubKey i' = ConsensusPubKey i \<and>
        P2PID i' = P2PID i \<and> status_step\<^sup>*\<^sup>* (Status i) (Status i')" by auto
qed

lemma node_exec_kept:
  assumes "node_inv w" and "node_exec hexNorm fo call w = Inr w'"
  shows "nodes_kept w w'"
proof -
  from node_exec_record [OF assms] obtain k i' where up: "nodeRegistry (nodes w') = (nodeRegistry (nodes w))(k \<mapsto> i')"
    and step: "\<And>i. nodeRegistry (nodes w) k = Some i \<Longrightarrow> record_step call k i i'"
    by (metis option.simps(5))
  show ?thesis
    unfolding nodes_kept_def up using step by (fastforce simp: record_step_def)
qed

interpretation node_machine: contract_monotone "bounded_exec hexNorm fo" "\<lambda>_. True" node_inv nodes_kept
  for hexNorm :: "string \<Rightarrow> string" and fo :: "('f, 'b) float_ops"
proof
  show "node_inv w \<Longrightarrow> True \<Longrightarrow> bounded_exec hexNorm fo call w = Inr w' \<Longrightarrow> node_inv w'" for w call w'
    using node_exec_inv(1) by (auto simp: bounded_exec_def split: if_splits)
  show "node_inv w \<Longrightarrow> True \<Longrightarrow> bounded_exec hexNorm fo call w = Inr w' \<Longrightarrow> nodes_kept w w'" for w call w'
    using node_exec_kept by (auto simp: bounded_exec_def split: if_splits)
qed (auto intro: nodes_kept_refl nodes_kept_trans)

lemma node_inv_empty: "nodes w = nodes empty_world \<Longrightarrow> node_inv w"
  by (simp add: node_inv_def node_index_inv_def node_status_inv_def voting_inv_def indexes_def
      statusIDs_def NodeManager_GetActiveValidatorIDSet_def)

lemma node_status_of:
  assumes "node_inv w" and "nodeRegistry (nodes w) k = Some i"
  shows "k \<in> set (statusIDs st w) \<longleftrightarrow> st = Status i" and "distinct (statusIDs st w)"
proof -
  have st: "node_status_inv w" using assms(1) by (simp add: node_inv_def)
  show "k \<in> set (statusIDs st w) \<longleftrightarrow> st = Status i" "distinct (statusIDs st w)"
    using node_status_invD [OF st] assms(2) by auto
qed


definition node_example_calls :: "node_call list" where
  "node_example_calls =
     [CallRegister (node_example 0 DataSyncer),
      CallRegister ((node_example 0 Active)\<lparr>P2PID := ''r''\<rparr>),
      CallExit (user 7) 1, CallExit (user 7) 1]"


text \<open>
  C20: Only the operator changes a node. If a successful call changes the record of a registered
  node, the call named that node and came from its operator or from another system contract;
  id and keys are as before and the status moved along an edge of the status graph or not at all.
\<close>

theorem node_changes_authorised:
  assumes inv: "node_inv w" and ok: "node_exec hexNorm fo call w = Inr w'"
    and i: "nodeRegistry (nodes w) k = Some i" and changed: "nodeRegistry (nodes w') k \<noteq> Some i"
  shows "(\<exists>ctx. call_target call = Some (ctx, k) \<and> (ctx_CallFromSystem ctx \<or> ctx_From ctx = Operator i)) \<and>
         (\<exists>i'. nodeRegistry (nodes w') k = Some i' \<and> node_ID i' = node_ID i \<and>
            ConsensusPubKey i' = ConsensusPubKey i \<and> P2PID i' = P2PID i \<and>
            (Status i' = Status i \<or> status_step (Status i) (Status i')))"
proof -
  from node_exec_record [OF inv ok] obtain k' i'
    where up: "nodeRegistry (nodes w') = (nodeRegistry (nodes w))(k' \<mapsto> i')"
      and step: "\<And>j. nodeRegistry (nodes w) k' = Some j \<Longrightarrow> record_step call k' j i'"
    by (metis option.simps(5))
  from up changed i have "k' = k" by (auto split: if_splits)
  with up step i show ?thesis by (auto simp: record_step_def)
qed

theorem node_changes_authorised_witness:
  "\<exists>w'. node_exec (\<lambda>s. s) int_float (CallExit (user 7) 1)
           (run_txs (node_exec (\<lambda>s. s) int_float) (take 1 node_example_calls) empty_world) = Inr w' \<and>
     (\<exists>ctx. call_target (CallExit (user 7) 1) = Some (ctx, 1) \<and> ctx_From ctx = 7)"
proof -
  let ?exec = "node_exec (\<lambda>s. s) int_float"
  let ?w = "run_txs ?exec (take 1 node_example_calls) empty_world"
  have inv: "node_inv ?w"
    using node_exec_inv(1) [OF node_inv_empty [OF refl], of "\<lambda>s. s" int_float "CallRegister (node_example 0 DataSyncer)"]
      node_inv_empty [OF refl]
    by (auto simp: node_example_calls_def apply_tx_def next_node_def split: sum.split)
  have st: "map_option Status (nodeRegistry (nodes ?w) 1) = Some DataSyncer"
    "map_option Operator (nodeRegistry (nodes ?w) 1) = Some 7" by code_simp+
  have "case ?exec (CallExit (user 7) 1) ?w of Inl _ \<Rightarrow> False | Inr w' \<Rightarrow> map_option Status (nodeRegistry (nodes w') 1) = Some Exited"
    by code_simp
  then obtain w' where w': "?exec (CallExit (user 7) 1) ?w = Inr w'"
    and "map_option Status (nodeRegistry (nodes w') 1) = Some Exited" by (auto split: sum.splits)
  moreover from st obtain i where i: "nodeRegistry (nodes ?w) 1 = Some i" "Status i = DataSyncer" "Operator i = 7" by auto
  ultimately have changed: "nodeRegistry (nodes w') 1 \<noteq> Some i" by auto
  from node_changes_authorised [OF inv w' i(1) changed] i(3) w' show ?thesis by (auto simp: user_def)
qed

section \<open>The election of the validators\<close>

lemma elect_eq:
  assumes "sorted_wrt (\<lambda>x y. stakeValue y \<le> stakeValue x) xs" and "length vs \<le> unat m"
  shows "elect m s xs vs cs =
    (let n = min (unat m - length vs) (length (takeWhile (\<lambda>x. s \<le> stakeValue x) xs))
     in (vs @ take n xs, cs @ drop n xs))"
  using assms
proof (induction xs arbitrary: vs cs)
  case (Cons x xs)
  have "unat m < 2 ^ LENGTH(64)" by (rule unsigned_less)
  then have len: "of_nat (length vs) < m \<longleftrightarrow> length vs < unat m"
    using Cons.prems(2) by (simp add: word_less_nat_alt unat_of_nat)
  have sorted: "sorted_wrt (\<lambda>x y. stakeValue y \<le> stakeValue x) xs" using Cons.prems(1) by simp
  show ?case
  proof (cases "s \<le> stakeValue x \<and> length vs < unat m")
    case True
    then have "unat m - length vs = Suc (unat m - Suc (length vs))" by (simp add: Suc_diff_Suc)
    then show ?thesis using True Cons.IH [OF sorted, of "vs @ [x]" cs] len by (simp add: Let_def)
  next
    case False
    have "takeWhile (\<lambda>x. s \<le> stakeValue x) xs = []" if "\<not> s \<le> stakeValue x"
      using Cons.prems(1) that by (cases xs) auto
    then show ?thesis
      using False Cons.IH [OF sorted Cons.prems(2), of "cs @ [x]"] len Cons.prems(2) by (auto simp: Let_def)
  qed
qed simp

text \<open>The documented contract of \<open>sort.Sort\<close> with \<open>sortNodeInfos.Less\<close>.\<close>

definition sorts_by_stake :: "(sort_info list \<Rightarrow> sort_info list) \<Rightarrow> bool" where
  "sorts_by_stake srt \<longleftrightarrow>
     (\<forall>xs. mset (srt xs) = mset xs \<and> sorted_wrt (\<lambda>x y. stakeValue x \<le> stakeValue y) (srt xs))"

lemma sorts_by_stake_sort_key: "sorts_by_stake (sort_key stakeValue)"
  unfolding sorts_by_stake_def by (intro allI conjI) (simp, rule iffD1 [OF sorted_map sorted_sort_key])

text \<open>The election as a choice: the best of the eligible, as many as there are seats.\<close>

definition elected :: "u64 \<Rightarrow> int \<Rightarrow> sort_info list \<Rightarrow> sort_info list \<Rightarrow> sort_info list \<Rightarrow> bool" where
  "elected m s xs vs cs \<longleftrightarrow>
     mset vs + mset cs = mset xs \<and>
     length vs = min (unat m) (length (filter (\<lambda>x. s \<le> stakeValue x) xs)) \<and>
     (\<forall>v\<in>set vs. s \<le> stakeValue v) \<and>
     (\<forall>v\<in>set vs. \<forall>c\<in>set cs. stakeValue c \<le> stakeValue v)"

lemma takeWhile_sorted_filter:
  assumes "sorted_wrt (\<lambda>x y. stakeValue y \<le> stakeValue x) xs"
  shows "takeWhile (\<lambda>x. s \<le> stakeValue x) xs = filter (\<lambda>x. s \<le> stakeValue x) xs"
  using assms
proof (induction xs)
  case (Cons a xs)
  have "\<not> s \<le> stakeValue x" if "x \<in> set xs" "\<not> s \<le> stakeValue a" for x
    using Cons.prems that by fastforce
  then have "filter (\<lambda>x. s \<le> stakeValue x) xs = []" if "\<not> s \<le> stakeValue a"
    using that by (simp add: filter_empty_conv)
  then show ?case using Cons by simp
qed simp

lemma elect_elected:
  assumes "sorts_by_stake srt" and el: "elect m s (rev (srt xs)) [] [] = (vs, cs)"
  shows "elected m s xs vs cs"
proof -
  let ?ys = "rev (srt xs)" and ?E = "\<lambda>x. s \<le> stakeValue x"
  have ys: "mset ?ys = mset xs" "sorted_wrt (\<lambda>x y. stakeValue y \<le> stakeValue x) ?ys"
    using assms(1) by (simp_all add: sorts_by_stake_def sorted_wrt_rev)
  let ?n = "min (unat m) (length (takeWhile ?E ?ys))"
  have vs: "vs = take ?n ?ys" and cs: "cs = drop ?n ?ys"
    using el elect_eq [OF ys(2), of "[]" m s "[]"] by (simp_all add: Let_def)
  have "length (takeWhile ?E ?ys) = size (mset (filter ?E xs))"
    unfolding takeWhile_sorted_filter [OF ys(2)] size_mset [symmetric] mset_filter ys(1) ..
  then have "length vs = min (unat m) (length (filter ?E xs))"
    using length_takeWhile_le [of ?E ?ys] by (simp add: vs del: mset_filter)
  moreover have "mset vs + mset cs = mset xs"
    unfolding vs cs ys(1) [symmetric] by (simp only: mset_append [symmetric] append_take_drop_id)
  moreover have "?E v" if "v \<in> set vs" for v
  proof -
    have "set vs \<subseteq> set (take (length (takeWhile ?E ?ys)) ?ys)"
      unfolding vs by (rule set_take_subset_set_take) simp
    then have "set vs \<subseteq> set (takeWhile ?E ?ys)" unfolding takeWhile_eq_take [symmetric] .
    then show ?thesis using that by (auto dest: set_takeWhileD)
  qed
  moreover have "stakeValue c \<le> stakeValue v" if "v \<in> set vs" "c \<in> set cs" for v c
  proof -
    have "sorted_wrt (\<lambda>x y. stakeValue y \<le> stakeValue x) (vs @ cs)" using ys(2) by (simp add: vs cs)
    then show ?thesis using that by (simp add: sorted_wrt_append)
  qed
  ultimately show ?thesis by (simp add: elected_def)
qed

text \<open>Leaving: every id of the pending set is moved to the exited set and its pool is closed.\<close>

definition with_status :: "node_status \<Rightarrow> u64 set \<Rightarrow> (u64 \<rightharpoonup> node_info) \<Rightarrow> (u64 \<rightharpoonup> node_info)" where
  "with_status st A reg = (\<lambda>k. if k \<in> A then map_option (\<lambda>i. i\<lparr>Status := st\<rparr>) (reg k) else reg k)"

lemma with_status_empty [simp]: "with_status st {} reg = reg"
  by (simp add: with_status_def)

lemma with_status_insert:
  "reg k = Some i \<Longrightarrow> with_status st A (reg(k \<mapsto> i\<lparr>Status := st\<rparr>)) = with_status st (insert k A) reg"
  by (auto simp: with_status_def)

lemma available_chain:
  "s' = s1\<lparr>availablePools := a\<rparr> \<Longrightarrow> s1 = s\<lparr>availablePools := b\<rparr> \<Longrightarrow> s' = s\<lparr>availablePools := a\<rparr>"
  by simp

lemma available_only:
  assumes "s' = s\<lparr>availablePools := a\<rparr>"
  shows "poolInfos s' = poolInfos s"
    "currentEpochTotalStakeNotEnoughValidators s' = currentEpochTotalStakeNotEnoughValidators s"
  using assms by simp_all

lemma NodeManager_leave_Inr:
  "NodeManager_leave k w = Inr w' \<longleftrightarrow> (\<exists>info. nodeRegistry (nodes w) k = Some info \<and>
     NodeManager_operatorTransferStatus PendingInactive Exited info w = Inr w')"
  by (auto simp: NodeManager_leave_def ebind_Inr_iff)

lemma NodeManager_leaves:
  assumes "efold NodeManager_leave ids w = Inr w'" and "node_index_inv w" and "node_status_inv w"
  shows "node_index_inv w' \<and> node_status_inv w' \<and>
    nodeRegistry (nodes w') = with_status Exited (set ids) (nodeRegistry (nodes w)) \<and>
    set (statusIDs PendingInactive w') = set (statusIDs PendingInactive w) - set ids \<and>
    statusIDs Exited w' = statusIDs Exited w @ ids \<and>
    (\<forall>st. st \<noteq> PendingInactive \<longrightarrow> st \<noteq> Exited \<longrightarrow> statusIDs st w' = statusIDs st w) \<and>
    activeValidatorVotingPowers (nodes w') = activeValidatorVotingPowers (nodes w) \<and>
    nextNodeID (nodes w') = nextNodeID (nodes w) \<and> epochs w' = epochs w \<and> lst w' = lst w \<and>
    balances w' = balances w \<and> axc w' = axc w \<and>
    staking w' = (staking w)\<lparr>availablePools := availablePools (staking w')\<rparr>"
  using assms
proof (induction ids arbitrary: w)
  case (Cons k ids)
  from Cons.prems(1) obtain info w1 where info: "nodeRegistry (nodes w) k = Some info"
    and move: "NodeManager_operatorTransferStatus PendingInactive Exited info w = Inr w1"
    and rest: "efold NodeManager_leave ids w1 = Inr w'"
    by (auto simp: NodeManager_leave_Inr elim!: ebind_InrE)
  note k = node_index_invD(1) [OF Cons.prems(2) info]
  note inv1 = NodeManager_operatorTransferStatus_inv(1,2) [OF Cons.prems(2,3) info move]
  note n = NodeManager_operatorTransferStatus_nodes [OF move, unfolded k]
  note IH = Cons.IH [OF rest inv1]
  have "epochs w1 = epochs w \<and> lst w1 = lst w \<and> balances w1 = balances w \<and> axc w1 = axc w"
    using move by (rule NodeManager_operatorTransferStatus_Inr) simp
  moreover have "staking w' = (staking w)\<lparr>availablePools := availablePools (staking w')\<rparr>"
    using available_chain [OF _ NodeManager_operatorTransferStatus_staking(1) [OF move]] IH by blast
  moreover have "nodeRegistry (nodes w') = with_status Exited (set (k # ids)) (nodeRegistry (nodes w))"
    using IH unfolding n(2) with_status_insert [of "nodeRegistry (nodes w)" k info, OF info] by simp
  moreover have "set (statusIDs PendingInactive w') = set (statusIDs PendingInactive w) - set (k # ids)"
    using IH n(1) [of PendingInactive] node_status_invD(1) [OF Cons.prems(3)] by auto
  ultimately show ?case using IH n(1,3,4) by auto
qed simp

lemma NodeManager_processNodeLeave_Inr:
  assumes "NodeManager_processNodeLeave w = Inr (ids, w')"
  shows "ids = statusIDs PendingInactive w \<and> efold NodeManager_leave ids w = Inr w'"
  using assms
  by (auto simp: NodeManager_processNodeLeave_def statusIDs_def elim!: ebind_InrE split: option.splits)

lemma setRole_frame [simp]:
  "statusSets (nodes (setRole st x w)) = statusSets (nodes w)"
  "nextNodeID (nodes (setRole st x w)) = nextNodeID (nodes w)"
  "nodeNameIndex (nodes (setRole st x w)) = nodeNameIndex (nodes w)"
  "nodeP2PIDIndex (nodes (setRole st x w)) = nodeP2PIDIndex (nodes w)"
  "nodeConsensusPubKeyIndex (nodes (setRole st x w)) = nodeConsensusPubKeyIndex (nodes w)"
  "activeValidatorVotingPowers (nodes (setRole st x w)) = activeValidatorVotingPowers (nodes w)"
  "staking (setRole st x w) = staking w" "epochs (setRole st x w) = epochs w" "lst (setRole st x w) = lst w"
  "balances (setRole st x w) = balances w" "axc (setRole st x w) = axc w"
  by (simp_all add: setRole_def)

lemma setRoles_frame:
  "statusSets (nodes (fold (setRole st) xs w)) = statusSets (nodes w) \<and>
   nextNodeID (nodes (fold (setRole st) xs w)) = nextNodeID (nodes w) \<and>
   nodeNameIndex (nodes (fold (setRole st) xs w)) = nodeNameIndex (nodes w) \<and>
   nodeP2PIDIndex (nodes (fold (setRole st) xs w)) = nodeP2PIDIndex (nodes w) \<and>
   nodeConsensusPubKeyIndex (nodes (fold (setRole st) xs w)) = nodeConsensusPubKeyIndex (nodes w) \<and>
   activeValidatorVotingPowers (nodes (fold (setRole st) xs w)) = activeValidatorVotingPowers (nodes w) \<and>
   staking (fold (setRole st) xs w) = staking w \<and> epochs (fold (setRole st) xs w) = epochs w \<and>
   lst (fold (setRole st) xs w) = lst w \<and> balances (fold (setRole st) xs w) = balances w \<and>
   axc (fold (setRole st) xs w) = axc w"
  by (induction xs arbitrary: w) simp_all

abbreviation sortID :: "sort_info \<Rightarrow> u64" where
  "sortID x \<equiv> node_ID (sortNode x)"

lemma setRoles_registry:
  assumes "distinct (map sortID xs)"
    and "\<And>x. x \<in> set xs \<Longrightarrow> nodeRegistry (nodes w) (sortID x) = Some (sortNode x)"
  shows "nodeRegistry (nodes (fold (setRole st) xs w)) =
    with_status st (sortID ` set xs) (nodeRegistry (nodes w))"
  using assms
proof (induction xs arbitrary: w)
  case (Cons x xs)
  have x: "nodeRegistry (nodes w) (sortID x) = Some (sortNode x)" using Cons.prems(2) by simp
  have one: "nodeRegistry (nodes (setRole st x w)) =
      (nodeRegistry (nodes w))(sortID x \<mapsto> (sortNode x)\<lparr>Status := st\<rparr>)"
    using x by (auto simp: setRole_def map_upd_triv)
  have "nodeRegistry (nodes (setRole st x w)) (sortID y) = Some (sortNode y)" if "y \<in> set xs" for y
  proof -
    have "sortID x \<notin> sortID ` set xs" using Cons.prems(1) by simp
    with that have "sortID y \<noteq> sortID x" by (metis image_eqI)
    then show ?thesis using Cons.prems(2) [of y] that by (simp add: one)
  qed
  then have "nodeRegistry (nodes (fold (setRole st) xs (setRole st x w))) =
      with_status st (sortID ` set xs) (nodeRegistry (nodes (setRole st x w)))"
    using Cons.IH [of "setRole st x w"] Cons.prems(1) by simp
  then show ?case
    unfolding one with_status_insert [of "nodeRegistry (nodes w)" "sortID x" "sortNode x", OF x] by simp
qed simp

lemma NodeManager_TurnIntoNewEpoch_Inr:
  assumes "NodeManager_TurnIntoNewEpoch srt e w = Inr w'"
  obtains w1 infos xs vs cs where "efold NodeManager_leave (statusIDs PendingInactive w) w = Inr w1"
    "NodeManager_GetInfos (filter (\<lambda>k. k \<notin> set (statusIDs PendingInactive w))
       (NodeManager_getConsensusCandidateNodeIDs w1)) w1 = Inr infos"
    "emap (stakeOfNode w1) infos = Inr xs"
    "elect (MaxValidatorNum (ConsensusParams e)) (MinValidatorStake (StakeParams e)) (rev (srt xs)) [] [] = (vs, cs)"
    "MinValidatorNum (ConsensusParams e) \<le> of_nat (length vs)"
    "w' = fold (setRole Active) vs (fold (setRole Candidate) cs
       (putVotingPowers (map (\<lambda>x. votingPower (sortID x) (stakeValue x)) vs)
         (putStatusIDs Active (map sortID vs) (putStatusIDs Candidate (map sortID cs) w1))))"
proof -
  from assms obtain ids w1 infos xs where leave: "NodeManager_processNodeLeave w = Inr (ids, w1)"
    and infos: "NodeManager_GetInfos (filter (\<lambda>k. k \<notin> set ids) (NodeManager_getConsensusCandidateNodeIDs w1)) w1 = Inr infos"
    and xs: "emap (stakeOfNode w1) infos = Inr xs"
    and rest: "(let (validators, candidates) =
           elect (MaxValidatorNum (ConsensusParams e)) (MinValidatorStake (StakeParams e)) (rev (srt xs)) [] []
         in if of_nat (length validators) < MinValidatorNum (ConsensusParams e)
            then Inl (NodeErr NotEnoughValidators)
            else
              let w2 = putStatusIDs Candidate (map sortID candidates) w1;
                  w3 = putStatusIDs Active (map sortID validators) w2;
                  w4 = putVotingPowers (map (\<lambda>x. votingPower (sortID x) (stakeValue x)) validators) w3
              in Inr (fold (setRole Active) validators (fold (setRole Candidate) candidates w4))) = Inr w'"
    by (auto simp: NodeManager_TurnIntoNewEpoch_def Let_def elim!: ebind_InrE)
  obtain vs cs where el: "elect (MaxValidatorNum (ConsensusParams e)) (MinValidatorStake (StakeParams e)) (rev (srt xs)) [] [] = (vs, cs)"
    by fastforce
  from NodeManager_processNodeLeave_Inr [OF leave] infos xs el rest show thesis
    by (intro that [of w1 infos xs vs cs]) (auto simp: Let_def not_less split: if_splits)
qed

lemma stakeOfNode_Inr:
  "stakeOfNode w info = Inr x \<longleftrightarrow> (\<exists>p. poolInfos (staking w) (node_ID info) = Some p \<and>
     x = \<lparr>stakeValue = ActiveStake p, sortNode = info\<rparr>)"
  by (auto simp: stakeOfNode_def StakingManager_PoolActiveStake_def StakingPool_MustGetInfo_def ebind_Inr_iff)

lemma sortInfos_of:
  assumes "node_index_inv w" and infos: "NodeManager_GetInfos ids w = Inr infos"
    and xs: "emap (stakeOfNode w) infos = Inr xs"
  shows "map sortID xs = ids"
    and "x \<in> set xs \<Longrightarrow> nodeRegistry (nodes w) (sortID x) = Some (sortNode x)"
    and "x \<in> set xs \<Longrightarrow> \<exists>p. poolInfos (staking w) (sortID x) = Some p \<and> ActiveStake p = stakeValue x"
proof -
  have len: "length infos = length ids" "length xs = length infos"
    using infos xs by (auto simp: NodeManager_GetInfos_def dest: emap_Inr_length)
  have I: "nodeRegistry (nodes w) (ids ! n) = Some (infos ! n)" if "n < length ids" for n
    using infos that by (auto simp: NodeManager_GetInfos_def emap_Inr_iff list_all2_conv_all_nth)
  have X: "\<exists>p. poolInfos (staking w) (node_ID (infos ! n)) = Some p \<and>
      xs ! n = \<lparr>stakeValue = ActiveStake p, sortNode = infos ! n\<rparr>" if "n < length ids" for n
    using xs that len by (auto simp: emap_Inr_iff list_all2_conv_all_nth stakeOfNode_Inr)
  have ID: "sortNode (xs ! n) = infos ! n" "sortID (xs ! n) = ids ! n" if "n < length ids" for n
    using X [OF that] node_index_invD(1) [OF assms(1) I [OF that]] by auto
  show "map sortID xs = ids" using len ID by (intro nth_equalityI) auto
  show "x \<in> set xs \<Longrightarrow> nodeRegistry (nodes w) (sortID x) = Some (sortNode x)"
    using len ID I by (auto simp: in_set_conv_nth)
  show "x \<in> set xs \<Longrightarrow> \<exists>p. poolInfos (staking w) (sortID x) = Some p \<and> ActiveStake p = stakeValue x"
    using len X by (fastforce simp: in_set_conv_nth)
qed

lemma putVotingPowers_fields [simp]:
  "nodeRegistry (nodes (putVotingPowers vp w)) = nodeRegistry (nodes w)"
  "statusSets (nodes (putVotingPowers vp w)) = statusSets (nodes w)"
  "nextNodeID (nodes (putVotingPowers vp w)) = nextNodeID (nodes w)"
  "nodeNameIndex (nodes (putVotingPowers vp w)) = nodeNameIndex (nodes w)"
  "nodeP2PIDIndex (nodes (putVotingPowers vp w)) = nodeP2PIDIndex (nodes w)"
  "nodeConsensusPubKeyIndex (nodes (putVotingPowers vp w)) = nodeConsensusPubKeyIndex (nodes w)"
  "activeValidatorVotingPowers (nodes (putVotingPowers vp w)) = Some vp"
  "staking (putVotingPowers vp w) = staking w" "epochs (putVotingPowers vp w) = epochs w"
  "lst (putVotingPowers vp w) = lst w" "balances (putVotingPowers vp w) = balances w" "axc (putVotingPowers vp w) = axc w"
  by (simp_all add: putVotingPowers_def)

lemma with_status_Some:
  "with_status st A reg k = Some i \<longleftrightarrow>
     (\<exists>j. reg k = Some j \<and> i = (if k \<in> A then j\<lparr>Status := st\<rparr> else j))"
  by (auto simp: with_status_def)

lemma with_status_indexes:
  assumes "indexes idx f reg" and "\<And>i. f (i\<lparr>Status := st\<rparr>) = f i"
  shows "indexes idx f (with_status st A reg)"
  using assms by (auto simp: indexes_def with_status_Some split: if_splits) metis+

lemma node_index_with_status:
  assumes "node_index_inv w" and "nodeRegistry (nodes w') = with_status st A (nodeRegistry (nodes w))"
    and "nodeNameIndex (nodes w') = nodeNameIndex (nodes w)" "nodeP2PIDIndex (nodes w') = nodeP2PIDIndex (nodes w)"
    "nodeConsensusPubKeyIndex (nodes w') = nodeConsensusPubKeyIndex (nodes w)" "nextNodeID (nodes w') = nextNodeID (nodes w)"
  shows "node_index_inv w'"
  using assms node_index_invD [OF assms(1)]
  by (auto simp: node_index_inv_def next_node_def with_status_Some node_name_def intro!: with_status_indexes)

lemma roles_status_inv:
  assumes st: "node_status_inv w1"
    and reg: "nodeRegistry (nodes w') = with_status Active (set va) (with_status Candidate (set ca) (nodeRegistry (nodes w1)))"
    and sets: "statusIDs Active w' = va" "statusIDs Candidate w' = ca"
      "\<And>st. st \<noteq> Active \<Longrightarrow> st \<noteq> Candidate \<Longrightarrow> statusIDs st w' = statusIDs st w1"
    and parts: "distinct (va @ ca)" "set va \<union> set ca = set (statusIDs Candidate w1) \<union> set (statusIDs Active w1)"
  shows "node_status_inv w'"
  unfolding node_status_inv_def
proof (intro allI conjI)
  fix status k
  note D = node_status_invD [OF st]
  show "distinct (statusIDs status w')"
    using parts(1) sets D(1) by (cases "status = Active"; cases "status = Candidate") auto
  have mem: "k \<in> set va \<union> set ca \<longleftrightarrow>
      (\<exists>i. nodeRegistry (nodes w1) k = Some i \<and> (Status i = Candidate \<or> Status i = Active))"
    using parts(2) D(2) by blast
  have role: "(\<exists>info. nodeRegistry (nodes w') k = Some info \<and> Status info = status) \<longleftrightarrow>
      (\<exists>i. nodeRegistry (nodes w1) k = Some i \<and>
        status = (if k \<in> set va then Active else if k \<in> set ca then Candidate else Status i))"
    unfolding reg by (cases "nodeRegistry (nodes w1) k") (auto simp: with_status_def)
  show "k \<in> set (statusIDs status w') \<longleftrightarrow> (\<exists>info. nodeRegistry (nodes w') k = Some info \<and> Status info = status)"
  proof (cases "status = Active \<or> status = Candidate")
    case True
    then show ?thesis unfolding role using mem parts(1) sets(1,2) by (auto split: if_splits)
  next
    case False
    then have "k \<in> set (statusIDs status w') \<longleftrightarrow> (\<exists>i. nodeRegistry (nodes w1) k = Some i \<and> Status i = status)"
      using sets(3) D(2) by simp
    then show ?thesis unfolding role using False mem by (auto split: if_splits)
  qed
qed

text \<open>Everything a successful election does, in one place.\<close>

lemma NodeManager_TurnIntoNewEpoch_result:
  assumes inv: "node_inv w" and srt: "sorts_by_stake srt"
    and ok: "NodeManager_TurnIntoNewEpoch srt e w = Inr w'"
  obtains xs vs cs where "map sortID xs = sort (statusIDs Candidate w @ statusIDs Active w)"
    "\<forall>x\<in>set xs. \<exists>p. poolInfos (staking w) (sortID x) = Some p \<and> ActiveStake p = stakeValue x"
    "elected (MaxValidatorNum (ConsensusParams e)) (MinValidatorStake (StakeParams e)) xs vs cs"
    "MinValidatorNum (ConsensusParams e) \<le> of_nat (length vs)"
    "statusIDs Active w' = map sortID vs" "statusIDs Candidate w' = map sortID cs"
    "statusIDs PendingInactive w' = []" "statusIDs DataSyncer w' = statusIDs DataSyncer w"
    "statusIDs Exited w' = statusIDs Exited w @ statusIDs PendingInactive w"
    "activeValidatorVotingPowers (nodes w') = Some (map (\<lambda>x. votingPower (sortID x) (stakeValue x)) vs)"
    "nodeRegistry (nodes w') = with_status Active (set (map sortID vs)) (with_status Candidate (set (map sortID cs))
       (with_status Exited (set (statusIDs PendingInactive w)) (nodeRegistry (nodes w))))"
    "node_inv w'" "staking w' = (staking w)\<lparr>availablePools := availablePools (staking w')\<rparr>"
    "epochs w' = epochs w" "lst w' = lst w" "balances w' = balances w" "axc w' = axc w"
proof -
  let ?P = "statusIDs PendingInactive w"
  from ok obtain w1 infos xs vs cs where leave: "efold NodeManager_leave ?P w = Inr w1"
    and infos: "NodeManager_GetInfos (filter (\<lambda>k. k \<notin> set ?P) (NodeManager_getConsensusCandidateNodeIDs w1)) w1 = Inr infos"
    and xs: "emap (stakeOfNode w1) infos = Inr xs"
    and el: "elect (MaxValidatorNum (ConsensusParams e)) (MinValidatorStake (StakeParams e)) (rev (srt xs)) [] [] = (vs, cs)"
    and enough: "MinValidatorNum (ConsensusParams e) \<le> of_nat (length vs)"
    and w': "w' = fold (setRole Active) vs (fold (setRole Candidate) cs
       (putVotingPowers (map (\<lambda>x. votingPower (sortID x) (stakeValue x)) vs)
         (putStatusIDs Active (map sortID vs) (putStatusIDs Candidate (map sortID cs) w1))))"
    by (rule NodeManager_TurnIntoNewEpoch_Inr)
  from inv have "node_index_inv w" and st0: "node_status_inv w" by (simp_all add: node_inv_def)
  note L = NodeManager_leaves [OF leave this]
  then have idx1: "node_index_inv w1" and st1: "node_status_inv w1"
    and stake1: "staking w1 = (staking w)\<lparr>availablePools := availablePools (staking w1)\<rparr>" by blast+
  have same: "statusIDs Candidate w1 = statusIDs Candidate w" "statusIDs Active w1 = statusIDs Active w" using L by auto
  have disj: "k \<notin> set ?P" if "k \<in> set (statusIDs Candidate w) \<or> k \<in> set (statusIDs Active w)" for k
    using that node_status_invD(2) [OF st0] by fastforce
  have "filter (\<lambda>k. k \<notin> set ?P) (NodeManager_getConsensusCandidateNodeIDs w1) =
      sort (statusIDs Candidate w @ statusIDs Active w)"
    unfolding NodeManager_getConsensusCandidateNodeIDs_def same by (rule filter_True) (use disj in auto)
  note X = sortInfos_of [OF idx1 infos [unfolded this] xs]
  have elected: "elected (MaxValidatorNum (ConsensusParams e)) (MinValidatorStake (StakeParams e)) xs vs cs"
    by (rule elect_elected [OF srt el])
  then have parts: "mset (vs @ cs) = mset xs" by (simp add: elected_def)
  then have "mset (map sortID (vs @ cs)) = mset (map sortID xs)" by (simp only: mset_map)
  with mset_eq_setD [OF parts] have split: "mset (map sortID vs @ map sortID cs) = mset (map sortID xs)"
    "set vs \<union> set cs = set xs" by simp_all
  have "distinct (statusIDs Candidate w @ statusIDs Active w)"
    using node_status_invD [OF st0] by fastforce
  then have "distinct (map sortID xs)" unfolding X(1) by simp
  then have dist: "distinct (map sortID vs @ map sortID cs)" using split(1) mset_eq_imp_distinct_iff by blast
  have members: "set (map sortID vs) \<union> set (map sortID cs) = set (statusIDs Candidate w1) \<union> set (statusIDs Active w1)"
    using mset_eq_setD [OF split(1)] unfolding X(1) same by simp
  let ?w4 = "putVotingPowers (map (\<lambda>x. votingPower (sortID x) (stakeValue x)) vs)
         (putStatusIDs Active (map sortID vs) (putStatusIDs Candidate (map sortID cs) w1))"
  let ?w5 = "fold (setRole Candidate) cs ?w4"
  have reg5: "nodeRegistry (nodes ?w5) = with_status Candidate (set (map sortID cs)) (nodeRegistry (nodes w1))"
    using setRoles_registry [of cs ?w4 Candidate] dist X(2) split(2) by auto
  have "nodeRegistry (nodes ?w5) (sortID x) = Some (sortNode x)" if "x \<in> set vs" for x
  proof -
    have "sortID x \<notin> set (map sortID cs)" using dist that by auto
    then show ?thesis using X(2) that split(2) unfolding reg5 by (auto simp: with_status_def)
  qed
  then have reg: "nodeRegistry (nodes w') = with_status Active (set (map sortID vs))
      (with_status Candidate (set (map sortID cs)) (nodeRegistry (nodes w1)))"
    unfolding w' using setRoles_registry [of vs ?w5 Active] dist reg5 by simp
  note frame = setRoles_frame [of Active vs ?w5] setRoles_frame [of Candidate cs ?w4]
  have sets: "statusIDs st w' = (if st = Active then map sortID vs else if st = Candidate then map sortID cs
      else statusIDs st w1)" for st
    using frame by (simp add: w' statusIDs_def)
  have powers: "activeValidatorVotingPowers (nodes w') = Some (map (\<lambda>x. votingPower (sortID x) (stakeValue x)) vs)"
    using frame by (simp add: w')
  have "node_index_inv ?w5"
    by (rule node_index_with_status [OF idx1 reg5]) (use frame in simp_all)
  then have "node_index_inv w'"
    by (rule node_index_with_status) (use frame reg reg5 in \<open>simp_all add: w'\<close>)
  moreover have "node_status_inv w'"
    by (rule roles_status_inv [OF st1 reg _ _ _ dist members]) (simp_all add: sets)
  moreover have gone: "statusIDs PendingInactive w' = []" using L by (simp add: sets)
  moreover have "voting_inv w'"
    using dist gone
    by (simp add: voting_inv_def NodeManager_GetActiveValidatorIDSet_def powers sets votingPower_def comp_def)
  ultimately have "node_inv w'" by (simp add: node_inv_def)
  moreover have "\<forall>x\<in>set xs. \<exists>p. poolInfos (staking w) (sortID x) = Some p \<and> ActiveStake p = stakeValue x"
    using X(3) unfolding available_only(1) [OF stake1] by blast
  moreover have "staking w' = staking w1" "epochs w' = epochs w1" "lst w' = lst w1" "balances w' = balances w1" "axc w' = axc w1"
    using frame by (simp_all add: w')
  moreover have "staking w' = (staking w)\<lparr>availablePools := availablePools (staking w')\<rparr>"
    using stake1 unfolding \<open>staking w' = staking w1\<close> .
  moreover have "statusIDs DataSyncer w' = statusIDs DataSyncer w"
    "statusIDs Exited w' = statusIDs Exited w @ ?P" "statusIDs Active w' = map sortID vs"
    "statusIDs Candidate w' = map sortID cs" using L by (simp_all add: sets)
  moreover have "nodeRegistry (nodes w1) = with_status Exited (set ?P) (nodeRegistry (nodes w))"
    "epochs w1 = epochs w" "lst w1 = lst w" "balances w1 = balances w" "axc w1 = axc w" using L by blast+
  ultimately show thesis
    using X(1) elected enough gone powers reg by (intro that [of xs vs cs]) (simp_all only: simp_thms)
qed

lemma status_disjoint:
  "node_status_inv w \<Longrightarrow> st \<noteq> st' \<Longrightarrow> set (statusIDs st w) \<inter> set (statusIDs st' w) = {}"
  using node_status_invD(2) by fastforce

definition active_stake :: "world \<Rightarrow> u64 \<Rightarrow> int" where
  "active_stake w k = (case poolInfos (staking w) k of None \<Rightarrow> 0 | Some p \<Rightarrow> ActiveStake p)"

lemma elected_full:
  assumes "elected m s xs vs cs" and "c \<in> set cs" and "s \<le> stakeValue c"
  shows "length vs = unat m"
proof -
  let ?E = "\<lambda>x. s \<le> stakeValue x"
  have "mset xs = mset vs + mset cs" using assms(1) by (simp add: elected_def)
  then have "size (filter_mset ?E (mset xs)) = size (filter_mset ?E (mset vs)) + size (filter_mset ?E (mset cs))" by simp
  then have "length (filter ?E xs) = length (filter ?E vs) + length (filter ?E cs)"
    by (simp flip: mset_filter)
  moreover have "filter ?E vs = vs" using assms(1) by (simp add: elected_def)
  moreover have "filter ?E cs \<noteq> []" using assms(2,3) by (auto simp: filter_empty_conv)
  ultimately show ?thesis using assms(1) by (auto simp: elected_def min_def split: if_splits)
qed

text \<open>
  C5: The election is right. When the node contract turns the epoch, whatever order \<open>sort.Sort\<close> puts
  nodes of equal stake in: the former candidates and validators are split into the new validators
  and the new candidates; there are at least the minimum and at most the maximum number of
  validators; every validator has the minimum stake; a candidate that has it too was left out only
  because all seats are taken, by nodes with at least its stake; the voting powers are the stakes in
  whole coins; those who were leaving have left; and the registry is consistent again.
\<close>

theorem election_correct:
  assumes inv: "node_inv w" and srt: "sorts_by_stake srt"
    and ok: "NodeManager_TurnIntoNewEpoch srt e w = Inr w'"
  shows "set (statusIDs Active w') \<union> set (statusIDs Candidate w') =
           set (statusIDs Active w) \<union> set (statusIDs Candidate w) \<and>
         set (statusIDs Active w') \<inter> set (statusIDs Candidate w') = {} \<and>
         unat (MinValidatorNum (ConsensusParams e)) \<le> length (statusIDs Active w') \<and>
         length (statusIDs Active w') \<le> unat (MaxValidatorNum (ConsensusParams e)) \<and>
         (\<forall>k\<in>set (statusIDs Active w'). MinValidatorStake (StakeParams e) \<le> active_stake w k) \<and>
         (\<forall>c\<in>set (statusIDs Candidate w'). MinValidatorStake (StakeParams e) \<le> active_stake w c \<longrightarrow>
            length (statusIDs Active w') = unat (MaxValidatorNum (ConsensusParams e)) \<and>
            (\<forall>v\<in>set (statusIDs Active w'). active_stake w c \<le> active_stake w v)) \<and>
         activeValidatorVotingPowers (nodes w') = Some (map (\<lambda>k. \<lparr>NodeID = k,
            ConsensusVotingPower = word_of_int (active_stake w k div 10 ^ 18)\<rparr>) (statusIDs Active w')) \<and>
         statusIDs PendingInactive w' = [] \<and>
         statusIDs Exited w' = statusIDs Exited w @ statusIDs PendingInactive w \<and> node_inv w'"
proof -
  let ?m = "MaxValidatorNum (ConsensusParams e)" and ?s = "MinValidatorStake (StakeParams e)"
  from inv srt ok obtain xs vs cs where ids: "map sortID xs = sort (statusIDs Candidate w @ statusIDs Active w)"
    and stake: "\<forall>x\<in>set xs. \<exists>p. poolInfos (staking w) (sortID x) = Some p \<and> ActiveStake p = stakeValue x"
    and el: "elected ?m ?s xs vs cs"
    and enough: "MinValidatorNum (ConsensusParams e) \<le> of_nat (length vs)"
    and sets: "statusIDs Active w' = map sortID vs" "statusIDs Candidate w' = map sortID cs"
      "statusIDs PendingInactive w' = []" "statusIDs DataSyncer w' = statusIDs DataSyncer w"
      "statusIDs Exited w' = statusIDs Exited w @ statusIDs PendingInactive w"
    and powers: "activeValidatorVotingPowers (nodes w') = Some (map (\<lambda>x. votingPower (sortID x) (stakeValue x)) vs)"
    and "nodeRegistry (nodes w') = with_status Active (set (map sortID vs)) (with_status Candidate (set (map sortID cs))
       (with_status Exited (set (statusIDs PendingInactive w)) (nodeRegistry (nodes w))))"
    and inv': "node_inv w'"
    by (rule NodeManager_TurnIntoNewEpoch_result)
  from el have parts: "mset (vs @ cs) = mset xs" by (simp add: elected_def)
  have S: "active_stake w (sortID x) = stakeValue x" if "x \<in> set vs \<union> set cs" for x
  proof -
    have "x \<in> set xs" using that mset_eq_setD [OF parts] by auto
    then obtain p where "poolInfos (staking w) (sortID x) = Some p" "ActiveStake p = stakeValue x" using stake by blast
    then show ?thesis by (simp add: active_stake_def)
  qed
  have "set (map sortID vs) \<union> set (map sortID cs) = set (map sortID xs)"
    using mset_eq_setD [OF parts] by auto
  then have "set (statusIDs Active w') \<union> set (statusIDs Candidate w') = set (statusIDs Active w) \<union> set (statusIDs Candidate w)"
    using ids by (auto simp: sets)
  moreover have "set (statusIDs Active w') \<inter> set (statusIDs Candidate w') = {}"
    using inv' by (intro status_disjoint) (simp_all add: node_inv_def)
  moreover have len: "length vs \<le> unat ?m" using el by (simp add: elected_def)
  moreover have "unat (MinValidatorNum (ConsensusParams e)) \<le> length vs"
  proof -
    have "unat ?m < 2 ^ LENGTH(64)" by (rule unsigned_less)
    then show ?thesis using enough len by (simp add: word_le_nat_alt unat_of_nat)
  qed
  moreover have "\<forall>k\<in>set (statusIDs Active w'). ?s \<le> active_stake w k"
    using el S by (auto simp: elected_def sets)
  moreover have "\<forall>c\<in>set (statusIDs Candidate w'). ?s \<le> active_stake w c \<longrightarrow>
      length (statusIDs Active w') = unat ?m \<and> (\<forall>v\<in>set (statusIDs Active w'). active_stake w c \<le> active_stake w v)"
  proof (intro ballI impI)
    fix c assume "c \<in> set (statusIDs Candidate w')" and big: "?s \<le> active_stake w c"
    then obtain x where x: "x \<in> set cs" "c = sortID x" by (auto simp: sets)
    then have "length vs = unat ?m" using elected_full [OF el x(1)] big S by simp
    moreover have "active_stake w c \<le> active_stake w v" if "v \<in> set (statusIDs Active w')" for v
      using that el x S by (auto simp: elected_def sets)
    ultimately show "length (statusIDs Active w') = unat ?m \<and>
        (\<forall>v\<in>set (statusIDs Active w'). active_stake w c \<le> active_stake w v)" by (simp add: sets)
  qed
  moreover have "map (\<lambda>x. votingPower (sortID x) (stakeValue x)) vs = map (\<lambda>k. \<lparr>NodeID = k,
      ConsensusVotingPower = word_of_int (active_stake w k div 10 ^ 18)\<rparr>) (map sortID vs)"
    using S by (simp add: votingPower_def axcUnit_def)
  ultimately show ?thesis
    using inv' unfolding powers sets(3,5) by (simp add: sets(1))
qed

text \<open>When the election succeeds: the pools are there and enough nodes have the minimum stake.\<close>

lemma NodeManager_operatorTransferStatus_leave_ok:
  assumes "node_index_inv w" and "node_status_inv w" and "nodeRegistry (nodes w) k = Some info"
    and "Status info = PendingInactive" and "availablePools (staking w) = Some pools" and "k \<in> set pools"
    and "poolInfos (staking w) k \<noteq> None"
  shows "\<exists>w'. NodeManager_operatorTransferStatus PendingInactive Exited info w = Inr w' \<and>
    availablePools (staking w') = Some (sort (remove1 k pools)) \<and> poolInfos (staking w') = poolInfos (staking w)"
proof -
  have k: "node_ID info = k" by (rule node_index_invD(1) [OF assms(1,3)])
  obtain w1 where w1: "NodeManager_moveStatus PendingInactive Exited info w = Inr w1"
    using NodeManager_moveStatus_ok [OF assms(2,3) k, of Exited] assms(4) by auto
  have s: "staking w1 = staking w" using NodeManager_moveStatus_sets [OF w1] by simp
  have "StakingManager_DisablePool k w1 = Inr (putAvailablePools (sort (remove1 k pools)) w1)"
    using assms(5-7) s
    by (simp add: StakingManager_DisablePool_def StakingManager_removeAvailableStakingPool_def StakingPool_Exists_def)
  then show ?thesis
    using w1 k s by (simp add: NodeManager_operatorTransferStatus_def putAvailablePools_def)
qed

lemma NodeManager_leaves_ok:
  assumes "node_index_inv w" and "node_status_inv w" and "distinct ids"
    and "set ids \<subseteq> set (statusIDs PendingInactive w)" and "availablePools (staking w) = Some pools"
    and "set ids \<subseteq> set pools" and "\<forall>k\<in>set ids. poolInfos (staking w) k \<noteq> None"
  shows "\<exists>w'. efold NodeManager_leave ids w = Inr w'"
  using assms
proof (induction ids arbitrary: w pools)
  case (Cons k ids)
  have "k \<in> set (statusIDs PendingInactive w)" using Cons.prems(4) by simp
  then obtain info where info: "nodeRegistry (nodes w) k = Some info" "Status info = PendingInactive"
    using node_status_invD(2) [OF Cons.prems(2)] by blast
  have "k \<in> set pools" "poolInfos (staking w) k \<noteq> None" using Cons.prems(6,7) by simp_all
  from NodeManager_operatorTransferStatus_leave_ok [OF Cons.prems(1,2) info Cons.prems(5) this]
  obtain w1 where move: "NodeManager_operatorTransferStatus PendingInactive Exited info w = Inr w1"
    and av: "availablePools (staking w1) = Some (sort (remove1 k pools))"
    and same: "poolInfos (staking w1) = poolInfos (staking w)" by blast
  have k: "node_ID info = k" by (rule node_index_invD(1) [OF Cons.prems(1) info(1)])
  note inv1 = NodeManager_operatorTransferStatus_inv(1,2) [OF Cons.prems(1,2) info(1) move]
  have pend: "set ids \<subseteq> set (statusIDs PendingInactive w1)"
    using NodeManager_operatorTransferStatus_nodes(1) [OF move, of PendingInactive] Cons.prems(3,4)
      node_status_invD(1) [OF Cons.prems(2), of PendingInactive] by (auto simp: k)
  have "x \<in> set (remove1 k pools)" if "x \<in> set ids" for x
    using that Cons.prems(3,6) in_set_remove1 [of x k pools] by (cases "x = k") auto
  then have "set ids \<subseteq> set (sort (remove1 k pools))" by auto
  with Cons.IH [OF inv1 _ pend av] Cons.prems(3,7) same obtain w' where "efold NodeManager_leave ids w1 = Inr w'" by auto
  moreover have "NodeManager_leave k w = Inr w1" using info(1) move by (simp add: NodeManager_leave_Inr)
  ultimately show ?case by simp
qed simp

lemma emap_ok: "(\<And>x. x \<in> set xs \<Longrightarrow> \<exists>y. f x = Inr y) \<Longrightarrow> \<exists>ys. emap f xs = Inr ys"
proof (induction xs)
  case (Cons x xs)
  then obtain ys where "emap f xs = Inr ys" by auto
  moreover obtain y where "f x = Inr y" using Cons.prems by fastforce
  ultimately show ?case by simp
qed simp

lemma NodeManager_TurnIntoNewEpoch_live:
  assumes inv: "node_inv w" and srt: "sorts_by_stake srt"
    and av: "availablePools (staking w) = Some pools" "set (statusIDs PendingInactive w) \<subseteq> set pools"
    and pools: "\<And>k. k \<in> set (statusIDs Candidate w) \<union> set (statusIDs Active w) \<union> set (statusIDs PendingInactive w) \<Longrightarrow>
      poolInfos (staking w) k \<noteq> None"
    and enough: "unat (MinValidatorNum (ConsensusParams e)) \<le>
      card {k \<in> set (statusIDs Candidate w) \<union> set (statusIDs Active w). MinValidatorStake (StakeParams e) \<le> active_stake w k}"
      "MinValidatorNum (ConsensusParams e) \<le> MaxValidatorNum (ConsensusParams e)"
  shows "\<exists>w'. NodeManager_TurnIntoNewEpoch srt e w = Inr w'"
proof -
  let ?P = "statusIDs PendingInactive w" and ?m = "MaxValidatorNum (ConsensusParams e)"
    and ?s = "MinValidatorStake (StakeParams e)"
  from inv have idx0: "node_index_inv w" and st0: "node_status_inv w" by (simp_all add: node_inv_def)
  obtain w1 where leave: "efold NodeManager_leave ?P w = Inr w1"
    using NodeManager_leaves_ok [OF idx0 st0 node_status_invD(1) [OF st0] _ av] pools by blast
  note L = NodeManager_leaves [OF leave idx0 st0]
  then have idx1: "node_index_inv w1" and st1: "node_status_inv w1"
    and stake1: "staking w1 = (staking w)\<lparr>availablePools := availablePools (staking w1)\<rparr>"
    and same: "statusIDs Candidate w1 = statusIDs Candidate w" "statusIDs Active w1 = statusIDs Active w" by auto
  define ids where "ids = filter (\<lambda>k. k \<notin> set ?P) (NodeManager_getConsensusCandidateNodeIDs w1)"
  have ids: "set ids = set (statusIDs Candidate w) \<union> set (statusIDs Active w)" "distinct ids"
    using status_disjoint [OF st0, of Candidate PendingInactive] status_disjoint [OF st0, of Active PendingInactive]
      status_disjoint [OF st0, of Candidate Active] node_status_invD(1) [OF st0]
    by (auto simp: ids_def NodeManager_getConsensusCandidateNodeIDs_def same)
  have "\<exists>i. NodeManager_GetInfo k w1 = Inr i" if "k \<in> set ids" for k
    using that node_status_invD(2) [OF st1] unfolding ids(1) same [symmetric] by auto
  then obtain infos where infos: "NodeManager_GetInfos ids w1 = Inr infos"
    unfolding NodeManager_GetInfos_def by (metis emap_ok)
  have "\<exists>x. stakeOfNode w1 i = Inr x" if "i \<in> set infos" for i
  proof -
    from infos that obtain k where "k \<in> set ids" "nodeRegistry (nodes w1) k = Some i"
      by (fastforce simp: NodeManager_GetInfos_def emap_Inr_iff list_all2_conv_all_nth in_set_conv_nth)
    then have "poolInfos (staking w1) (node_ID i) \<noteq> None"
      using node_index_invD(1) [OF idx1] pools ids(1) unfolding available_only(1) [OF stake1] by auto
    then show ?thesis by (auto simp: stakeOfNode_Inr)
  qed
  then obtain xs where xs: "emap (stakeOfNode w1) infos = Inr xs" by (metis emap_ok)
  note X = sortInfos_of [OF idx1 infos xs, unfolded available_only(1) [OF stake1]]
  obtain vs cs where el: "elect ?m ?s (rev (srt xs)) [] [] = (vs, cs)" by fastforce
  have S: "active_stake w (sortID x) = stakeValue x" if "x \<in> set xs" for x
    using X(3) [OF that] by (auto simp: active_stake_def)
  have "{k \<in> set (statusIDs Candidate w) \<union> set (statusIDs Active w). ?s \<le> active_stake w k} =
      sortID ` set (filter (\<lambda>x. ?s \<le> stakeValue x) xs)"
    using S unfolding ids(1) [symmetric] X(1) [symmetric] by auto
  then have "unat (MinValidatorNum (ConsensusParams e)) \<le> length (filter (\<lambda>x. ?s \<le> stakeValue x) xs)"
    using enough(1) card_image_le [of "set (filter (\<lambda>x. ?s \<le> stakeValue x) xs)" sortID]
      card_length [of "filter (\<lambda>x. ?s \<le> stakeValue x) xs"] by simp
  then have "unat (MinValidatorNum (ConsensusParams e)) \<le> length vs" "length vs \<le> unat ?m"
    using elect_elected [OF srt el] enough(2) by (simp_all add: elected_def word_le_nat_alt)
  moreover have "unat ?m < 2 ^ LENGTH(64)" by (rule unsigned_less)
  ultimately have "\<not> of_nat (length vs) < MinValidatorNum (ConsensusParams e)"
    by (simp add: not_less word_le_nat_alt unat_of_nat)
  moreover have "NodeManager_processNodeLeave w = Inr (?P, w1)"
    using leave by (auto simp: NodeManager_processNodeLeave_def statusIDs_def split: option.splits)
  ultimately show ?thesis
    using infos xs el by (simp add: NodeManager_TurnIntoNewEpoch_def ids_def)
qed

text \<open>One candidate for one seat.\<close>

definition election_world :: world where
  "election_world = run_txs (node_exec (\<lambda>s. s) int_float)
     [CallRegister (node_example 0 DataSyncer), CallJoin (user 7) 1 500]
     (epoch_world\<lparr>staking := (staking epoch_world)\<lparr>availablePools := Some []\<rparr>\<rparr>)"

definition election_epoch :: epoch_info where
  "election_epoch = epoch_example
     \<lparr>ConsensusParams := (ConsensusParams epoch_example)\<lparr>MinValidatorNum := 1, MaxValidatorNum := 1\<rparr>,
      StakeParams := (StakeParams epoch_example)\<lparr>MinValidatorStake := 0\<rparr>\<rparr>"

lemma election_world_inv: "node_inv election_world"
proof -
  let ?w = "epoch_world\<lparr>staking := (staking epoch_world)\<lparr>availablePools := Some []\<rparr>\<rparr>"
  let ?calls = "[CallRegister (node_example 0 DataSyncer), CallJoin (user 7) 1 500]"
  have inv: "node_inv ?w" by (rule node_inv_empty) (simp add: epoch_world_def)
  have "unat (next_node ?w) + length ?calls < 2 ^ 64" by (simp add: next_node_def epoch_world_def)
  note run_bounded [OF inv this, of "\<lambda>s. s" int_float]
  then show ?thesis
    unfolding election_world_def by (simp add: node_machine.run_txs_inv [OF inv] list_all_iff del: run_txs_simps)
qed

lemma election_world_facts:
  "statusIDs Candidate election_world = [1]" "statusIDs Active election_world = []"
  "statusIDs PendingInactive election_world = []" "availablePools (staking election_world) = Some [1]"
  "map_option ActiveStake (poolInfos (staking election_world) 1) = Some 0"
  by code_simp+

theorem election_correct_witness:
  "\<exists>w'. NodeManager_TurnIntoNewEpoch (sort_key stakeValue) election_epoch election_world = Inr w' \<and>
     statusIDs Active w' = [1] \<and> node_inv w'"
proof -
  have stake: "active_stake election_world 1 = 0" "poolInfos (staking election_world) 1 \<noteq> None"
    using election_world_facts(5) by (auto simp: active_stake_def)
  have "{k. k = 1 \<and> 0 \<le> active_stake election_world k} = {1}" using stake by auto
  then obtain w' where w': "NodeManager_TurnIntoNewEpoch (sort_key stakeValue) election_epoch election_world = Inr w'"
    using NodeManager_TurnIntoNewEpoch_live [OF election_world_inv sorts_by_stake_sort_key
        election_world_facts(4), of election_epoch] stake
    by (auto simp: election_world_facts(1-3) election_epoch_def)
  note el = election_correct [OF election_world_inv sorts_by_stake_sort_key w']
  then have "length (statusIDs Active w') = 1" "set (statusIDs Active w') \<subseteq> {1}"
    by (auto simp: election_world_facts(1-3) election_epoch_def)
  then have "statusIDs Active w' = [1]" by (cases "statusIDs Active w'") auto
  with el w' show ?thesis by blast
qed

end
