(* ===== verification/Validator_Watch.thy ===== *)
theory Validator_Watch
  imports Node_Manager
begin

text \<open>
  The staking contract and the node contract together, over one epoch: the pools that are
  available are those of the candidates and validators, and the list of validators that will fall
  short of stake lets the election at the end of the epoch find enough validators.
\<close>

section \<open>Calls of all contracts\<close>

datatype sys_call =
    StakeCall stake_call
  | TokenCall lst_call
  | NodeCall node_call

fun sys_exec ::
  "int \<Rightarrow> (u64 list \<Rightarrow> u64 list) \<Rightarrow> (string \<Rightarrow> string) \<Rightarrow> ('f, 'b) float_ops \<Rightarrow> sys_call \<Rightarrow> world \<Rightarrow> world res" where
  "sys_exec rl iter hexNorm fo (StakeCall c) w = stake_exec rl iter c w"
| "sys_exec rl iter hexNorm fo (TokenCall c) w = lst_exec c w"
| "sys_exec rl iter hexNorm fo (NodeCall c) w = node_exec hexNorm fo c w"

text \<open>What transactions may call: the minting entries of the token are for the staking contract only.\<close>

fun user_sys_call :: "sys_call \<Rightarrow> bool" where
  "user_sys_call (TokenCall c) \<longleftrightarrow> user_call c \<and> lst_signed c"
| "user_sys_call _ \<longleftrightarrow> True"

section \<open>What changes in the pools\<close>

text \<open>\<open>pools_outside A w w'\<close>: of the staking state only the records of pools in \<open>A\<close> differ.\<close>

definition pools_outside :: "u64 set \<Rightarrow> world \<Rightarrow> world \<Rightarrow> bool" where
  "pools_outside A w w' \<longleftrightarrow> (\<forall>k. k \<notin> A \<longrightarrow> poolInfos (staking w') k = poolInfos (staking w) k) \<and>
     (\<forall>k. poolInfos (staking w) k \<noteq> None \<longrightarrow> poolInfos (staking w') k \<noteq> None) \<and>
     storedNotEnough w' = storedNotEnough w \<and> availablePools (staking w') = availablePools (staking w) \<and>
     nodes w' = nodes w \<and> epochs w' = epochs w"

lemma pools_outside_refl [simp]: "pools_outside A w w"
  by (simp add: pools_outside_def)

lemma pools_outside_trans:
  "pools_outside A u v \<Longrightarrow> pools_outside B v w \<Longrightarrow> pools_outside (A \<union> B) u w"
  by (auto simp: pools_outside_def)

lemma pools_outside_mono: "pools_outside A w w' \<Longrightarrow> A \<subseteq> B \<Longrightarrow> pools_outside B w w'"
  by (auto simp: pools_outside_def)

lemma storedNotEnough_puts [simp]:
  "storedNotEnough (putPool p info w) = storedNotEnough w" "storedNotEnough (putTotalStake n w) = storedNotEnough w"
  "storedNotEnough (putEpochAdd n w) = storedNotEnough w" "storedNotEnough (putEpochUnlock n w) = storedNotEnough w"
  "storedNotEnough (putNotEnough l w) = l" "storedNotEnough (EmitEvent ev w) = storedNotEnough w"
  "storedNotEnough (LiquidStakingToken_updateInfo t ti w) = storedNotEnough w"
  by (simp_all add: storedNotEnough_def putPool_def staking_puts)

lemma storedNotEnough_cong: "staking w = staking w' \<Longrightarrow> storedNotEnough w = storedNotEnough w'"
  by (simp add: storedNotEnough_def)

lemma StakingPool_UnlockStake_outside:
  assumes "StakingPool_UnlockStake ctx p t ti amount w = Inr w'"
  shows "pools_outside {p} w w'"
proof -
  from assms obtain info cur where r: "poolInfos (staking w) p = Some info" "EpochManager_CurrentEpoch w = Inr cur"
    by (rule StakingPool_UnlockStake_reads)
  show ?thesis
    by (rule StakingPool_UnlockStake_Inr [OF assms r]) (simp add: pools_outside_def)
qed

lemma StakingPool_WithdrawStake_outside:
  assumes "StakingPool_WithdrawStake ctx p t ti a amount w = Inr (pw, w')"
  shows "pools_outside {p} w w'"
proof -
  from assms obtain info cur where r: "poolInfos (staking w) p = Some info" "EpochManager_CurrentEpoch w = Inr cur"
    by (rule StakingPool_WithdrawStake_reads)
  from assms r obtain u ti' w1 w2 where "u = updateLiquidStakingTokenUnlockingRecords (ctx_Time ctx) ti"
    and w1: "w1 = LiquidStakingToken_updateInfo t ti'
       (if pw = 0 then w else putPool p (info\<lparr>PendingActiveStake := PendingActiveStake info - pw\<rparr>) w)"
    and tr: "Transfer StakingManagerContractAddr a amount w1 = Inr w2"
    and w': "w' = EmitEvent (EventWithdraw t a amount) w2"
    by (rule StakingPool_WithdrawStake_Inr)
  note f = Transfer_frame [OF tr]
  have "storedNotEnough w2 = storedNotEnough w1" using storedNotEnough_cong [OF f(4)] .
  then show ?thesis using f by (auto simp: pools_outside_def w' w1)
qed

lemma StakingPool_AddStake_outside:
  assumes "StakingPool_AddStake ctx p owner amount w = Inr w'"
  shows "pools_outside {p} w w'"
proof -
  from assms obtain info cur node v t w1 where info: "poolInfos (staking w) p = Some info"
    and "IsActive info" "ctx_Value ctx = Some v" "amount \<le> v" "nodeRegistry (nodes w) (pool_ID info) = Some node"
      "Status node = Candidate \<or> Status node = Active" "EpochManager_CurrentEpoch w = Inr cur"
    and mint: "LiquidStakingToken_Mint owner \<lparr>PoolID = pool_ID info, Principal = amount, Unlocked = 0,
       ActiveEpoch = Epoch cur + 1, UnlockingRecords = []\<rparr> w = Inr (t, w1)"
    and w': "w' = EmitEvent (EventAddStake (pool_ID info) owner amount t)
       (putPool p (info\<lparr>PendingActiveStake := PendingActiveStake info + amount\<rparr>) w1)"
    by (rule StakingPool_AddStake_Inr)
  note m = LiquidStakingToken_Mint_Inr(8-10) [OF mint]
  then show ?thesis using storedNotEnough_cong [OF m(2)] info by (auto simp: pools_outside_def w')
qed

lemma updateTotalStake_outside:
  "StakingManager_updateTotalStake b n w = Inr w' \<Longrightarrow> pools_outside {} w w'"
  using StakingManager_updateTotalStake_Inr [of b n w w'] by (auto simp: pools_outside_def)

text \<open>The loop of \<open>BatchUnlock\<close> collects exactly the validators whose pools it touched.\<close>

lemma unlockAll_outside:
  assumes "efold (unlockOne ctx vs) ps (iv, w) = Inr (iv', w')"
  shows "pools_outside (- set vs \<union> set iv') w w' \<and> set iv \<subseteq> set iv' \<and> (set iv \<subseteq> set vs \<longrightarrow> set iv' \<subseteq> set vs)"
  using assms
proof (induction ps arbitrary: iv w)
  case (Cons x ps)
  obtain t n where x: "x = (t, n)" by fastforce
  from Cons.prems obtain iv1 w1 where one: "unlockOne ctx vs (t, n) (iv, w) = Inr (iv1, w1)"
    and rest: "efold (unlockOne ctx vs) ps (iv1, w1) = Inr (iv', w')"
    by (auto simp: x elim!: ebind_InrE)
  from one obtain info where "infoMap (lst w) t = Some info" "ctx_From ctx = LiquidStakingToken_ownerOf t w"
    "PoolID info \<noteq> 0" and unlock: "StakingPool_UnlockStake ctx (PoolID info) t info n w = Inr w1"
    and iv1: "iv1 = (if PoolID info \<in> set vs \<and> PoolID info \<notin> set iv then iv @ [PoolID info] else iv)"
    by (rule unlockOne_Inr)
  note IH = Cons.IH [OF rest]
  have "{PoolID info} \<union> (- set vs \<union> set iv') \<subseteq> - set vs \<union> set iv'" using IH iv1 by (auto split: if_splits)
  from pools_outside_mono [OF pools_outside_trans [OF StakingPool_UnlockStake_outside [OF unlock]] this] IH
  show ?case using iv1 by (auto split: if_splits)
qed auto

lemma withdrawAll_outside:
  assumes "efold (withdrawOne ctx a) ps (n, w) = Inr (n', w')"
  shows "pools_outside UNIV w w'"
  using assms
proof (induction ps arbitrary: n w)
  case (Cons x ps)
  obtain t m where x: "x = (t, m)" by fastforce
  from Cons.prems obtain n1 w1 where one: "withdrawOne ctx a (t, m) (n, w) = Inr (n1, w1)"
    and rest: "efold (withdrawOne ctx a) ps (n1, w1) = Inr (n', w')"
    by (auto simp: x elim!: ebind_InrE)
  from one obtain info pw where "infoMap (lst w) t = Some info" "ctx_From ctx = LiquidStakingToken_ownerOf t w"
    "PoolID info \<noteq> 0" "StakingPool_WithdrawStake ctx (PoolID info) t info a m w = Inr (pw, w1)"
    by (rule withdrawOne_Inr)
  from pools_outside_mono [OF pools_outside_trans [OF StakingPool_WithdrawStake_outside [OF this(4)] Cons.IH [OF rest]]]
  show ?case by blast
qed simp

section \<open>The invariants\<close>

abbreviation validators :: "world \<Rightarrow> u64 set" where
  "validators w \<equiv> set (NodeManager_GetActiveValidatorIDSet w)"

abbreviation leaving :: "world \<Rightarrow> u64 set" where
  "leaving w \<equiv> set (statusIDs PendingInactive w)"

text \<open>Available are exactly the pools of the nodes that take part, each once, and their records exist.\<close>

definition roles_inv :: "world \<Rightarrow> bool" where
  "roles_inv w \<longleftrightarrow> (\<exists>pools. availablePools (staking w) = Some pools \<and> distinct pools \<and>
     set pools = set (statusIDs Candidate w) \<union> set (statusIDs Active w) \<union> leaving w \<and>
     (\<forall>k\<in>set pools. poolInfos (staking w) k \<noteq> None))"

text \<open>
  The watch: every validator that will be short of stake is on the list, only validators are, and
  without the ones on the list and the leaving ones there are enough validators.
\<close>

definition watch_inv :: "epoch_info \<Rightarrow> world \<Rightarrow> bool" where
  "watch_inv e w \<longleftrightarrow>
     (\<forall>k\<in>validators w. short_of_stake e w k \<longrightarrow> k \<in> set (storedNotEnough w)) \<and>
     set (storedNotEnough w) \<subseteq> validators w \<and>
     unat (MinValidatorNum (ConsensusParams e)) \<le> card (validators w - (leaving w \<union> set (storedNotEnough w)))"

definition chain_inv :: "epoch_info \<Rightarrow> world \<Rightarrow> bool" where
  "chain_inv e w \<longleftrightarrow> stake_inv e w \<and> node_inv w \<and> roles_inv w \<and> watch_inv e w"

lemma roles_inv_outside: "pools_outside A w w' \<Longrightarrow> roles_inv w \<Longrightarrow> roles_inv w'"
  unfolding roles_inv_def pools_outside_def using node_parts_cong(4) [of w' w] by fastforce

lemma short_of_stake_cong:
  "map_option nextEpochActiveStake (poolInfos (staking w) k) = map_option nextEpochActiveStake (poolInfos (staking w') k) \<Longrightarrow>
     short_of_stake e w k = short_of_stake e w' k"
  by (auto simp: short_of_stake_def split: option.splits)

lemma watch_inv_same:
  assumes "watch_inv e w" and "validators w' = validators w" and "leaving w' = leaving w"
    and "storedNotEnough w' = storedNotEnough w"
    and "\<And>k. k \<in> validators w \<Longrightarrow>
      map_option nextEpochActiveStake (poolInfos (staking w') k) = map_option nextEpochActiveStake (poolInfos (staking w) k)"
  shows "watch_inv e w'"
  using assms short_of_stake_cong [OF assms(5)] by (auto simp: watch_inv_def)

text \<open>
  The check restores the watch after the stake of the checked validators or the set of leaving
  ones changed; with the list and the leaving ones among the validators its subtraction does not wrap.
\<close>

lemma check_watch:
  assumes ok: "StakingManager_checkNextEpochValidatorActiveStake e n ids pend w = Inr w'"
    and n: "n = card (validators w)" and "set ids \<subseteq> validators w" and pend: "set pend = leaving w"
    and "leaving w \<subseteq> validators w" and "set (storedNotEnough w) \<subseteq> validators w"
    and old: "\<And>k. k \<in> validators w \<Longrightarrow> k \<notin> set ids \<Longrightarrow> short_of_stake e w k \<Longrightarrow> k \<in> set (storedNotEnough w)"
  shows "watch_inv e w'"
proof -
  let ?l = "nextNotEnough e ids w" and ?A = "leaving w \<union> set (nextNotEnough e ids w)"
  from ok have enough: "\<not> word_of_int (int n - int (card ?A)) < MinValidatorNum (ConsensusParams e)"
    and w': "w' = putNotEnough ?l w"
    by (auto simp: StakingManager_check_eq length_uniq pend split: if_splits)
  have sub: "set ?l \<subseteq> validators w" using assms(3,6) by (auto simp: set_nextNotEnough)
  then have "card ?A \<le> n" unfolding n using assms(5) by (intro card_mono) auto
  then have "word_of_int (int n - int (card ?A)) = (of_nat (n - card ?A) :: u64)" by (simp flip: of_nat_diff)
  moreover have "n - card ?A = card (validators w - ?A)"
    unfolding n using sub assms(5) by (intro card_Diff_subset [symmetric]) auto
  ultimately have "unat (MinValidatorNum (ConsensusParams e)) \<le> card (validators w - ?A) mod 2 ^ 64"
    using enough by (simp add: not_less word_le_nat_alt unat_of_nat)
  then have "unat (MinValidatorNum (ConsensusParams e)) \<le> card (validators w - ?A)"
    using mod_less_eq_dividend order_trans by blast
  moreover have "validators w' = validators w" "leaving w' = leaving w"
    using node_parts_cong(4,6) [of w' w] by (simp_all add: w')
  moreover have "short_of_stake e w' k = short_of_stake e w k" for k
    by (rule short_of_stake_cong) (simp add: w')
  moreover have "storedNotEnough w' = ?l" by (simp add: w')
  moreover have "k \<in> set ?l" if "k \<in> validators w" "short_of_stake e w k" for k
    using that old by (auto simp: set_nextNotEnough)
  ultimately show ?thesis using sub by (simp add: watch_inv_def)
qed

section \<open>The calls of the stakers\<close>

lemma chain_invD:
  assumes "chain_inv e w"
  shows "stake_inv e w" "node_inv w" "roles_inv w" "watch_inv e w" "leaving w \<subseteq> validators w"
    "set (storedNotEnough w) \<subseteq> validators w" "distinct (NodeManager_GetActiveValidatorIDSet w)"
    "EpochManager_CurrentEpoch w = Inr e"
    "k \<in> validators w \<Longrightarrow> short_of_stake e w k \<Longrightarrow> k \<in> set (storedNotEnough w)"
    "validators w = set (statusIDs Active w) \<union> leaving w"
  using assms by (auto simp: chain_inv_def watch_inv_def node_inv_def voting_inv_def dest: stake_invD)

text \<open>A staker's call, seen from the watch: some pools change, then the check runs on the validators among them.\<close>

lemma checked_change:
  assumes inv: "chain_inv e w" and out: "pools_outside A w w1"
    and maps: "StakingManager_getActiveValidatorIDSetMap w = (vs, pend)"
    and ids: "set ids \<subseteq> set vs" "A \<inter> set vs \<subseteq> set ids"
    and ok: "StakingManager_checkNextEpochValidatorActiveStake e (length vs) ids pend w1 = Inr w2"
  shows "watch_inv e w2" and "roles_inv w2" and "nodes w2 = nodes w"
proof -
  note D = chain_invD [OF inv]
  from maps have vs: "vs = NodeManager_GetActiveValidatorIDSet w" "set pend = leaving w"
    using D(7) by (auto simp: StakingManager_getActiveValidatorIDSetMap_def NodeManager_GetPendingInactiveIDSet_def uniq_id)
  have same: "nodes w1 = nodes w" and stored: "storedNotEnough w1 = storedNotEnough w"
    using out by (simp_all add: pools_outside_def)
  note N = node_parts_cong(4,6) [OF same]
  have old: "k \<in> set (storedNotEnough w1)" if "k \<in> validators w1" "k \<notin> set ids" "short_of_stake e w1 k" for k
  proof -
    have "k \<notin> A" using that ids vs N by auto
    then have "short_of_stake e w k" using out that(3) short_of_stake_cong [of w1 k w] by (simp add: pools_outside_def)
    then show ?thesis using that D(9) N stored by simp
  qed
  show "watch_inv e w2"
    by (rule check_watch [OF ok]) (use D(5,6) distinct_card [OF D(7)] ids vs N stored old in auto)
  from StakingManager_check_Inr [OF ok] obtain l where w2: "w2 = putNotEnough l w1" by blast
  have "roles_inv w1" by (rule roles_inv_outside [OF out D(3)])
  then show "roles_inv w2" using node_parts_cong(4) [of w2 w1] by (simp add: roles_inv_def w2)
  show "nodes w2 = nodes w" using same by (simp add: w2)
qed

lemma chain_inv_put:
  assumes "watch_inv e w" and "roles_inv w" and "nodes w' = nodes w" and "pools_outside {} w w'"
  shows "watch_inv e w'" "roles_inv w'"
proof -
  note N = node_parts_cong(4,6) [OF assms(3)]
  show "watch_inv e w'"
    by (rule watch_inv_same [OF assms(1)]) (use N assms(4) in \<open>simp_all add: pools_outside_def\<close>)
  show "roles_inv w'" by (rule roles_inv_outside [OF assms(4,2)])
qed

lemma StakingManager_AddStake_chain:
  assumes inv: "chain_inv e w" and ok: "StakingManager_AddStake rl ctx p owner amount w = Inr w'"
  shows "chain_inv e w'"
proof -
  note D = chain_invD [OF inv]
  from ok obtain cur add last vs pend w1 w2 w3 where cur: "EpochManager_CurrentEpoch w = Inr cur"
    and "MinDelegateStake (StakeParams cur) \<le> amount" "currentEpochTotalAddStake (staking w) = Some add"
      "lastEpochTotalStake (staking w) = Some last"
      "add + amount \<le> epochLimit rl last (MaxAddStakeRatio (StakeParams cur))"
    and maps: "StakingManager_getActiveValidatorIDSetMap w = (vs, pend)"
    and up: "StakingManager_updateTotalStake True amount w = Inr w1"
    and add: "StakingPool_AddStake ctx p owner amount w1 = Inr w2"
    and chk: "StakingManager_checkNextEpochValidatorActiveStake cur (length vs) (if p \<in> set vs then [p] else []) pend w2 = Inr w3"
    and w': "w' = putEpochAdd (add + amount) w3"
    by (rule StakingManager_AddStake_Inr)
  have [simp]: "cur = e" using cur D(8) by simp
  have out: "pools_outside {p} w w2"
    using pools_outside_trans [OF updateTotalStake_outside [OF up] StakingPool_AddStake_outside [OF add]] by simp
  note C = checked_change [OF inv out maps _ _ chk [simplified]]
  have "pools_outside {} w3 w'" by (simp add: pools_outside_def w')
  with C have "watch_inv e w'" "roles_inv w'" "nodes w' = nodes w"
    using chain_inv_put [of e w3 w'] by (auto simp: w')
  then show ?thesis
    using StakingManager_AddStake_stake_inv [OF D(1) ok] D(2) node_inv_cong [of w' w] by (simp add: chain_inv_def)
qed

lemma StakingManager_BatchUnlock_chain:
  assumes inv: "chain_inv e w" and ok: "StakingManager_BatchUnlock rl iter ctx ts as w = Inr w'"
    and iter: "\<And>l. set (iter l) = set l"
  shows "chain_inv e w'"
proof -
  note D = chain_invD [OF inv]
  from ok obtain cur unl last vs pend iv w1 w2 w3 where "length ts = length as" "ts \<noteq> []"
    and cur: "EpochManager_CurrentEpoch w = Inr cur"
    and "currentEpochTotalUnlockStake (staking w) = Some unl" "lastEpochTotalStake (staking w) = Some last"
      "unl + sum_list as \<le> epochLimit rl last (MaxUnlockStakeRatio (StakeParams cur))"
    and maps: "StakingManager_getActiveValidatorIDSetMap w = (vs, pend)"
    and loop: "efold (unlockOne ctx vs) (zip ts as) ([], w) = Inr (iv, w1)"
    and chk: "StakingManager_checkNextEpochValidatorActiveStake cur (length vs) (iter iv) pend w1 = Inr w2"
    and up: "StakingManager_updateTotalStake False (sum_list as) w2 = Inr w3"
    and w': "w' = putEpochUnlock (unl + sum_list as) w3"
    by (rule StakingManager_BatchUnlock_Inr)
  have [simp]: "cur = e" using cur D(8) by simp
  note U = unlockAll_outside [OF loop]
  note C = checked_change [OF inv conjunct1 [OF U] maps _ _ chk [simplified]]
  have "pools_outside {} w3 w'" by (simp add: pools_outside_def w')
  from pools_outside_trans [OF updateTotalStake_outside [OF up] this]
  have out: "pools_outside {} w2 w'" by simp
  with C iter U have "watch_inv e w'" "roles_inv w'" "nodes w' = nodes w"
    using chain_inv_put [of e w2 w'] by (auto simp: pools_outside_def)
  then show ?thesis
    using StakingManager_BatchUnlock_stake_inv [OF D(1) ok] D(2) node_inv_cong [of w' w] by (simp add: chain_inv_def)
qed

text \<open>
  A withdrawal from a token that is not active yet lowers the pending stake of its pool and is
  not checked: it keeps the watch only if no validator's stake of the next epoch changes.
\<close>

definition keeps_stake :: "world \<Rightarrow> world \<Rightarrow> bool" where
  "keeps_stake w w' \<longleftrightarrow> (\<forall>k\<in>validators w.
     map_option nextEpochActiveStake (poolInfos (staking w') k) =
     map_option nextEpochActiveStake (poolInfos (staking w) k))"

lemma chain_inv_outside:
  assumes inv: "chain_inv e w" and "stake_inv e w'" and out: "pools_outside A w w'" and "keeps_stake w w'"
  shows "chain_inv e w'"
proof -
  note D = chain_invD [OF inv]
  have same: "nodes w' = nodes w" using out by (simp add: pools_outside_def)
  have "watch_inv e w'"
    by (rule watch_inv_same [OF D(4)])
      (use assms(3,4) node_parts_cong(4,6) [OF same] in \<open>simp_all add: pools_outside_def keeps_stake_def\<close>)
  then show ?thesis
    using assms(2) roles_inv_outside [OF out D(3)] D(2) node_inv_cong [OF same] by (simp add: chain_inv_def)
qed

lemma StakingManager_BatchWithdraw_outside:
  assumes "StakingManager_BatchWithdraw ctx ts a as w = Inr w'"
  shows "pools_outside UNIV w w'"
proof -
  from assms obtain n w1 where "efold (withdrawOne ctx a) (zip ts as) (0, w) = Inr (n, w1)"
    "StakingManager_updateTotalStake False n w1 = Inr w'" by (rule StakingManager_BatchWithdraw_Inr)
  from pools_outside_trans [OF withdrawAll_outside [OF this(1)] updateTotalStake_outside [OF this(2)]]
  show ?thesis by simp
qed

lemma StakingManager_UpdatePoolCommissionRate_chain:
  assumes inv: "chain_inv e w" and ok: "StakingManager_UpdatePoolCommissionRate ctx p r w = Inr w'"
  shows "chain_inv e w'"
proof -
  from ok obtain info node where "nodeRegistry (nodes w) p = Some node" "ctx_From ctx = Operator node"
    and info: "poolInfos (staking w) p = Some info" and "r \<le> CommissionRateDenominator"
    and w': "w' = putPool p (info\<lparr>NextEpochCommissionRate := r\<rparr>) w"
    by (rule StakingManager_UpdatePoolCommissionRate_Inr)
  have "pools_outside {p} w w'" using info by (simp add: pools_outside_def w')
  moreover have "keeps_stake w w'" using info by (simp add: keeps_stake_def w' nextEpochActiveStake_def)
  ultimately show ?thesis
    using chain_inv_outside [OF inv StakingManager_UpdatePoolCommissionRate_stake_inv [OF chain_invD(1) [OF inv] ok]]
    by blast
qed

fun withdraws :: "sys_call \<Rightarrow> bool" where
  "withdraws (StakeCall (CallWithdraw ctx t a n)) \<longleftrightarrow> True"
| "withdraws (StakeCall (CallBatchWithdraw ctx ts a ns)) \<longleftrightarrow> True"
| "withdraws _ \<longleftrightarrow> False"

lemma stake_exec_chain:
  assumes inv: "chain_inv e w" and ok: "stake_exec rl iter c w = Inr w'" and iter: "\<And>l. set (iter l) = set l"
    and keep: "withdraws (StakeCall c) \<Longrightarrow> keeps_stake w w'"
  shows "chain_inv e w'"
proof (cases "withdraws (StakeCall c)")
  case True
  then have "pools_outside UNIV w w'"
    using ok by (cases c) (auto simp: StakingManager_Withdraw_def dest: StakingManager_BatchWithdraw_outside)
  from chain_inv_outside [OF inv stake_exec_stake_inv [OF chain_invD(1) [OF inv] ok] this keep [OF True]] show ?thesis .
next
  case False
  then show ?thesis
    using ok iter
    by (cases c) (auto simp: StakingManager_Unlock_def intro: StakingManager_AddStake_chain [OF inv]
        StakingManager_BatchUnlock_chain [OF inv] StakingManager_UpdatePoolCommissionRate_chain [OF inv])
qed

lemma lst_exec_chain:
  assumes inv: "chain_inv e w" and ok: "lst_exec c w = Inr w'" and user: "user_call c" "lst_signed c"
  shows "chain_inv e w'"
proof -
  note f = lst_user_frame [OF ok user(1)]
  then have "pools_outside {} w w'" "keeps_stake w w'"
    using storedNotEnough_cong [of w' w] by (auto simp: records_same_def pools_outside_def keeps_stake_def)
  from chain_inv_outside [OF inv lst_user_stake_inv [OF chain_invD(1) [OF inv] ok user(2,1)] this] show ?thesis .
qed

section \<open>The calls to the node contract\<close>

lemma stake_inv_frame:
  assumes "stake_inv e w" and "epochs w' = epochs w" "lst w' = lst w" "staking w' = staking w"
  shows "stake_inv e w'"
  by (rule stake_inv_same [OF assms(1)])
    (use assms lst_inv_cong [of w' w] stake_invD(1) [OF assms(1)] in \<open>simp_all add: available_def\<close>)

text \<open>Registration and updates change nothing the other contracts look at.\<close>

lemma node_only_chain:
  assumes inv: "chain_inv e w" and "node_inv w'"
    and same: "epochs w' = epochs w" "lst w' = lst w" "staking w' = staking w"
    and sets: "\<And>st. st \<noteq> DataSyncer \<Longrightarrow> statusIDs st w' = statusIDs st w"
    and "activeValidatorVotingPowers (nodes w') = activeValidatorVotingPowers (nodes w)"
  shows "chain_inv e w'"
proof -
  note D = chain_invD [OF inv]
  have vals: "NodeManager_GetActiveValidatorIDSet w' = NodeManager_GetActiveValidatorIDSet w"
    using assms(7) by (simp add: NodeManager_GetActiveValidatorIDSet_def)
  have "watch_inv e w'"
    by (rule watch_inv_same [OF D(4)]) (use vals sets same storedNotEnough_cong [OF same(3)] in simp_all)
  moreover have "roles_inv w'" using D(3) sets same(3) by (simp add: roles_inv_def)
  ultimately show ?thesis using stake_inv_frame [OF D(1) same] assms(2) by (simp add: chain_inv_def)
qed

lemma NodeManager_Register_chain:
  assumes inv: "chain_inv e w" and ok: "NodeManager_Register hexNorm info w = Inr (k, w')"
    and room: "next_node w \<noteq> - 1"
  shows "chain_inv e w'"
proof -
  have node: "node_inv w'"
    using node_exec_inv(1) [OF chain_invD(2) [OF inv], of hexNorm int_float "CallRegister info"] ok room by simp
  from ok obtain w1 where r: "NodeManager_register hexNorm (info\<lparr>Status := DataSyncer\<rparr>) False w = Inr (k, w1)"
    and e: "nodes w' = nodes w1" "w' = EmitEvent (EventRegister k (info\<lparr>Status := DataSyncer, node_ID := k\<rparr>)) w1"
    by (auto simp: NodeManager_Register_def Let_def elim!: ebind_InrE)
  note r' = NodeManager_register_user(2) [OF r]
  show ?thesis
    by (rule node_only_chain [OF inv node]) (simp_all add: e r')
qed

lemma NodeManager_UpdateOperator_chain:
  assumes inv: "chain_inv e w" and ok: "NodeManager_UpdateOperator ctx k a w = Inr w'"
  shows "chain_inv e w'"
  by (rule node_only_chain [OF inv NodeManager_UpdateOperator_inv [OF chain_invD(2) [OF inv] ok]])
    (use ok in \<open>auto simp: NodeManager_UpdateOperator_def elim!: ebind_InrE split: if_splits\<close>)

lemma NodeManager_UpdateMetaData_chain:
  assumes inv: "chain_inv e w" and ok: "NodeManager_UpdateMetaData ctx k name desc img site w = Inr w'"
  shows "chain_inv e w'"
proof -
  have "statusSets (nodes w') = statusSets (nodes w)"
    "activeValidatorVotingPowers (nodes w') = activeValidatorVotingPowers (nodes w)"
    "epochs w' = epochs w" "lst w' = lst w" "staking w' = staking w"
    using ok by (auto simp: NodeManager_UpdateMetaData_def Let_def elim!: ebind_InrE split: if_splits)
  then show ?thesis
    using node_only_chain [OF inv NodeManager_UpdateMetaData_inv [OF chain_invD(2) [OF inv] ok]] statusIDs_cong by metis
qed

lemma NodeManager_operatorTransferStatus_stake:
  assumes inv: "stake_inv e w" and ok: "NodeManager_operatorTransferStatus from to info w = Inr w'"
  shows "stake_inv e w'"
proof -
  from ok obtain w1 where move: "NodeManager_moveStatus from to info w = Inr w1"
    and rest: "if to = Exited \<and> (from = PendingInactive \<or> from = Candidate)
     then StakingManager_DisablePool (node_ID info) w1 = Inr w' else w' = w1"
    by (rule NodeManager_operatorTransferStatus_Inr)
  have "stake_inv e w1"
    by (rule stake_inv_frame [OF inv]) (use NodeManager_moveStatus_sets [OF move] in simp_all)
  then show ?thesis
    using rest StakingManager_DisablePool_stake_inv by (auto split: if_splits)
qed

lemma NodeManager_JoinCandidateSet_chain:
  assumes inv: "chain_inv e w" and ok: "NodeManager_JoinCandidateSet ctx k rate w = Inr w'"
  shows "chain_inv e w'"
proof -
  note D = chain_invD [OF inv]
  from ok obtain info w1 w2 t where info: "nodeRegistry (nodes w) k = Some info"
    and perm: "ctx_CallFromSystem ctx \<or> ctx_From ctx = Operator info"
    and move: "NodeManager_operatorTransferStatus DataSyncer Candidate info w = Inr w1"
    and pool: "StakingManager_CreatePool k rate w1 = Inr (t, w2)"
    and w': "w' = EmitEvent (EventJoinedCandidateSet k rate t) w2"
    by (rule NodeManager_JoinCandidateSet_Inr)
  have idx: "node_index_inv w" and st: "node_status_inv w" using D(2) by (simp_all add: node_inv_def)
  note ID = node_index_invD(1) [OF idx info]
  note M = NodeManager_operatorTransferStatus_nodes [OF move, unfolded ID]
    and S = NodeManager_operatorTransferStatus_staking [OF move]
  note stake1 = available_only [OF S(1)]
  from pool obtain pinfo pools where P: "nodes w2 = nodes w1" "epochs w2 = epochs w1" "poolInfos (staking w1) k = None"
    "poolInfos (staking w2) = (poolInfos (staking w1))(k \<mapsto> pinfo)"
    "availablePools (staking w1) = Some pools" "k \<notin> set pools"
    "availablePools (staking w2) = Some (sort (pools @ [k]))"
    "currentEpochTotalStakeNotEnoughValidators (staking w2) = currentEpochTotalStakeNotEnoughValidators (staking w1)"
    by (rule StakingManager_CreatePool_effect)
  note N = node_parts_cong(4,6) [of w' w1]
  have nodes: "nodes w' = nodes w1" using P(1) by (simp add: w')
  have notval: "k \<notin> validators w"
    using D(10) node_status_of(1) [OF D(2) info] M(5) by simp
  have vals: "validators w' = validators w"
    using N(2) [OF nodes] M(3) by (simp add: NodeManager_GetActiveValidatorIDSet_def)
  have "watch_inv e w'"
  proof (rule watch_inv_same [OF D(4) vals])
    show "leaving w' = leaving w" using N(1) [OF nodes] M(1) by simp
    show "storedNotEnough w' = storedNotEnough w" using P(8) stake1(2) by (simp add: storedNotEnough_def w')
    fix j assume "j \<in> validators w"
    then have "j \<noteq> k" using notval by auto
    then show "map_option nextEpochActiveStake (poolInfos (staking w') j) =
        map_option nextEpochActiveStake (poolInfos (staking w) j)" using P(4) stake1(1) by (simp add: w')
  qed
  moreover have "roles_inv w'"
  proof -
    have "availablePools (staking w) = Some pools" using S(2) P(5) by simp
    then show ?thesis
      using D(3) P(4,6,7) stake1(1) N(1) [OF nodes] M(1) by (auto simp: roles_inv_def w')
  qed
  moreover have "stake_inv e w'"
    using StakingManager_CreatePool_stake_inv [OF NodeManager_operatorTransferStatus_stake [OF D(1) move] pool]
    by (rule stake_inv_frame) (simp_all add: w')
  ultimately show ?thesis using NodeManager_JoinCandidateSet_inv(1) [OF D(2) ok] by (simp add: chain_inv_def)
qed

lemma NodeManager_Exit_chain:
  assumes inv: "chain_inv e w" and ok: "NodeManager_Exit fo ctx k w = Inr w'"
  shows "chain_inv e w'"
proof -
  note D = chain_invD [OF inv]
  have idx: "node_index_inv w" and st: "node_status_inv w" using D(2) by (simp_all add: node_inv_def)
  from NodeManager_Exit_known [OF ok] obtain info where info: "nodeRegistry (nodes w) k = Some info" ..
  note ID = node_index_invD(1) [OF idx info] and node' = NodeManager_Exit_inv(1) [OF D(2) ok]
  have "stake_inv e w' \<and> roles_inv w' \<and> watch_inv e w'"
  proof (cases "Status info = Active")
    case True
    from ok info this obtain e' activeSet w1 w2
      where perm: "ctx_CallFromSystem ctx \<or> ctx_From ctx = Operator info"
      and "statusSets (nodes w) Active = Some activeSet" and cur: "EpochManager_CurrentEpoch w = Inr e'"
      and move: "NodeManager_operatorTransferStatus Active PendingInactive info w = Inr w1"
      and chk: "StakingManager_checkNextEpochValidatorActiveStake e' (length (NodeManager_GetActiveValidatorIDSet w1)) []
       (uniq (NodeManager_GetPendingInactiveIDSet w1)) w1 = Inr w2"
      and w': "w' = EmitEvent (EventExit k) w2"
      by (rule NodeManager_Exit_active_Inr)
    have [simp]: "e' = e" using cur D(8) by simp
    note M = NodeManager_operatorTransferStatus_nodes [OF move, unfolded ID]
      and S = NodeManager_operatorTransferStatus_staking [OF move]
    note stake1 = available_only [OF S(1)]
    have vals: "NodeManager_GetActiveValidatorIDSet w1 = NodeManager_GetActiveValidatorIDSet w"
      using M(3) by (simp add: NodeManager_GetActiveValidatorIDSet_def)
    have stored: "storedNotEnough w1 = storedNotEnough w" using stake1(2) by (simp add: storedNotEnough_def)
    have short: "short_of_stake e w1 j = short_of_stake e w j" for j
      by (rule short_of_stake_cong) (simp add: stake1(1))
    have active: "k \<in> set (statusIDs Active w)" using node_status_of(1) [OF D(2) info] True by simp
    then have "leaving w1 \<subseteq> validators w1" using M(1) vals D(10) by auto
    then have "watch_inv e w2"
      using vals stored short D(6,9) distinct_card [OF D(7)]
      by (intro check_watch [OF chk [simplified]]) (auto simp: NodeManager_GetPendingInactiveIDSet_def)
    moreover have "roles_inv w1"
      using D(3) active S(2) stake1(1) M(1) node_status_invD(1) [OF st] by (auto simp: roles_inv_def)
    moreover from StakingManager_check_Inr [OF chk] obtain l where w2: "w2 = putNotEnough l w1" by blast
    ultimately have "watch_inv e w'" "roles_inv w'"
      using watch_inv_same [of e w2 w'] node_parts_cong(4,6) [of w' w2] node_parts_cong(4) [of w' w1]
      by (simp_all add: w' w2 roles_inv_def)
    moreover have "stake_inv e w'"
      using check_stake_inv [OF NodeManager_operatorTransferStatus_stake [OF D(1) move] chk]
      by (rule stake_inv_frame) (simp_all add: w')
    ultimately show ?thesis by simp
  next
    case False
    from ok info this obtain w1 where perm: "ctx_CallFromSystem ctx \<or> ctx_From ctx = Operator info"
      and status: "Status info = Candidate \<or> Status info = DataSyncer"
      and move: "NodeManager_operatorTransferStatus (Status info) Exited info w = Inr w1"
      and w': "w' = EmitEvent (EventExit k) w1"
      by (rule NodeManager_Exit_other_Inr)
    note M = NodeManager_operatorTransferStatus_nodes [OF move, unfolded ID]
      and S = NodeManager_operatorTransferStatus_staking [OF move, unfolded ID]
    note stake1 = available_only [OF S(1)]
    have "watch_inv e w'"
      by (rule watch_inv_same [OF D(4)])
        (use M(1,3) status stake1 in \<open>auto simp: w' storedNotEnough_def NodeManager_GetActiveValidatorIDSet_def\<close>)
    moreover have "stake_inv e w'"
      using NodeManager_operatorTransferStatus_stake [OF D(1) move] by (rule stake_inv_frame) (simp_all add: w')
    moreover have "roles_inv w'"
    proof (cases "Status info = Candidate")
      case True
      then obtain pools where P: "availablePools (staking w) = Some pools" "k \<in> set pools"
        "availablePools (staking w1) = Some (sort (remove1 k pools))" using S(3) by auto
      have "k \<notin> set (statusIDs Active w) \<union> leaving w" using node_status_of(1) [OF D(2) info] True by simp
      then show ?thesis
        using D(3) P stake1(1) M(1) True node_status_invD(1) [OF st] by (auto simp: roles_inv_def w')
    next
      case False
      then show ?thesis
        using D(3) S(2) stake1(1) M(1) status by (simp add: roles_inv_def w')
    qed
    ultimately show ?thesis by simp
  qed
  then show ?thesis using node' by (simp add: chain_inv_def)
qed

lemma sys_exec_chain:
  assumes inv: "chain_inv e w" and ok: "sys_exec rl iter hexNorm fo c w = Inr w'"
    and iter: "\<And>l. set (iter l) = set l" and "user_sys_call c" and room: "next_node w \<noteq> - 1"
    and keep: "withdraws c \<Longrightarrow> keeps_stake w w'"
  shows "chain_inv e w'"
proof (cases c)
  case (StakeCall s)
  with ok stake_exec_chain [OF inv _ iter, of rl s w'] keep show ?thesis by simp
next
  case (TokenCall t)
  with ok assms(4) lst_exec_chain [OF inv, of t w'] show ?thesis by simp
next
  case (NodeCall n)
  with ok show ?thesis
    by (cases n) (auto elim!: ebind_InrE intro: NodeManager_Register_chain [OF inv _ room]
        NodeManager_JoinCandidateSet_chain [OF inv] NodeManager_Exit_chain [OF inv]
        NodeManager_UpdateMetaData_chain [OF inv] NodeManager_UpdateOperator_chain [OF inv])
qed

end
