(* ===== verification/Block_Hooks.thy ===== *)
theory Block_Hooks
  imports Validator_Watch
begin

text \<open>
  The hooks the executor runs after the transactions of a block, and the chain state they keep:
  the reward of the proposer is recorded, and after the last block of an epoch the epoch, staking
  and node contracts turn into the new epoch in this order. The chain survives: with the watch of
  the validators' stake the election finds enough validators, and the watch holds again after it.
\<close>

section \<open>The chain state of a node\<close>

record validator_info =
  vi_ID :: u64
  vi_ConsensusVotingPower :: i64

record chain_state =
  cs_EpochInfo :: epoch_info
  ValidatorSet :: "validator_info list"
  SelfNodeID :: u64
  IsValidator :: bool

text \<open>\<open>validatorSet\<close> lists the entries of the Go map in the order its iteration yields them.\<close>

definition ChainState_UpdateByEpochInfo :: "epoch_info \<Rightarrow> (u64 \<times> i64) list \<Rightarrow> chain_state \<Rightarrow> chain_state" where
  "ChainState_UpdateByEpochInfo epochInfo validatorSet c =
     c\<lparr>cs_EpochInfo := epochInfo,
       ValidatorSet := map (\<lambda>(item, key). \<lparr>vi_ID = item, vi_ConsensusVotingPower = key\<rparr>) validatorSet,
       IsValidator := (\<exists>(item, key)\<in>set validatorSet. item = SelfNodeID c)\<rparr>"

section \<open>The hooks\<close>

record block_header =
  Number :: u64
  ProposerNodeID :: u64
  GasFeeReward :: int

definition BlockExecutor_recordReward :: "block_header \<Rightarrow> world \<Rightarrow> world res" where
  "BlockExecutor_recordReward block w =
     ebind (StakingManager_RecordReward (ProposerNodeID block) (GasFeeReward block) w) (\<lambda>(stakeReward, w1). Inr w1)"

text \<open>
  \<open>lo.SliceToMap\<close>: the entries of the map built from a list of pairs, one per key and with the
  last value; \<open>iterP\<close> is the order in which the map is iterated afterwards.
\<close>

definition sliceToMap :: "(u64 \<times> i64) list \<Rightarrow> (u64 \<times> i64) list" where
  "sliceToMap ps = map (\<lambda>k. (k, the (map_of (rev ps) k))) (uniq (map fst ps))"

definition BlockExecutor_tryTurnIntoNewEpoch ::
  "('f, 'b) float_ops \<Rightarrow> (sort_info list \<Rightarrow> sort_info list) \<Rightarrow> ((u64 \<times> i64) list \<Rightarrow> (u64 \<times> i64) list) \<Rightarrow>
   block_header \<Rightarrow> chain_state \<Rightarrow> world \<Rightarrow> (chain_state \<times> world) res" where
  "BlockExecutor_tryTurnIntoNewEpoch fo srt iterP block c w =
     (let epochInfo = cs_EpochInfo c in
      if Number block = StartBlock epochInfo + EpochPeriod epochInfo - 1 then
        ebind (EpochManager_TurnIntoNewEpoch w) (\<lambda>(newEpoch, w1).
        ebind (StakingManager_TurnIntoNewEpoch fo epochInfo newEpoch w1) (\<lambda>w2.
        ebind (NodeManager_TurnIntoNewEpoch srt newEpoch w2) (\<lambda>w3.
        ebind (NodeManager_GetActiveValidatorVotingPowers w3) (\<lambda>votingPowers.
        Inr (ChainState_UpdateByEpochInfo newEpoch
               (iterP (sliceToMap (map (\<lambda>v. (NodeID v, ConsensusVotingPower v)) votingPowers))) c, w3)))))
      else Inr (c, w))"

text \<open>The hooks run in this order; an error of one panics.\<close>

definition afterBlockHooks ::
  "('f, 'b) float_ops \<Rightarrow> (sort_info list \<Rightarrow> sort_info list) \<Rightarrow> ((u64 \<times> i64) list \<Rightarrow> (u64 \<times> i64) list) \<Rightarrow>
   block_header \<Rightarrow> chain_state \<Rightarrow> world \<Rightarrow> (chain_state \<times> world) res" where
  "afterBlockHooks fo srt iterP block c w =
     ebind (BlockExecutor_recordReward block w) (\<lambda>w1.
     BlockExecutor_tryTurnIntoNewEpoch fo srt iterP block c w1)"

section \<open>The stake after an epoch\<close>

text \<open>No reward is negative: the coins minted per block and the fees collected for each pool.\<close>

definition rewards_inv :: "world \<Rightarrow> bool" where
  "rewards_inv w \<longleftrightarrow> (\<forall>r. rewardPerBlock (staking w) = Some r \<longrightarrow> 0 \<le> r) \<and>
     (\<forall>p g. gasRewardTable (staking w) p = Some g \<longrightarrow> 0 \<le> g)"

text \<open>What a pool earned in the epoch.\<close>

definition pool_income :: "world \<Rightarrow> u64 \<Rightarrow> int" where
  "pool_income w p =
     (case proposeBlockCountTable (staking w) p of None \<Rightarrow> 0 | Some n \<Rightarrow> uint n) *
       (case rewardPerBlock (staking w) of None \<Rightarrow> 0 | Some perBlock \<Rightarrow> perBlock) +
     (case gasRewardTable (staking w) p of None \<Rightarrow> 0 | Some gas \<Rightarrow> gas)"

lemma pool_income_nonneg: "rewards_inv w \<Longrightarrow> 0 \<le> pool_income w p"
  by (auto simp: rewards_inv_def pool_income_def split: option.splits)

text \<open>A settled pool has the stake it was announced to have plus its income, and nothing pending.\<close>

definition settled :: "int \<Rightarrow> pool_info \<Rightarrow> pool_info \<Rightarrow> bool" where
  "settled income info info' \<longleftrightarrow> ActiveStake info' = nextEpochActiveStake info + income \<and>
     PendingActiveStake info' = 0 \<and> PendingInactiveStake info' = 0"

lemma StakingPool_TurnIntoNewEpoch_settled:
  assumes "StakingPool_TurnIntoNewEpoch p old new reward w = Inr w'"
  shows "\<exists>info info'. poolInfos (staking w) p = Some info \<and>
     poolInfos (staking w') = (poolInfos (staking w))(p \<mapsto> info') \<and> settled reward info info'"
proof -
  from assms(1) obtain info s q op lastRate where info: "poolInfos (staking w) p = Some info"
    and sq: "splitReward (CommissionRate info) reward = (s, q)"
    and w': "w' = putRate p (Epoch old) (pool_rate (stakeCommission q old (settlePool s q info)))
            (putPool p (stakeCommission q old (settlePool s q info))
              (LiquidStakingToken_updateInfo (OperatorLiquidStakingTokenID info)
                (restakeOperator lastRate (settlePool s q info) old new q op) w))"
    by (rule StakingPool_TurnIntoNewEpoch_Inr)
  have "s + q = reward" using sq by (rule splitReward_sum)
  then have "settled reward info (stakeCommission q old (settlePool s q info))"
    by (simp add: settled_def nextEpochActiveStake_def)
  then show ?thesis using info by (intro exI [of _ info] exI [of _ "stakeCommission q old (settlePool s q info)"]) (simp add: w')
qed

lemma StakingManager_turnPool_settled:
  assumes ok: "StakingManager_turnPool old new p w = Inr w'"
  shows "\<exists>info info'. poolInfos (staking w) p = Some info \<and>
     poolInfos (staking w') = (poolInfos (staking w))(p \<mapsto> info') \<and> settled (pool_income w p) info info'"
    and "k \<noteq> p \<Longrightarrow> pool_income w' k = pool_income w k"
proof -
  from ok obtain perBlock count gas w1 w3 where per: "rewardPerBlock (staking w) = Some perBlock"
    and count: "proposeBlockCountTable (staking w) p = Some count"
    and gas: "gas = (case gasRewardTable (staking w) p of None \<Rightarrow> 0 | Some g \<Rightarrow> g)"
    and mint: "AXC_Mint (uint count * perBlock) w = Inr w1"
    and turn: "StakingPool_TurnIntoNewEpoch p old new (uint count * perBlock + gas)
       (AddBalance StakingManagerContractAddr (uint count * perBlock)
         (SubBalance AXCContractAddr (uint count * perBlock) w1)) = Inr w3"
    and w': "w' = putGasReward p 0 (putBlockCount p 0 w3)" by (rule StakingManager_turnPool_Inr)
  note m = AXC_Mint_frame [OF mint] and f = StakingPool_TurnIntoNewEpoch_frame [OF turn]
  have "uint count * perBlock + gas = pool_income w p" using per count gas by (simp add: pool_income_def)
  with StakingPool_TurnIntoNewEpoch_settled [OF turn]
  show "\<exists>info info'. poolInfos (staking w) p = Some info \<and>
     poolInfos (staking w') = (poolInfos (staking w))(p \<mapsto> info') \<and> settled (pool_income w p) info info'"
    using m by (simp add: w')
  show "k \<noteq> p \<Longrightarrow> pool_income w' k = pool_income w k" using f m by (simp add: pool_income_def w' staking_puts)
qed

lemma StakingManager_turnPools_settled:
  assumes "efold (StakingManager_turnPool old new) pools w = Inr w'" and "distinct pools" and "p \<in> set pools"
  shows "\<exists>info info'. poolInfos (staking w) p = Some info \<and>
      poolInfos (staking w') p = Some info' \<and> settled (pool_income w p) info info'"
  using assms
proof (induction pools arbitrary: w' rule: rev_induct)
  case (snoc q pools)
  from snoc.prems(1) obtain w1 where rest: "efold (StakingManager_turnPool old new) pools w = Inr w1"
    and one: "StakingManager_turnPool old new q w1 = Inr w'" by (auto simp: efold_append elim!: ebind_InrE)
  have outside: "poolInfos (staking w1) k = poolInfos (staking w) k \<and> pool_income w1 k = pool_income w k"
    if "k \<notin> set pools" for k
    using rest that
  proof (induction pools arbitrary: w1 rule: rev_induct)
    case (snoc x xs)
    then obtain w2 where "efold (StakingManager_turnPool old new) xs w = Inr w2"
      "StakingManager_turnPool old new x w2 = Inr w1" by (auto simp: efold_append elim!: ebind_InrE)
    then show ?case using snoc StakingManager_turnPool_settled [of old new x w2 w1] by fastforce
  qed simp
  note S = StakingManager_turnPool_settled [OF one]
  show ?case
  proof (cases "p = q")
    case True
    then show ?thesis using S(1) outside [of q] snoc.prems(2) by auto
  next
    case False
    then have "poolInfos (staking w') p = poolInfos (staking w1) p" using S(1) by auto
    then show ?thesis using snoc.IH [OF rest] snoc.prems(2,3) False by auto
  qed
qed simp

section \<open>An epoch\<close>

text \<open>
  The transactions of an epoch, in any order; an identifier is left for a node that registers, and
  a withdrawal leaves the announced stake of the validators alone.
\<close>

inductive epoch_run ::
  "int \<Rightarrow> (u64 list \<Rightarrow> u64 list) \<Rightarrow> (string \<Rightarrow> string) \<Rightarrow> ('f, 'b) float_ops \<Rightarrow> world \<Rightarrow> world \<Rightarrow> bool"
  for rl iter hexNorm fo where
  epoch_start: "epoch_run rl iter hexNorm fo w w"
| epoch_call: "epoch_run rl iter hexNorm fo w w1 \<Longrightarrow> user_sys_call c \<Longrightarrow> next_node w1 \<noteq> - 1 \<Longrightarrow>
     sys_exec rl iter hexNorm fo c w1 = Inr w2 \<Longrightarrow> withdraws c \<longrightarrow> keeps_stake w1 w2 \<Longrightarrow>
     epoch_run rl iter hexNorm fo w w2"
| epoch_reward: "epoch_run rl iter hexNorm fo w w1 \<Longrightarrow> BlockExecutor_recordReward block w1 = Inr w2 \<Longrightarrow>
     epoch_run rl iter hexNorm fo w w2"

lemma BlockExecutor_recordReward_Inr:
  assumes "BlockExecutor_recordReward block w = Inr w'"
  obtains count n where "proposeBlockCountTable (staking w) (ProposerNodeID block) = Some count"
    "w' = putGasReward (ProposerNodeID block) n (putBlockCount (ProposerNodeID block) (count + 1) w)"
  using assms
  by (auto simp: BlockExecutor_recordReward_def StakingManager_RecordReward_def Let_def elim!: ebind_InrE)

lemma BlockExecutor_recordReward_chain:
  assumes inv: "chain_inv e w" and ok: "BlockExecutor_recordReward block w = Inr w'"
  shows "chain_inv e w'"
proof -
  from ok obtain count n where
    w': "w' = putGasReward (ProposerNodeID block) n (putBlockCount (ProposerNodeID block) (count + 1) w)"
    by (rule BlockExecutor_recordReward_Inr)
  note D = chain_invD [OF inv]
  have stored: "storedNotEnough w' = storedNotEnough w" by (simp add: w' storedNotEnough_def staking_puts)
  have "pools_outside {} w w'" by (simp add: pools_outside_def stored, simp add: w')
  with D show ?thesis
    using chain_inv_put [of e w w'] stake_inv_slots [of e w w'] node_inv_cong [of w' w]
    by (simp add: chain_inv_def w')
qed

lemma epoch_run_chain:
  assumes "epoch_run rl iter hexNorm fo w w'" and "chain_inv e w" and "\<And>l. set (iter l) = set l"
  shows "chain_inv e w'"
  using assms
proof (induction rule: epoch_run.induct)
  case (epoch_call w w1 c w2)
  then show ?case using sys_exec_chain [of e w1 rl iter hexNorm fo c w2] by blast
next
  case (epoch_reward w w1 block w2)
  then show ?case using BlockExecutor_recordReward_chain by blast
qed

section \<open>The election succeeds\<close>

text \<open>What the new epoch may change: the election must not ask for more than the old one promised.\<close>

definition params_kept :: "epoch_info \<Rightarrow> epoch_info \<Rightarrow> bool" where
  "params_kept old new \<longleftrightarrow> Epoch new = Epoch old + 1 \<and> Epoch new \<noteq> - 1 \<and>
     MinValidatorStake (StakeParams new) \<le> MinValidatorStake (StakeParams old) \<and>
     MinValidatorNum (ConsensusParams new) \<le> MinValidatorNum (ConsensusParams old) \<and>
     MinValidatorNum (ConsensusParams new) \<le> MaxValidatorNum (ConsensusParams new)"

text \<open>The state between the settlement of the pools and the election.\<close>

lemma settled_world:
  assumes inv: "stake_inv old w" "node_inv w" "roles_inv w" and epoch: "EpochManager_TurnIntoNewEpoch w = Inr (new, w1)"
    and turn: "StakingManager_TurnIntoNewEpoch fo old new w1 = Inr w2" and kept: "params_kept old new"
  shows "stake_inv new w2" "node_inv w2" "nodes w2 = nodes w" "storedNotEnough w2 = []"
    "availablePools (staking w2) = availablePools (staking w)"
    "\<And>p. p \<in> set (available w) \<Longrightarrow> \<exists>info info'. poolInfos (staking w) p = Some info \<and>
      poolInfos (staking w2) p = Some info' \<and> settled (pool_income w p) info info'"
proof -
  note F = EpochManager_TurnIntoNewEpoch_frame [OF epoch]
  have cur: "EpochManager_CurrentEpoch w1 = Inr new"
    using epoch by (auto simp: EpochManager_TurnIntoNewEpoch_ok_iff EpochManager_CurrentEpoch_def
        EpochManager_HistoryEpoch_def)
  have "turning_inv old w" using inv(1) by (simp add: stake_inv_def turning_inv_def)
  then have t1: "turning_inv old w1" using turning_inv_frame [of w1 w] F by simp
  have e: "Epoch new = Epoch old + 1" "Epoch new \<noteq> - 1" using kept unfolding params_kept_def by blast+
  note T = StakingManager_TurnIntoNewEpoch_stake_inv [OF t1 cur e turn]
  show "stake_inv new w2" "nodes w2 = nodes w" using T F by simp_all
  then show "node_inv w2" using inv(2) node_inv_cong [of w2 w] by simp
  from turn obtain pools w3 total n where av: "availablePools (staking w1) = Some pools"
    and loop: "efold (StakingManager_turnPool old new) pools w1 = Inr w3"
    and w2: "w2 = putRewardPerBlock n (putLastEpochTotalStake total (putNotEnough [] (putEpochUnlock 0 (putEpochAdd 0 w3))))"
    by (rule StakingManager_TurnIntoNewEpoch_Inr)
  show "storedNotEnough w2 = []" by (simp add: w2 storedNotEnough_def staking_puts)
  show "availablePools (staking w2) = availablePools (staking w)"
    using StakingManager_turnPools_turning [OF loop t1 e(1)] F by (simp add: w2)
  have "distinct pools" using inv(3) av F by (auto simp: roles_inv_def)
  moreover have "pool_income w1 p = pool_income w p" for p using F by (simp add: pool_income_def)
  ultimately show "\<exists>info info'. poolInfos (staking w) p = Some info \<and>
      poolInfos (staking w2) p = Some info' \<and> settled (pool_income w p) info info'" if "p \<in> set (available w)" for p
    using StakingManager_turnPools_settled [OF loop, of p] that av F by (auto simp: available_def w2)
qed

text \<open>The pools of the nodes that leave are closed, all others stay.\<close>

lemma NodeManager_leaves_pools:
  assumes "efold NodeManager_leave ids w = Inr w'" and "node_index_inv w" and "node_status_inv w"
    and "availablePools (staking w) = Some pools" and "distinct pools"
  shows "\<exists>pools'. availablePools (staking w') = Some pools' \<and> distinct pools' \<and> set pools' = set pools - set ids"
  using assms
proof (induction ids arbitrary: w pools)
  case (Cons k ids)
  from Cons.prems(1) obtain info w1 where info: "nodeRegistry (nodes w) k = Some info"
    and move: "NodeManager_operatorTransferStatus PendingInactive Exited info w = Inr w1"
    and rest: "efold NodeManager_leave ids w1 = Inr w'"
    by (auto simp: NodeManager_leave_Inr elim!: ebind_InrE)
  note k = node_index_invD(1) [OF Cons.prems(2) info]
  note inv1 = NodeManager_operatorTransferStatus_inv(1,2) [OF Cons.prems(2,3) info move]
  have "availablePools (staking w1) = Some (sort (remove1 k pools))"
    using NodeManager_operatorTransferStatus_staking(3) [OF move] Cons.prems(4) k by auto
  from Cons.IH [OF rest inv1 this] Cons.prems(5) show ?case by (auto simp: set_remove1_eq)
qed simp

lemma NodeManager_TurnIntoNewEpoch_pools:
  assumes "node_inv w" and "NodeManager_TurnIntoNewEpoch srt e w = Inr w'"
    and "availablePools (staking w) = Some pools" and "distinct pools"
  shows "\<exists>pools'. availablePools (staking w') = Some pools' \<and> distinct pools' \<and> set pools' = set pools - leaving w"
proof -
  from assms(2) obtain w1 infos xs vs cs where leave: "efold NodeManager_leave (statusIDs PendingInactive w) w = Inr w1"
    and "NodeManager_GetInfos (filter (\<lambda>k. k \<notin> set (statusIDs PendingInactive w))
       (NodeManager_getConsensusCandidateNodeIDs w1)) w1 = Inr infos"
      "emap (stakeOfNode w1) infos = Inr xs"
      "elect (MaxValidatorNum (ConsensusParams e)) (MinValidatorStake (StakeParams e)) (rev (srt xs)) [] [] = (vs, cs)"
      "MinValidatorNum (ConsensusParams e) \<le> of_nat (length vs)"
    and w': "w' = fold (setRole Active) vs (fold (setRole Candidate) cs
       (putVotingPowers (map (\<lambda>x. votingPower (sortID x) (stakeValue x)) vs)
         (putStatusIDs Active (map sortID vs) (putStatusIDs Candidate (map sortID cs) w1))))"
    by (rule NodeManager_TurnIntoNewEpoch_Inr)
  have "staking w' = staking w1" by (simp add: w' setRoles_frame)
  then show ?thesis using NodeManager_leaves_pools [OF leave _ _ assms(3,4)] assms(1) by (simp add: node_inv_def)
qed

text \<open>The election finds enough validators.\<close>

lemma election_live:
  assumes inv: "chain_inv old w" and epoch: "EpochManager_TurnIntoNewEpoch w = Inr (new, w1)"
    and turn: "StakingManager_TurnIntoNewEpoch fo old new w1 = Inr w2"
    and rew: "rewards_inv w" and kept: "params_kept old new" and srt: "sorts_by_stake srt"
  shows "\<exists>w3. NodeManager_TurnIntoNewEpoch srt new w2 = Inr w3"
proof -
  note D = chain_invD [OF inv] and S = settled_world [OF chain_invD(1-3) [OF inv] epoch turn kept]
  note N = node_parts_cong(4,6) [OF S(3)]
  from D(3) obtain pools where pools: "availablePools (staking w) = Some pools" "distinct pools"
    "set pools = set (statusIDs Candidate w) \<union> set (statusIDs Active w) \<union> leaving w"
    by (auto simp: roles_inv_def)
  have av: "available w = pools" using pools(1) by (simp add: available_def)
  let ?A = "validators w - (leaving w \<union> set (storedNotEnough w))"
    and ?B = "{k \<in> set (statusIDs Candidate w2) \<union> set (statusIDs Active w2).
       MinValidatorStake (StakeParams new) \<le> active_stake w2 k}"
  have "k \<in> ?B" if k: "k \<in> ?A" for k
  proof -
    have act: "k \<in> set (statusIDs Active w)" using k D(10) by blast
    then obtain info info' where I: "poolInfos (staking w) k = Some info" "poolInfos (staking w2) k = Some info'"
      "settled (pool_income w k) info info'" using S(6) [of k] pools(3) av by auto
    have "\<not> short_of_stake old w k" using k D(9) by blast
    then show ?thesis
      using I act kept N pool_income_nonneg [OF rew, of k]
      by (auto simp: short_of_stake_def settled_def active_stake_def params_kept_def)
  qed
  then have "card ?A \<le> card ?B" by (intro card_mono) auto
  moreover have "unat (MinValidatorNum (ConsensusParams old)) \<le> card ?A" using D(4) by (simp add: watch_inv_def)
  moreover have "unat (MinValidatorNum (ConsensusParams new)) \<le> unat (MinValidatorNum (ConsensusParams old))"
    using kept by (simp add: params_kept_def word_le_nat_alt)
  ultimately have enough: "unat (MinValidatorNum (ConsensusParams new)) \<le> card ?B" by linarith
  have exist: "poolInfos (staking w2) k \<noteq> None"
    if "k \<in> set (statusIDs Candidate w2) \<union> set (statusIDs Active w2) \<union> set (statusIDs PendingInactive w2)" for k
    using S(6) [of k] that N pools(3) av by auto
  show ?thesis
    by (rule NodeManager_TurnIntoNewEpoch_live [OF S(2) srt _ _ exist enough])
      (use S(5) pools N kept in \<open>auto simp: params_kept_def\<close>)
qed

text \<open>After it the invariants hold for the new epoch.\<close>

lemma election_chain:
  assumes inv: "chain_inv old w" and epoch: "EpochManager_TurnIntoNewEpoch w = Inr (new, w1)"
    and turn: "StakingManager_TurnIntoNewEpoch fo old new w1 = Inr w2"
    and kept: "params_kept old new" and srt: "sorts_by_stake srt"
    and elect: "NodeManager_TurnIntoNewEpoch srt new w2 = Inr w3"
  shows "chain_inv new w3"
proof -
  note D = chain_invD [OF inv] and S = settled_world [OF chain_invD(1-3) [OF inv] epoch turn kept]
  note N = node_parts_cong(4,6) [OF S(3)]
  from S(2) srt elect obtain xs vs cs where ids: "map sortID xs = sort (statusIDs Candidate w2 @ statusIDs Active w2)"
    and stakes: "\<forall>x\<in>set xs. \<exists>p. poolInfos (staking w2) (sortID x) = Some p \<and> ActiveStake p = stakeValue x"
    and el: "elected (MaxValidatorNum (ConsensusParams new)) (MinValidatorStake (StakeParams new)) xs vs cs"
    and enough: "MinValidatorNum (ConsensusParams new) \<le> of_nat (length vs)"
    and st: "statusIDs Active w3 = map sortID vs" "statusIDs Candidate w3 = map sortID cs"
      "statusIDs PendingInactive w3 = []"
    and node: "node_inv w3" and same: "staking w3 = (staking w2)\<lparr>availablePools := availablePools (staking w3)\<rparr>"
      "epochs w3 = epochs w2" "lst w3 = lst w2"
    by (rule NodeManager_TurnIntoNewEpoch_result)
  from D(3) obtain pools where pools: "availablePools (staking w) = Some pools" "distinct pools"
    "set pools = set (statusIDs Candidate w) \<union> set (statusIDs Active w) \<union> leaving w"
    by (auto simp: roles_inv_def)
  from NodeManager_TurnIntoNewEpoch_pools [OF S(2) elect] S(5) pools(1,2)
  obtain pools' where pools': "availablePools (staking w3) = Some pools'" "distinct pools'"
    "set pools' = set pools - leaving w" using N by auto
  note P = available_only [OF same(1)]
  have vals: "validators w3 = sortID ` set vs"
    using node st by (auto simp: node_inv_def voting_inv_def)
  have split: "set xs = set vs \<union> set cs" using el by (metis elected_def mset_eq_setD mset_append set_append)
  have apart: "(set (statusIDs Candidate w) \<union> set (statusIDs Active w)) \<inter> leaving w = {}"
    using status_disjoint [of w Candidate PendingInactive] status_disjoint [of w Active PendingInactive] D(2)
    by (auto simp: node_inv_def)
  have part: "sortID ` set xs = set (statusIDs Candidate w) \<union> set (statusIDs Active w)"
    using arg_cong [OF ids, of set] N by auto
  have "set pools' = set (statusIDs Candidate w3) \<union> set (statusIDs Active w3) \<union> leaving w3"
    using pools'(3) pools(3) apart part split st by auto
  moreover have "poolInfos (staking w3) k \<noteq> None" if "k \<in> set pools'" for k
    using S(6) [of k] that pools'(3) pools(1) unfolding P(1) available_def by auto
  ultimately have roles: "roles_inv w3" using pools' by (auto simp: roles_inv_def)
  have "\<not> short_of_stake new w3 (sortID v)" if v: "v \<in> set vs" for v
  proof -
    from v split have "v \<in> set xs" by blast
    with stakes obtain p where p: "poolInfos (staking w2) (sortID v) = Some p" "ActiveStake p = stakeValue v" by blast
    have "sortID v \<in> set (available w)" using \<open>v \<in> set xs\<close> part pools(1,3) unfolding available_def by auto
    then have "nextEpochActiveStake p = ActiveStake p"
      using S(6) [of "sortID v"] p(1) by (auto simp: settled_def nextEpochActiveStake_def)
    then show ?thesis using p el v by (simp add: short_of_stake_def P(1) elected_def not_less)
  qed
  moreover have "unat (MinValidatorNum (ConsensusParams new)) \<le> card (validators w3)"
  proof -
    have "distinct (map sortID vs)"
      using node_status_invD(1) [of w3 Active] node unfolding st(1) node_inv_def by blast
    then have "card (validators w3) = length vs" unfolding vals using distinct_card by fastforce
    moreover have "unat (MinValidatorNum (ConsensusParams new)) \<le> unat (of_nat (length vs) :: u64)"
      using enough by (simp add: word_le_nat_alt)
    ultimately show ?thesis using unat_of_nat [of "length vs"] mod_less_eq_dividend order_trans by metis
  qed
  moreover have "storedNotEnough w3 = []" using S(4) P(2) by (simp add: storedNotEnough_def)
  ultimately have "watch_inv new w3" using st(3) by (auto simp: watch_inv_def vals)
  moreover have "stake_inv new w3"
    by (rule stake_inv_same [OF S(1)])
      (use same P(1) S(5) pools pools' lst_inv_cong [OF same(3)] stake_invD(1) [OF S(1)] in \<open>auto simp: available_def\<close>)
  ultimately show ?thesis using roles node by (simp add: chain_inv_def)
qed

section \<open>The pools can be settled\<close>

text \<open>
  What the settlement reads: the counters, the record and the operator's token of every available
  pool, and the supply, which must cover the total stake.
\<close>

definition pool_ready :: "world \<Rightarrow> u64 \<Rightarrow> bool" where
  "pool_ready w p \<longleftrightarrow> proposeBlockCountTable (staking w) p \<noteq> None \<and>
     (\<exists>info op. poolInfos (staking w) p = Some info \<and>
       infoMap (lst w) (OperatorLiquidStakingTokenID info) = Some op \<and> PoolID op \<noteq> 0)"

definition settle_ready :: "world \<Rightarrow> bool" where
  "settle_ready w \<longleftrightarrow> (\<exists>pools perBlock issued total. availablePools (staking w) = Some pools \<and>
     rewardPerBlock (staking w) = Some perBlock \<and> 0 \<le> perBlock \<and>
     totalSupply (axc w) = Some issued \<and> totalStake (staking w) = Some total \<and> total \<le> issued \<and>
     (\<forall>p\<in>set pools. pool_ready w p))"

lemma StakingPool_TurnIntoNewEpoch_ok:
  assumes "poolInfos (staking w) p = Some info" and "infoMap (lst w) (OperatorLiquidStakingTokenID info) = Some op" and "PoolID op \<noteq> 0"
  shows "\<exists>w'. StakingPool_TurnIntoNewEpoch p old new reward w = Inr w'"
  using assms
  by (auto simp: StakingPool_TurnIntoNewEpoch_def StakingPool_MustGetInfo_def StakingPool_HistoryLiquidStakingTokenRate_def
      Let_def LiquidStakingToken_mustGetInfo_def LiquidStakingToken_GetInfo_def split: prod.split)

lemma StakingPool_TurnIntoNewEpoch_ready:
  assumes "StakingPool_TurnIntoNewEpoch p old new reward w = Inr w'" and "pool_ready w k"
  shows "pool_ready w' k"
proof -
  from assms(1) obtain info s q op lastRate where info: "poolInfos (staking w) p = Some info"
    and op: "LiquidStakingToken_mustGetInfo (OperatorLiquidStakingTokenID info) w = Inr op"
    and w': "w' = putRate p (Epoch old) (pool_rate (stakeCommission q old (settlePool s q info)))
            (putPool p (stakeCommission q old (settlePool s q info))
              (LiquidStakingToken_updateInfo (OperatorLiquidStakingTokenID info)
                (restakeOperator lastRate (settlePool s q info) old new q op) w))"
    by (rule StakingPool_TurnIntoNewEpoch_Inr)
  have "infoMap (lst w) (OperatorLiquidStakingTokenID info) = Some op"
    using op by (simp add: LiquidStakingToken_mustGetInfo_Inr)
  then show ?thesis using assms(2) info by (auto simp: pool_ready_def w' putPool_def putRate_def)
qed

lemma pool_ready_cong:
  assumes "proposeBlockCountTable (staking w') k = proposeBlockCountTable (staking w) k"
    and "poolInfos (staking w') = poolInfos (staking w)" and "lst w' = lst w"
  shows "pool_ready w' k = pool_ready w k"
  using assms by (simp add: pool_ready_def)

text \<open>One round of the loop succeeds and leaves the other pools ready.\<close>

lemma StakingManager_turnPool_ok:
  assumes ready: "pool_ready w p" and per: "rewardPerBlock (staking w) = Some perBlock" "0 \<le> perBlock"
    and sup: "totalSupply (axc w) = Some issued"
  shows "\<exists>w' issued'. StakingManager_turnPool old new p w = Inr w' \<and>
     rewardPerBlock (staking w') = Some perBlock \<and> totalStake (staking w') = totalStake (staking w) \<and>
     totalSupply (axc w') = Some issued' \<and> issued \<le> issued' \<and> (\<forall>k. pool_ready w k \<longrightarrow> pool_ready w' k)"
proof -
  from ready obtain count info op where count: "proposeBlockCountTable (staking w) p = Some count"
    and info: "poolInfos (staking w) p = Some info" "infoMap (lst w) (OperatorLiquidStakingTokenID info) = Some op" "PoolID op \<noteq> 0"
    by (auto simp: pool_ready_def)
  let ?r = "uint count * perBlock"
  let ?g = "case gasRewardTable (staking w) p of None \<Rightarrow> 0 | Some g \<Rightarrow> g"
  have r: "0 \<le> ?r" using per(2) by simp
  then obtain w1 where mint: "AXC_Mint ?r w = Inr w1" using sup by (auto simp: AXC_Mint_def)
  note m = AXC_Mint_frame [OF mint]
  let ?w2 = "AddBalance StakingManagerContractAddr ?r (SubBalance AXCContractAddr ?r w1)"
  obtain w3 where turn: "StakingPool_TurnIntoNewEpoch p old new (?r + ?g) ?w2 = Inr w3"
    using StakingPool_TurnIntoNewEpoch_ok [of ?w2 p info op old new "?r + ?g"] info m by auto
  note f = StakingPool_TurnIntoNewEpoch_frame [OF turn]
  let ?w' = "putGasReward p 0 (putBlockCount p 0 w3)"
  have "StakingManager_turnPool old new p w = Inr ?w'"
    using per count mint turn by (simp add: StakingManager_turnPool_def Let_def)
  moreover have "pool_ready ?w' k" if "pool_ready w k" for k
  proof -
    have "pool_ready ?w2 k" using that pool_ready_cong [of ?w2 k w] m by simp
    then have "pool_ready w3 k" by (rule StakingPool_TurnIntoNewEpoch_ready [OF turn])
    then show ?thesis by (auto simp: pool_ready_def staking_puts)
  qed
  moreover have "totalSupply (axc ?w') = Some (issued + ?r)"
    using mint sup f by (auto simp: AXC_Mint_ok_iff)
  ultimately show ?thesis using f m per r by (intro exI [of _ ?w'] exI [of _ "issued + ?r"]) (simp add: staking_puts)
qed

lemma StakingManager_turnPools_ok:
  assumes "\<forall>p\<in>set pools. pool_ready w p" and "rewardPerBlock (staking w) = Some perBlock" "0 \<le> perBlock"
    and "totalSupply (axc w) = Some issued"
  shows "\<exists>w' issued'. efold (StakingManager_turnPool old new) pools w = Inr w' \<and>
     totalStake (staking w') = totalStake (staking w) \<and> totalSupply (axc w') = Some issued' \<and> issued \<le> issued'"
  using assms
proof (induction pools arbitrary: w issued)
  case (Cons p pools)
  have "pool_ready w p" using Cons.prems(1) by simp
  from StakingManager_turnPool_ok [OF this Cons.prems(2,3,4), of old new]
  obtain w1 issued1 where one: "StakingManager_turnPool old new p w = Inr w1"
    "rewardPerBlock (staking w1) = Some perBlock" "totalStake (staking w1) = totalStake (staking w)"
    "totalSupply (axc w1) = Some issued1" "issued \<le> issued1" "\<forall>k. pool_ready w k \<longrightarrow> pool_ready w1 k" by blast
  have "\<forall>q\<in>set pools. pool_ready w1 q" using one(6) Cons.prems(1) by simp
  from Cons.IH [OF this one(2) Cons.prems(3) one(4)] one(1,3,5) show ?case by fastforce
qed simp

lemma settle_ready_turns:
  assumes "settle_ready w"
  shows "\<exists>w'. StakingManager_TurnIntoNewEpoch fo old new w = Inr w'"
proof -
  from assms obtain pools perBlock issued total where P: "availablePools (staking w) = Some pools"
    "rewardPerBlock (staking w) = Some perBlock" "0 \<le> perBlock" "totalSupply (axc w) = Some issued"
    "totalStake (staking w) = Some total" "total \<le> issued" "\<forall>p\<in>set pools. pool_ready w p"
    by (auto simp: settle_ready_def)
  from StakingManager_turnPools_ok [OF P(7,2,3,4), of old new] obtain w1 issued1
    where loop: "efold (StakingManager_turnPool old new) pools w = Inr w1" "totalStake (staking w1) = Some total"
      "totalSupply (axc w1) = Some issued1" "total \<le> issued1" using P(5,6) by fastforce
  then show ?thesis
    using P(1) by (simp add: StakingManager_TurnIntoNewEpoch_def StakingManager_UpdateStakeRewardPerBlock_def Let_def
        staking_puts AXC_TotalSupply_def)
qed

lemma settle_ready_epoch:
  assumes "EpochManager_TurnIntoNewEpoch w = Inr (new, w')"
  shows "settle_ready w' = settle_ready w"
  using EpochManager_TurnIntoNewEpoch_frame [OF assms] by (simp add: settle_ready_def pool_ready_def)

section \<open>A chain with one validator\<close>

text \<open>
  One validator is enough, and must have 500 coins at stake; the validator's operator, account 7,
  has 1000 coins in its own pool.
\<close>

definition watch_epoch :: epoch_info where
  "watch_epoch = epoch_example
     \<lparr>ConsensusParams := (ConsensusParams epoch_example)\<lparr>MinValidatorNum := 1, MaxValidatorNum := 1\<rparr>,
      StakeParams := (StakeParams epoch_example)\<lparr>MinValidatorStake := 500, MaxUnlockStakeRatio := 10000\<rparr>\<rparr>"

definition watch_world :: world where
  "watch_world = empty_world
     \<lparr>balances := (\<lambda>_. 0)(StakingManagerContractAddr := 5000), axc := \<lparr>totalSupply = Some 5000\<rparr>,
      epochs := \<lparr>currentEpochID = Some 1, nextEpochInfo = Some (watch_epoch\<lparr>Epoch := 2, StartBlock := 100\<rparr>),
                 historyEpochInfoMap = [1 \<mapsto> watch_epoch]\<rparr>,
      lst := (lst empty_world)\<lparr>nextID := Some 2, ownerMap := [1 \<mapsto> 7], balanceMap := [7 \<mapsto> 1],
         infoMap := [1 \<mapsto> \<lparr>PoolID = 1, Principal = 1000, Unlocked = 0, ActiveEpoch = 1, UnlockingRecords = []\<rparr>]\<rparr>,
      staking := (staking empty_world)
        \<lparr>availablePools := Some [1], rewardPerBlock := Some 10, proposeBlockCountTable := [1 \<mapsto> 0],
         totalStake := Some 1000, lastEpochTotalStake := Some 1000,
         currentEpochTotalAddStake := Some 0, currentEpochTotalUnlockStake := Some 0,
         poolInfos := [1 \<mapsto> pool_info_zero\<lparr>pool_ID := 1, IsActive := True, ActiveStake := 1000,
           TotalLiquidStakingToken := 1000, OperatorLiquidStakingTokenID := 1\<rparr>],
         poolRates := (\<lambda>_. [0 \<mapsto> \<lparr>StakeAmount = 1000, LiquidStakingTokenAmount = 1000\<rparr>])\<rparr>,
      nodes := (nodes empty_world)
        \<lparr>nextNodeID := Some 2, nodeRegistry := [1 \<mapsto> node_example 1 Active], nodeP2PIDIndex := [''q'' \<mapsto> 1],
         nodeConsensusPubKeyIndex := [''k'' \<mapsto> 1], nodeNameIndex := [''n'' \<mapsto> 1],
         statusSets := (\<lambda>st. if st = Active then Some [1] else None),
         activeValidatorVotingPowers := Some [\<lparr>NodeID = 1, ConsensusVotingPower = 1\<rparr>]\<rparr>\<rparr>"

lemma watch_world_lst: "lst_inv watch_world"
  unfolding lst_inv_def issued_inv_def ownership_inv_def
  by (auto simp: watch_world_def next_token_def token_balance_def holdings_def LiquidStakingToken_ownerOf_def
      LiquidStakingToken_GetApproved_def LiquidStakingToken_IsApprovedForAll_def split: if_splits)

lemma watch_world_node: "node_inv watch_world"
  unfolding node_inv_def node_index_inv_def node_status_inv_def voting_inv_def indexes_def
  by (auto simp: watch_world_def node_example_def node_name_def next_node_def statusIDs_def
      NodeManager_GetActiveValidatorIDSet_def split: if_splits)

lemma watch_world_inv: "chain_inv watch_epoch watch_world"
proof -
  have "EpochManager_CurrentEpoch watch_world = Inr watch_epoch"
    by (simp add: watch_world_def EpochManager_CurrentEpoch_def EpochManager_HistoryEpoch_def)
  then have "stake_inv watch_epoch watch_world"
    using watch_world_lst
    by (simp add: stake_inv_def tokens_ok_def pools_ok_def pending_ok_def pool_ok_def pending_sum_def map_sum_def
        watch_world_def watch_epoch_def pool_info_zero_def CommissionRateDenominator_def pending_weight_def)
  moreover have "roles_inv watch_world" by (simp add: roles_inv_def watch_world_def statusIDs_def)
  moreover have "watch_inv watch_epoch watch_world"
    by (simp add: watch_inv_def watch_world_def statusIDs_def NodeManager_GetActiveValidatorIDSet_def
        short_of_stake_def storedNotEnough_def watch_epoch_def nextEpochActiveStake_def pool_info_zero_def
        empty_world_def)
  ultimately show ?thesis using watch_world_node by (simp add: chain_inv_def)
qed

section \<open>Properties\<close>

lemma set_sliceToMap: "fst ` set (sliceToMap ps) = fst ` set ps"
  by (force simp: sliceToMap_def)


definition watch_chain :: chain_state where
  "watch_chain = \<lparr>cs_EpochInfo = watch_epoch, ValidatorSet = [], SelfNodeID = 1, IsValidator = False\<rparr>"

definition last_block :: block_header where
  "last_block = \<lparr>Number = 99, ProposerNodeID = 1, GasFeeReward = 3\<rparr>"

definition watch_step :: "sys_call \<Rightarrow> world \<Rightarrow> world res" where
  "watch_step = sys_exec 10000 (\<lambda>l. l) (\<lambda>s. s) int_float"

definition watch_add :: sys_call where
  "watch_add = StakeCall (CallAddStake ((user 7)\<lparr>ctx_Value := Some 600\<rparr>) 1 7 600)"

definition ok_of :: "'a res \<Rightarrow> bool" where
  "ok_of r = (case r of Inl _ \<Rightarrow> False | Inr _ \<Rightarrow> True)"

lemma ok_ofE: "ok_of r \<Longrightarrow> (\<And>x. r = Inr x \<Longrightarrow> P) \<Longrightarrow> P"
  by (auto simp: ok_of_def split: sum.splits)

text \<open>An epoch in which the validator proposed the last block.\<close>

definition rewarded_world :: world where
  "rewarded_world = putGasReward 1 3 (putBlockCount 1 1 watch_world)"

lemma rewarded_world_run: "epoch_run 10000 (\<lambda>l. l) (\<lambda>s. s) int_float watch_world rewarded_world"
  by (rule epoch_reward [OF epoch_start, of last_block])
    (simp add: BlockExecutor_recordReward_def StakingManager_RecordReward_def last_block_def Let_def staking_puts
      rewarded_world_def watch_world_def)

lemma rewarded_world_ready: "settle_ready rewarded_world" "rewards_inv rewarded_world"
  by (auto simp: settle_ready_def pool_ready_def rewards_inv_def rewarded_world_def watch_world_def staking_puts
      pool_info_zero_def split: if_splits)


section \<open>A withdrawal the watch does not see\<close>

text \<open>The other direction: with too little stake everywhere the hook fails.\<close>

lemma election_starves:
  assumes inv: "stake_inv old w" "node_inv w" "roles_inv w" and srt: "sorts_by_stake srt"
    and c: "cs_EpochInfo c = old" "Number block = StartBlock old + EpochPeriod old - 1"
    and new: "nextEpochInfo (epochs w) = Some new" "params_kept old new" "MinValidatorNum (ConsensusParams new) \<noteq> 0"
    and poor: "\<And>k info. k \<in> set (statusIDs Candidate w) \<union> set (statusIDs Active w) \<Longrightarrow>
      poolInfos (staking w) k = Some info \<Longrightarrow>
      nextEpochActiveStake info + pool_income w k < MinValidatorStake (StakeParams new)"
  shows "\<exists>err. BlockExecutor_tryTurnIntoNewEpoch fo srt iterP block c w = Inl err"
proof (rule ccontr)
  assume "\<not> ?thesis"
  then obtain c' w' where "BlockExecutor_tryTurnIntoNewEpoch fo srt iterP block c w = Inr (c', w')"
    by (metis sum.exhaust surj_pair)
  then obtain e w1 w2 w3 where epoch: "EpochManager_TurnIntoNewEpoch w = Inr (e, w1)"
    and pools: "StakingManager_TurnIntoNewEpoch fo old e w1 = Inr w2"
    and el: "NodeManager_TurnIntoNewEpoch srt e w2 = Inr w3"
    using c by (auto simp: BlockExecutor_tryTurnIntoNewEpoch_def elim!: ebind_InrE)
  have e: "e = new" using epoch new(1) by (simp add: EpochManager_TurnIntoNewEpoch_ok_iff)
  note S = settled_world [OF inv epoch pools, unfolded e, OF new(2)]
  note N = node_parts_cong(4) [OF S(3)]
  from S(2) srt el [unfolded e] obtain xs vs cs where ids: "map sortID xs = sort (statusIDs Candidate w2 @ statusIDs Active w2)"
    and stakes: "\<forall>x\<in>set xs. \<exists>p. poolInfos (staking w2) (sortID x) = Some p \<and> ActiveStake p = stakeValue x"
    and elected: "elected (MaxValidatorNum (ConsensusParams new)) (MinValidatorStake (StakeParams new)) xs vs cs"
    and enough: "MinValidatorNum (ConsensusParams new) \<le> of_nat (length vs)"
    by (rule NodeManager_TurnIntoNewEpoch_result)
  have "vs \<noteq> []" using enough new(3) by auto
  then obtain v where v: "v \<in> set vs" by fastforce
  then have x: "v \<in> set xs" using elected by (metis elected_def mset_eq_setD mset_append set_append UnCI)
  then have part: "sortID v \<in> set (statusIDs Candidate w) \<union> set (statusIDs Active w)"
    using arg_cong [OF ids, of set] N by auto
  moreover from inv(3) this have "sortID v \<in> set (available w)" by (auto simp: roles_inv_def available_def)
  from S(6) [OF this] obtain info info' where I: "poolInfos (staking w) (sortID v) = Some info"
    "poolInfos (staking w2) (sortID v) = Some info'" "settled (pool_income w (sortID v)) info info'" by blast
  ultimately have "ActiveStake info' < MinValidatorStake (StakeParams new)" using poor by (auto simp: settled_def)
  moreover have "ActiveStake info' = stakeValue v" using stakes x I(2) by auto
  ultimately show False using elected v by (auto simp: elected_def)
qed

definition watch_unlock :: sys_call where
  "watch_unlock = StakeCall (CallUnlock (user 7) 1 1000)"

definition watch_withdraw :: sys_call where
  "watch_withdraw = StakeCall (CallWithdraw (user 7) 2 7 600)"

definition escape_run :: "world res" where
  "escape_run = ebind (watch_step watch_add watch_world) (\<lambda>w1.
     ebind (watch_step watch_unlock w1) (watch_step watch_withdraw))"

lemma escape_run_end:
  "(case escape_run of Inl err \<Rightarrow> False | Inr w \<Rightarrow>
      statusIDs Candidate w = [] \<and> statusIDs Active w = [1] \<and>
      map_option nextEpochActiveStake (poolInfos (staking w) 1) = Some 0 \<and> pool_income w 1 = 0 \<and>
      storedNotEnough w = [])"
  by code_simp

lemma watch_unlock_alone: "\<not> ok_of (watch_step watch_unlock watch_world)"
  by code_simp

lemma stake_exec_epochs:
  assumes "stake_exec rl iter c w = Inr w'"
  shows "epochs w' = epochs w"
proof -
  have up: "StakingManager_updateTotalStake b n w = Inr w' \<Longrightarrow> epochs w' = epochs w" for b n w w'
    by (drule updateTotalStake_outside) (simp add: pools_outside_def)
  have chk: "StakingManager_checkNextEpochValidatorActiveStake e n ids pend w = Inr w' \<Longrightarrow> epochs w' = epochs w"
    for e n ids pend w w' by (drule StakingManager_check_Inr) auto
  have add: "StakingPool_AddStake ctx p owner amount w = Inr w' \<Longrightarrow> epochs w' = epochs w" for ctx p owner amount w w'
    by (drule StakingPool_AddStake_outside) (simp add: pools_outside_def)
  have unlock: "efold (unlockOne ctx vs) ps (iv, w) = Inr (iv', w') \<Longrightarrow> epochs w' = epochs w" for ctx vs ps iv iv' w w'
    by (drule unlockAll_outside) (simp add: pools_outside_def)
  have withdraw: "StakingManager_BatchWithdraw ctx ts a as w = Inr w' \<Longrightarrow> epochs w' = epochs w" for ctx ts a as w w'
    by (drule StakingManager_BatchWithdraw_outside) (simp add: pools_outside_def)
  have batch: "StakingManager_BatchUnlock rl iter ctx ts as w = Inr w' \<Longrightarrow> epochs w' = epochs w" for ctx ts as w w'
    by (erule StakingManager_BatchUnlock_Inr) (simp add: up chk unlock)
  show ?thesis
    using assms
    by (cases c) (auto simp: StakingManager_Unlock_def StakingManager_Withdraw_def batch withdraw up chk add
        elim!: StakingManager_AddStake_Inr StakingManager_UpdatePoolCommissionRate_Inr)
qed

lemma escape_run_parts:
  assumes "escape_run = Inr w"
  shows "stake_inv watch_epoch w" "node_inv w" "roles_inv w" "epochs w = epochs watch_world"
proof -
  from assms obtain w1 w2 where s: "watch_step watch_add watch_world = Inr w1" "watch_step watch_unlock w1 = Inr w2"
    "watch_step watch_withdraw w2 = Inr w" by (auto simp: escape_run_def elim!: ebind_InrE)
  note s' = s [unfolded watch_step_def]
  have add: "chain_inv watch_epoch w1"
    by (rule sys_exec_chain [OF watch_world_inv s'(1)])
      (simp_all add: watch_add_def watch_world_def next_node_def)
  note st = s' [unfolded watch_add_def watch_unlock_def watch_withdraw_def sys_exec.simps]
  have unlock: "chain_inv watch_epoch w2" by (rule stake_exec_chain [OF add st(2)]) simp_all
  note D = chain_invD [OF unlock]
  have out: "pools_outside UNIV w2 w"
    using st(3) by (auto simp: StakingManager_Withdraw_def dest: StakingManager_BatchWithdraw_outside)
  then show "roles_inv w" using D(3) by (rule roles_inv_outside)
  show "node_inv w" using out D(2) node_inv_cong [of w w2] by (simp add: pools_outside_def)
  show "stake_inv watch_epoch w" by (rule stake_exec_stake_inv [OF D(1) st(3)])
  show "epochs w = epochs watch_world" using st [THEN stake_exec_epochs] by simp
qed

text \<open>
  C28: Withdrawals escape the watch. In a chain whose only validator must keep 500 coins, its operator
  may not unlock the 1000 coins at stake; but adding 600, unlocking the 1000, and withdrawing the 600
  again, which are not active yet, all succeed in one epoch. The withdrawal does not run the check of
  the validators' stake, so the validator is not on the list of those that will fall short, and the
  hook after the last block of the epoch fails, which stops the chain.
\<close>

theorem withdrawal_escapes_watch:
  "chain_inv watch_epoch watch_world \<and> \<not> ok_of (watch_step watch_unlock watch_world) \<and>
   (\<exists>w err. escape_run = Inr w \<and> storedNotEnough w = [] \<and> short_of_stake watch_epoch w 1 \<and>
      BlockExecutor_tryTurnIntoNewEpoch int_float (sort_key stakeValue) (\<lambda>l. l) last_block watch_chain w = Inl err)"
proof -
  obtain w where w: "escape_run = Inr w" "statusIDs Candidate w = []" "statusIDs Active w = [1]"
    "map_option nextEpochActiveStake (poolInfos (staking w) 1) = Some 0" "pool_income w 1 = 0" "storedNotEnough w = []"
    using escape_run_end by (auto simp del: map_option_eq_Some split: sum.splits)
  note P = escape_run_parts [OF w(1)]
  let ?new = "watch_epoch\<lparr>Epoch := 2, StartBlock := 100\<rparr>"
  have "nextEpochInfo (epochs w) = Some ?new" using P(4) by (simp add: watch_world_def)
  moreover have "params_kept watch_epoch ?new" "MinValidatorNum (ConsensusParams ?new) \<noteq> 0"
    "cs_EpochInfo watch_chain = watch_epoch" "Number last_block = StartBlock watch_epoch + EpochPeriod watch_epoch - 1"
    by (simp_all add: params_kept_def watch_epoch_def watch_chain_def last_block_def)
  ultimately have "\<exists>err. BlockExecutor_tryTurnIntoNewEpoch int_float (sort_key stakeValue) (\<lambda>l. l) last_block watch_chain w = Inl err"
    using w by (intro election_starves [OF P(1-3) sorts_by_stake_sort_key]) (auto simp: watch_epoch_def)
  moreover have "short_of_stake watch_epoch w 1" using w(4) by (auto simp: short_of_stake_def watch_epoch_def)
  ultimately show ?thesis using w watch_world_inv watch_unlock_alone by blast
qed

end
