(* ===== verification/Access_List.thy ===== *)
theory Access_List
  imports Prelude
begin

text \<open>
  The access list of a transaction (\<open>access_list.go\<close>): the addresses touched, each with the index of
  its set of storage slots or -1, and the list of these sets. Every addition can be undone exactly,
  provided additions are undone in reverse order.
\<close>

section \<open>Panics of the ledger\<close>

datatype panic =
    SlotAddressMissing
  | IndexOutOfRange
  | RefundBelowZero u64 u64
  | RevisionNotFound int
  | LogMissing
  | NilTxHash

section \<open>Operations\<close>

record access_list =
  addresses :: "address \<rightharpoonup> int"
  slots :: "hash set list"

definition NewAccessList :: access_list where
  "NewAccessList = \<lparr>addresses = Map.empty, slots = []\<rparr>"

definition slotsAt :: "access_list \<Rightarrow> int \<Rightarrow> panic + hash set" where
  "slotsAt al idx =
     (if 0 \<le> idx \<and> nat idx < length (slots al) then Inr (slots al ! nat idx) else Inl IndexOutOfRange)"

definition AccessList_ContainsAddress :: "address \<Rightarrow> access_list \<Rightarrow> bool" where
  "AccessList_ContainsAddress addr al \<longleftrightarrow> addresses al addr \<noteq> None"

definition AccessList_Contains :: "address \<Rightarrow> hash \<Rightarrow> access_list \<Rightarrow> panic + bool \<times> bool" where
  "AccessList_Contains addr slot al =
     (case addresses al addr of
        None \<Rightarrow> Inr (False, False)
      | Some idx \<Rightarrow>
          if idx = - 1 then Inr (True, False)
          else ebind (slotsAt al idx) (\<lambda>slotmap. Inr (True, slot \<in> slotmap)))"

definition AccessList_AddAddress :: "address \<Rightarrow> access_list \<Rightarrow> bool \<times> access_list" where
  "AccessList_AddAddress addr al =
     (if addresses al addr \<noteq> None then (False, al)
      else (True, al\<lparr>addresses := (addresses al)(addr \<mapsto> - 1)\<rparr>))"

definition AccessList_AddSlot :: "address \<Rightarrow> hash \<Rightarrow> access_list \<Rightarrow> panic + (bool \<times> bool) \<times> access_list" where
  "AccessList_AddSlot addr slot al =
     (if addresses al addr = None \<or> addresses al addr = Some (- 1) then
        Inr ((addresses al addr = None, True),
             al\<lparr>addresses := (addresses al)(addr \<mapsto> int (length (slots al))), slots := slots al @ [{slot}]\<rparr>)
      else
        let idx = the (addresses al addr) in
        ebind (slotsAt al idx) (\<lambda>slotmap.
        if slot \<notin> slotmap
        then Inr ((False, True), al\<lparr>slots := (slots al)[nat idx := insert slot slotmap]\<rparr>)
        else Inr ((False, False), al)))"

definition AccessList_DeleteSlot :: "address \<Rightarrow> hash \<Rightarrow> access_list \<Rightarrow> panic + access_list" where
  "AccessList_DeleteSlot addr slot al =
     ebind (must SlotAddressMissing (addresses al addr)) (\<lambda>idx.
     ebind (slotsAt al idx) (\<lambda>slotmap.
     let slotmap = slotmap - {slot} in
     if slotmap = {}
     then Inr \<lparr>addresses = (addresses al)(addr \<mapsto> - 1), slots = take (nat idx) (slots al)\<rparr>
     else Inr (al\<lparr>slots := (slots al)[nat idx := slotmap]\<rparr>)))"

definition AccessList_DeleteAddress :: "address \<Rightarrow> access_list \<Rightarrow> access_list" where
  "AccessList_DeleteAddress addr al = al\<lparr>addresses := (addresses al)(addr := None)\<rparr>"

definition AccessList_Copy :: "access_list \<Rightarrow> access_list" where
  "AccessList_Copy al = \<lparr>addresses = addresses al, slots = map (\<lambda>slotMap. slotMap) (slots al)\<rparr>"

section \<open>Lemmas\<close>

text \<open>Indices point into the list, no two addresses share one, and no listed set is empty.\<close>

definition al_inv :: "access_list \<Rightarrow> bool" where
  "al_inv al \<longleftrightarrow>
     (\<forall>a i. addresses al a = Some i \<longrightarrow> i = - 1 \<or> 0 \<le> i \<and> nat i < length (slots al)) \<and>
     (\<forall>a b i. addresses al a = Some i \<longrightarrow> addresses al b = Some i \<longrightarrow> i \<noteq> - 1 \<longrightarrow> a = b) \<and>
     (\<forall>s\<in>set (slots al). s \<noteq> {})"

lemma al_invD:
  assumes "al_inv al"
  shows "addresses al a = Some i \<Longrightarrow> i \<noteq> - 1 \<Longrightarrow> slotsAt al i = Inr (slots al ! nat i)"
    "addresses al a = Some i \<Longrightarrow> i \<noteq> - 1 \<Longrightarrow> 0 \<le> i \<and> nat i < length (slots al)"
    "addresses al a = Some i \<Longrightarrow> addresses al b = Some i \<Longrightarrow> i \<noteq> - 1 \<Longrightarrow> a = b"
    "n < length (slots al) \<Longrightarrow> slots al ! n \<noteq> {}"
  using assms unfolding al_inv_def slotsAt_def by (auto; force)+

lemma al_inv_new [simp]: "al_inv NewAccessList"
  by (simp add: al_inv_def NewAccessList_def)

lemma AccessList_AddAddress_inv:
  assumes "AccessList_AddAddress a al = (b, al')" and "al_inv al"
  shows "al_inv al'" and "b \<Longrightarrow> AccessList_DeleteAddress a al' = al" and "\<not> b \<Longrightarrow> al' = al"
proof -
  consider "addresses al a \<noteq> None" "b = False" "al' = al"
    | "addresses al a = None" "b = True" "al' = al\<lparr>addresses := (addresses al)(a \<mapsto> - 1)\<rparr>"
    using assms(1) by (auto simp: AccessList_AddAddress_def split: if_splits)
  note cases = this
  show "al_inv al'" by (cases rule: cases) (use assms(2) in \<open>auto simp: al_inv_def\<close>)
  show "b \<Longrightarrow> AccessList_DeleteAddress a al' = al"
    by (cases rule: cases) (auto simp: AccessList_DeleteAddress_def fun_upd_idem)
  show "\<not> b \<Longrightarrow> al' = al" by (cases rule: cases) auto
qed

text \<open>Which slots an address has.\<close>

definition warm_slots :: "access_list \<Rightarrow> address \<Rightarrow> hash set" where
  "warm_slots al a = (case addresses al a of None \<Rightarrow> {} | Some i \<Rightarrow> if i = - 1 then {} else slots al ! nat i)"

lemma AccessList_Contains_warm:
  "al_inv al \<Longrightarrow> AccessList_Contains a s al = Inr (addresses al a \<noteq> None, s \<in> warm_slots al a)"
  by (auto simp: AccessList_Contains_def warm_slots_def al_invD(1) split: option.splits)

lemma AccessList_AddSlot_ok:
  assumes inv: "al_inv al"
  shows "\<exists>p al'. AccessList_AddSlot a s al = Inr (p, al') \<and> al_inv al' \<and>
    fst p = (addresses al a = None) \<and> snd p = (s \<notin> warm_slots al a) \<and>
    (snd p \<longrightarrow> AccessList_DeleteSlot a s al' = Inr (if fst p then al\<lparr>addresses := (addresses al)(a \<mapsto> - 1)\<rparr> else al)) \<and>
    (\<not> snd p \<longrightarrow> al' = al) \<and>
    dom (addresses al') = insert a (dom (addresses al)) \<and>
    warm_slots al' = (warm_slots al)(a := insert s (warm_slots al a))"
proof (cases "addresses al a = None \<or> addresses al a = Some (- 1)")
  case True
  let ?al' = "al\<lparr>addresses := (addresses al)(a \<mapsto> int (length (slots al))), slots := slots al @ [{s}]\<rparr>"
  have add: "AccessList_AddSlot a s al = Inr ((addresses al a = None, True), ?al')"
    using True by (simp add: AccessList_AddSlot_def)
  have "al_inv ?al'" using inv by (fastforce simp: al_inv_def nth_append)
  moreover have "AccessList_DeleteSlot a s ?al' =
      Inr (if addresses al a = None then al\<lparr>addresses := (addresses al)(a \<mapsto> - 1)\<rparr> else al)"
    using True by (auto simp: AccessList_DeleteSlot_def slotsAt_def fun_upd_idem)
  moreover have "warm_slots al a = {}" using True by (auto simp: warm_slots_def)
  moreover have "warm_slots ?al' = (warm_slots al)(a := {s})"
  proof
    fix b
    show "warm_slots ?al' b = ((warm_slots al)(a := {s})) b"
      using al_invD(2) [OF inv, of b] by (auto simp: warm_slots_def nth_append split: option.splits)
  qed
  ultimately show ?thesis using add by (intro exI [of _ "(addresses al a = None, True)"] exI [of _ ?al']) auto
next
  case False
  then obtain i where i: "addresses al a = Some i" "i \<noteq> - 1" by auto
  note at = al_invD(1) [OF inv i] and range = al_invD(2) [OF inv i]
  have warm: "warm_slots al a = slots al ! nat i" using i by (simp add: warm_slots_def)
  let ?al' = "al\<lparr>slots := (slots al)[nat i := insert s (slots al ! nat i)]\<rparr>"
  show ?thesis
  proof (cases "s \<in> slots al ! nat i")
    case True
    then have "AccessList_AddSlot a s al = Inr ((False, False), al)"
      using i at by (simp add: AccessList_AddSlot_def)
    then show ?thesis using inv i True warm by (intro exI [of _ "(False, False)"] exI [of _ al]) (auto simp: insert_absorb fun_upd_idem)
  next
    case False
    have add: "AccessList_AddSlot a s al = Inr ((False, True), ?al')"
      using i at False by (simp add: AccessList_AddSlot_def)
    have "al_inv ?al'" using inv range al_invD(4) [OF inv] by (auto simp: al_inv_def in_set_conv_nth nth_list_update split: if_splits)
    moreover have "AccessList_DeleteSlot a s ?al' = Inr al"
      using i range False al_invD(4) [OF inv] by (auto simp: AccessList_DeleteSlot_def slotsAt_def)
    moreover have "warm_slots ?al' = (warm_slots al)(a := insert s (warm_slots al a))"
    proof
      fix b
      show "warm_slots ?al' b = ((warm_slots al)(a := insert s (warm_slots al a))) b"
      proof (cases "addresses al b")
        case (Some j)
        then show ?thesis
          using i range al_invD(2) [OF inv, of b j] al_invD(3) [OF inv, of b j a]
          by (cases "j = - 1"; cases "b = a") (auto simp: warm_slots_def nth_list_update nat_eq_iff2)
      qed (use i in \<open>auto simp: warm_slots_def\<close>)
    qed
    ultimately show ?thesis using add i False warm by (intro exI [of _ "(False, True)"] exI [of _ ?al']) auto
  qed
qed

end
