(* ===== verification/State_Ledger.thy ===== *)
theory State_Ledger
  imports Access_List
begin

text \<open>
  The state of the accounts while a block is executed (\<open>internal/ledger\<close>): cached accounts with
  their original, pending and dirty data (\<open>account.go\<close>), the journal of changes with an entry per
  change that knows how to undo it (\<open>state_changer.go\<close>), and the ledger on top of them
  (\<open>state_accessor.go\<close>, \<open>state_ledger.go\<close>, \<open>evmstate_db.go\<close>). A nil slice is \<open>None\<close>, which the code
  tells apart from an empty one.
\<close>

section \<open>What the ledger is built on\<close>

record inner_account =
  ia_Nonce :: u64
  ia_Balance :: int
  ia_CodeHash :: "bytes option"
  ia_StorageRoot :: hash

text \<open>
  The committed state and the library functions, which do not change while a block is executed:
  \<open>CopyOrNewIfEmpty\<close> and \<open>InnerAccountChanged\<close> of axiom-kit, Keccak-256 of go-ethereum, the flat snapshot
  (\<open>None\<close>: there is none or it failed), the tries and the key-value store with the codes.
\<close>

record ledger_env =
  copyOrNew :: "inner_account option \<Rightarrow> inner_account"
  innerChanged :: "inner_account option \<Rightarrow> inner_account option \<Rightarrow> bool"
  keccak :: "bytes \<Rightarrow> bytes"
  snapAccount :: "address \<Rightarrow> inner_account option option"
  trieAccount :: "address \<Rightarrow> inner_account option"
  backendCode :: "address \<Rightarrow> bytes \<Rightarrow> bytes option"
  snapStorage :: "address \<Rightarrow> bytes \<Rightarrow> bytes option option"
  trieStorage :: "address \<Rightarrow> inner_account option \<Rightarrow> bytes \<Rightarrow> bytes option"

definition zeroHash :: bytes where
  "zeroHash = replicate 32 0"

section \<open>The journal\<close>

record simple_account =
  Addr :: address
  originAccount :: "inner_account option"
  dirtyAccount :: "inner_account option"
  originState :: "bytes \<rightharpoonup> bytes option"
  pendingState :: "bytes \<rightharpoonup> bytes option"
  dirtyState :: "bytes \<rightharpoonup> bytes option"
  originCode :: "bytes option"
  dirtyCode :: "bytes option"
  selfDestructed :: bool
  created :: bool

datatype state_change =
    CreateObjectChange address
  | ResetObjectChange simple_account
  | SuicideChange address bool int
  | BalanceChange address int
  | NonceChange address u64
  | StorageChange address bytes "bytes option"
  | CodeChange address "bytes option"
  | RefundChange u64
  | AddLogChange hash
  | AddPreimageChange hash
  | TouchChange address
  | AccessListAddAccountChange address
  | AccessListAddSlotChange address hash
  | TransientStorageChange address hash hash

fun dirtied :: "state_change \<Rightarrow> address option" where
  "dirtied (CreateObjectChange a) = Some a"
| "dirtied (ResetObjectChange prev) = None"
| "dirtied (SuicideChange a prev prevbalance) = Some a"
| "dirtied (BalanceChange a prev) = Some a"
| "dirtied (NonceChange a prev) = Some a"
| "dirtied (StorageChange a key prevalue) = Some a"
| "dirtied (CodeChange a prevcode) = Some a"
| "dirtied (RefundChange prev) = None"
| "dirtied (AddLogChange txHash) = None"
| "dirtied (AddPreimageChange h) = None"
| "dirtied (TouchChange a) = Some a"
| "dirtied (AccessListAddAccountChange a) = None"
| "dirtied (AccessListAddSlotChange a slot) = None"
| "dirtied (TransientStorageChange a key prevalue) = None"

record state_changer =
  changes :: "state_change list"
  dirties :: "address \<rightharpoonup> int"

definition newChanger :: state_changer where
  "newChanger = \<lparr>changes = [], dirties = Map.empty\<rparr>"

definition dirtyCount :: "state_changer \<Rightarrow> address \<Rightarrow> int" where
  "dirtyCount s a = (case dirties s a of None \<Rightarrow> 0 | Some n \<Rightarrow> n)"

definition stateChanger_append :: "state_change \<Rightarrow> state_changer \<Rightarrow> state_changer" where
  "stateChanger_append change s =
     (let s1 = s\<lparr>changes := changes s @ [change]\<rparr> in
      case dirtied change of
        None \<Rightarrow> s1
      | Some addr \<Rightarrow> s1\<lparr>dirties := (dirties s1)(addr \<mapsto> dirtyCount s1 addr + 1)\<rparr>)"

definition stateChanger_dirty :: "address \<Rightarrow> state_changer \<Rightarrow> state_changer" where
  "stateChanger_dirty addr s = s\<lparr>dirties := (dirties s)(addr \<mapsto> dirtyCount s addr + 1)\<rparr>"

text \<open>The part of \<open>revert\<close> that takes a change off the count of its address.\<close>

definition undirty :: "state_change \<Rightarrow> state_changer \<Rightarrow> state_changer" where
  "undirty change s =
     (case dirtied change of
        None \<Rightarrow> s
      | Some addr \<Rightarrow>
          let n = dirtyCount s addr - 1 in
          s\<lparr>dirties := (dirties s)(addr := if n = 0 then None else Some n)\<rparr>)"

definition stateChanger_length :: "state_changer \<Rightarrow> nat" where
  "stateChanger_length s = length (changes s)"

definition stateChanger_reset :: "state_changer \<Rightarrow> state_changer" where
  "stateChanger_reset s = \<lparr>changes = [], dirties = Map.empty\<rparr>"

section \<open>Accounts\<close>

definition NewAccount :: "address \<Rightarrow> simple_account" where
  "NewAccount addr = \<lparr>Addr = addr, originAccount = None, dirtyAccount = None, originState = Map.empty,
     pendingState = Map.empty, dirtyState = Map.empty, originCode = None, dirtyCode = None,
     selfDestructed = False, created = False\<rparr>"

text \<open>The committed value of a slot, from the snapshot or, without one, from the storage trie.\<close>

definition loadState :: "ledger_env \<Rightarrow> bytes \<Rightarrow> simple_account \<Rightarrow> bytes option" where
  "loadState E key acc =
     (case snapStorage E (Addr acc) key of
        Some value \<Rightarrow> value
      | None \<Rightarrow> trieStorage E (Addr acc) (originAccount acc) key)"

definition SimpleAccount_GetState ::
  "ledger_env \<Rightarrow> bytes \<Rightarrow> simple_account \<Rightarrow> (bool \<times> bytes option) \<times> simple_account" where
  "SimpleAccount_GetState E key acc =
     (case dirtyState acc key of
        Some value \<Rightarrow> ((value \<noteq> None, value), acc)
      | None \<Rightarrow>
     (case pendingState acc key of
        Some value \<Rightarrow> ((value \<noteq> None, value), acc)
      | None \<Rightarrow>
     (case originState acc key of
        Some value \<Rightarrow> ((value \<noteq> None, value), acc)
      | None \<Rightarrow>
        let value = loadState E key acc in
        ((value \<noteq> None, value), acc\<lparr>originState := (originState acc)(key \<mapsto> value)\<rparr>))))"

definition orZeroHash :: "bytes option \<Rightarrow> bytes" where
  "orZeroHash value = (case value of None \<Rightarrow> zeroHash | Some v \<Rightarrow> v)"

definition SimpleAccount_GetCommittedState ::
  "ledger_env \<Rightarrow> bytes \<Rightarrow> simple_account \<Rightarrow> bytes \<times> simple_account" where
  "SimpleAccount_GetCommittedState E key acc =
     (case pendingState acc key of
        Some value \<Rightarrow> (orZeroHash value, acc)
      | None \<Rightarrow>
     (case originState acc key of
        Some value \<Rightarrow> (orZeroHash value, acc)
      | None \<Rightarrow>
        let value = loadState E key acc in
        (orZeroHash value, acc\<lparr>originState := (originState acc)(key \<mapsto> value)\<rparr>)))"

definition SimpleAccount_setState :: "bytes \<Rightarrow> bytes option \<Rightarrow> simple_account \<Rightarrow> simple_account" where
  "SimpleAccount_setState key value acc = acc\<lparr>dirtyState := (dirtyState acc)(key \<mapsto> value)\<rparr>"

definition makeDirty :: "ledger_env \<Rightarrow> simple_account \<Rightarrow> simple_account" where
  "makeDirty E acc =
     (if dirtyAccount acc = None then acc\<lparr>dirtyAccount := Some (copyOrNew E (originAccount acc))\<rparr> else acc)"

definition updDirty :: "(inner_account \<Rightarrow> inner_account) \<Rightarrow> simple_account \<Rightarrow> simple_account" where
  "updDirty f acc = acc\<lparr>dirtyAccount := map_option f (dirtyAccount acc)\<rparr>"

definition SimpleAccount_SetState ::
  "ledger_env \<Rightarrow> bytes \<Rightarrow> bytes option \<Rightarrow> simple_account \<times> state_changer \<Rightarrow> simple_account \<times> state_changer" where
  "SimpleAccount_SetState E key value = (\<lambda>(acc, s).
     let ((_, prev), acc1) = SimpleAccount_GetState E key acc;
         s1 = stateChanger_append (StorageChange (Addr acc) key prev) s
     in (SimpleAccount_setState key value (makeDirty E acc1), s1))"

definition SimpleAccount_CodeHash :: "simple_account \<Rightarrow> bytes option" where
  "SimpleAccount_CodeHash acc =
     (case dirtyAccount acc of
        Some d \<Rightarrow> ia_CodeHash d
      | None \<Rightarrow> (case originAccount acc of Some ia \<Rightarrow> ia_CodeHash ia | None \<Rightarrow> None))"

definition SimpleAccount_Code :: "ledger_env \<Rightarrow> simple_account \<Rightarrow> bytes option \<times> simple_account" where
  "SimpleAccount_Code E acc =
     (case dirtyCode acc of
        Some c \<Rightarrow> (Some c, acc)
      | None \<Rightarrow>
     (case originCode acc of
        Some c \<Rightarrow> (Some c, acc)
      | None \<Rightarrow>
     (case SimpleAccount_CodeHash acc of
        None \<Rightarrow> (None, acc)
      | Some h \<Rightarrow>
        if h = [] then (None, acc)
        else let code = backendCode E (Addr acc) h in (code, acc\<lparr>originCode := code, dirtyCode := code\<rparr>))))"

definition codeKeccak :: "ledger_env \<Rightarrow> bytes option \<Rightarrow> bytes" where
  "codeKeccak E code = keccak E (case code of None \<Rightarrow> [] | Some c \<Rightarrow> c)"

definition SimpleAccount_setCodeAndHash :: "ledger_env \<Rightarrow> bytes option \<Rightarrow> simple_account \<Rightarrow> simple_account" where
  "SimpleAccount_setCodeAndHash E code acc =
     (updDirty (\<lambda>d. d\<lparr>ia_CodeHash := Some (codeKeccak E code)\<rparr>) (makeDirty E acc))\<lparr>dirtyCode := code\<rparr>"

definition SimpleAccount_SetCodeAndHash ::
  "ledger_env \<Rightarrow> bytes option \<Rightarrow> simple_account \<times> state_changer \<Rightarrow> simple_account \<times> state_changer" where
  "SimpleAccount_SetCodeAndHash E code = (\<lambda>(acc, s).
     let (prevcode, acc1) = SimpleAccount_Code E acc;
         s1 = stateChanger_append (CodeChange (Addr acc) prevcode) s
     in (SimpleAccount_setCodeAndHash E code acc1, s1))"

definition SimpleAccount_GetNonce :: "simple_account \<Rightarrow> u64" where
  "SimpleAccount_GetNonce acc =
     (case dirtyAccount acc of
        Some d \<Rightarrow> ia_Nonce d
      | None \<Rightarrow> (case originAccount acc of Some ia \<Rightarrow> ia_Nonce ia | None \<Rightarrow> 0))"

definition SimpleAccount_setNonce :: "ledger_env \<Rightarrow> u64 \<Rightarrow> simple_account \<Rightarrow> simple_account" where
  "SimpleAccount_setNonce E nonce acc = updDirty (\<lambda>d. d\<lparr>ia_Nonce := nonce\<rparr>) (makeDirty E acc)"

definition SimpleAccount_SetNonce ::
  "ledger_env \<Rightarrow> u64 \<Rightarrow> simple_account \<times> state_changer \<Rightarrow> simple_account \<times> state_changer" where
  "SimpleAccount_SetNonce E nonce = (\<lambda>(acc, s).
     (updDirty (\<lambda>d. d\<lparr>ia_Nonce := nonce\<rparr>) (makeDirty E acc),
      stateChanger_append (NonceChange (Addr acc) (SimpleAccount_GetNonce acc)) s))"

definition SimpleAccount_GetBalance :: "simple_account \<Rightarrow> int" where
  "SimpleAccount_GetBalance acc =
     (case dirtyAccount acc of
        Some d \<Rightarrow> ia_Balance d
      | None \<Rightarrow> (case originAccount acc of Some ia \<Rightarrow> ia_Balance ia | None \<Rightarrow> 0))"

definition SimpleAccount_setBalance :: "ledger_env \<Rightarrow> int \<Rightarrow> simple_account \<Rightarrow> simple_account" where
  "SimpleAccount_setBalance E balance acc = updDirty (\<lambda>d. d\<lparr>ia_Balance := balance\<rparr>) (makeDirty E acc)"

definition SimpleAccount_SetBalance ::
  "ledger_env \<Rightarrow> int \<Rightarrow> simple_account \<times> state_changer \<Rightarrow> simple_account \<times> state_changer" where
  "SimpleAccount_SetBalance E balance = (\<lambda>(acc, s).
     (updDirty (\<lambda>d. d\<lparr>ia_Balance := balance\<rparr>) (makeDirty E acc),
      stateChanger_append (BalanceChange (Addr acc) (SimpleAccount_GetBalance acc)) s))"

definition SimpleAccount_SubBalance ::
  "ledger_env \<Rightarrow> int \<Rightarrow> simple_account \<times> state_changer \<Rightarrow> simple_account \<times> state_changer" where
  "SimpleAccount_SubBalance E amount = (\<lambda>(acc, s).
     if amount = 0 then (acc, s)
     else SimpleAccount_SetBalance E (SimpleAccount_GetBalance acc - amount) (acc, s))"

definition SimpleAccount_AddBalance ::
  "ledger_env \<Rightarrow> int \<Rightarrow> simple_account \<times> state_changer \<Rightarrow> simple_account \<times> state_changer" where
  "SimpleAccount_AddBalance E amount = (\<lambda>(acc, s).
     if amount = 0 then (acc, s)
     else SimpleAccount_SetBalance E (SimpleAccount_GetBalance acc + amount) (acc, s))"

text \<open>The keys to preload that \<open>Finalise\<close> also returns are hints for a cache.\<close>

definition SimpleAccount_Finalise :: "simple_account \<Rightarrow> simple_account" where
  "SimpleAccount_Finalise acc = acc\<lparr>pendingState := pendingState acc ++ dirtyState acc, dirtyState := Map.empty\<rparr>"

definition SimpleAccount_IsEmpty :: "ledger_env \<Rightarrow> simple_account \<Rightarrow> bool \<times> simple_account" where
  "SimpleAccount_IsEmpty E acc =
     (if SimpleAccount_GetBalance acc = 0 \<and> SimpleAccount_GetNonce acc = 0 then
        let (code, acc1) = SimpleAccount_Code E acc in (code = None \<and> \<not> selfDestructed acc1, acc1)
      else (False, acc))"

definition SimpleAccount_GetStorageRoot :: "simple_account \<Rightarrow> hash" where
  "SimpleAccount_GetStorageRoot acc = (case originAccount acc of None \<Rightarrow> 0 | Some ia \<Rightarrow> ia_StorageRoot ia)"

section \<open>The ledger\<close>

record evm_log =
  log_Address :: address
  log_Topics :: "hash list"
  log_Data :: bytes
  log_BlockNumber :: u64
  log_TransactionHash :: "hash option"
  log_TransactionIndex :: u64
  log_LogIndex :: u64
  log_Removed :: bool

record evm_logs =
  txLogs :: "hash \<rightharpoonup> evm_log list"
  logSize :: u64

definition newEvmLogs :: evm_logs where
  "newEvmLogs = \<lparr>txLogs = Map.empty, logSize = 0\<rparr>"

type_synonym transient_storage = "address \<rightharpoonup> (hash \<rightharpoonup> hash)"

definition newTransientStorage :: transient_storage where
  "newTransientStorage = Map.empty"

definition transientStorage_Set :: "address \<Rightarrow> hash \<Rightarrow> hash \<Rightarrow> transient_storage \<Rightarrow> transient_storage" where
  "transientStorage_Set addr key value t =
     (let storage = (case t addr of None \<Rightarrow> Map.empty | Some storage \<Rightarrow> storage)
      in t(addr \<mapsto> storage(key \<mapsto> value)))"

definition transientStorage_Get :: "address \<Rightarrow> hash \<Rightarrow> transient_storage \<Rightarrow> hash" where
  "transientStorage_Get addr key t =
     (case t addr of None \<Rightarrow> 0 | Some val \<Rightarrow> (case val key of None \<Rightarrow> 0 | Some v \<Rightarrow> v))"

record revision =
  rev_id :: int
  changerIndex :: nat

record state_ledger =
  accounts :: "address \<rightharpoonup> simple_account"
  blockHeight :: u64
  thash :: "hash option"
  txIndex :: u64
  validRevisions :: "revision list"
  nextRevisionId :: int
  changer :: state_changer
  accessList :: access_list
  preimages :: "hash \<rightharpoonup> bytes"
  refund :: u64
  evmLogs :: evm_logs
  transientStorage :: transient_storage

definition appendChange :: "state_change \<Rightarrow> state_ledger \<Rightarrow> state_ledger" where
  "appendChange change l = l\<lparr>changer := stateChanger_append change (changer l)\<rparr>"

definition putAccount :: "address \<Rightarrow> simple_account \<Rightarrow> state_ledger \<Rightarrow> state_ledger" where
  "putAccount addr acc l = l\<lparr>accounts := (accounts l)(addr \<mapsto> acc)\<rparr>"

text \<open>A loaded account starts with the committed record and its code.\<close>

definition loadAccount :: "ledger_env \<Rightarrow> address \<Rightarrow> inner_account \<Rightarrow> simple_account" where
  "loadAccount E addr ia =
     (let code = (case ia_CodeHash ia of
                    None \<Rightarrow> None
                  | Some h \<Rightarrow> if h = [] then None else backendCode E addr h)
      in (NewAccount addr)\<lparr>originAccount := Some ia, originCode := code, dirtyCode := code\<rparr>)"

definition StateLedger_GetAccount ::
  "ledger_env \<Rightarrow> address \<Rightarrow> state_ledger \<Rightarrow> simple_account option \<times> state_ledger" where
  "StateLedger_GetAccount E addr l =
     (case accounts l addr of
        Some acc \<Rightarrow> (Some acc, l)
      | None \<Rightarrow>
     (case snapAccount E addr of
        Some None \<Rightarrow> (None, l)
      | Some (Some ia) \<Rightarrow> let acc = loadAccount E addr ia in (Some acc, putAccount addr acc l)
      | None \<Rightarrow>
     (case trieAccount E addr of
        Some ia \<Rightarrow> let acc = loadAccount E addr ia in (Some acc, putAccount addr acc l)
      | None \<Rightarrow> (None, l))))"

definition StateLedger_GetOrCreateAccount ::
  "ledger_env \<Rightarrow> address \<Rightarrow> state_ledger \<Rightarrow> simple_account \<times> state_ledger" where
  "StateLedger_GetOrCreateAccount E addr l =
     (case StateLedger_GetAccount E addr l of
        (Some acc, l1) \<Rightarrow> (acc, l1)
      | (None, l1) \<Rightarrow>
          let acc = (NewAccount addr)\<lparr>created := True\<rparr>
          in (acc, putAccount addr acc (appendChange (CreateObjectChange addr) l1)))"

definition StateLedger_setAccount :: "simple_account \<Rightarrow> state_ledger \<Rightarrow> state_ledger" where
  "StateLedger_setAccount acc l = putAccount (Addr acc) acc l"

text \<open>Accounts are shared by reference: a method of an account updates the cache and the journal.\<close>

definition onAccount ::
  "ledger_env \<Rightarrow> (simple_account \<times> state_changer \<Rightarrow> simple_account \<times> state_changer) \<Rightarrow> address \<Rightarrow>
   state_ledger \<Rightarrow> state_ledger" where
  "onAccount E f addr l =
     (let (acc, l1) = StateLedger_GetOrCreateAccount E addr l;
          (acc1, s1) = f (acc, changer l1)
      in putAccount addr acc1 (l1\<lparr>changer := s1\<rparr>))"

definition readAccount ::
  "ledger_env \<Rightarrow> (simple_account \<Rightarrow> 'a \<times> simple_account) \<Rightarrow> address \<Rightarrow> state_ledger \<Rightarrow> 'a \<times> state_ledger" where
  "readAccount E f addr l =
     (let (acc, l1) = StateLedger_GetOrCreateAccount E addr l;
          (x, acc1) = f acc
      in (x, putAccount addr acc1 l1))"

definition StateLedger_GetBalance :: "ledger_env \<Rightarrow> address \<Rightarrow> state_ledger \<Rightarrow> int \<times> state_ledger" where
  "StateLedger_GetBalance E = readAccount E (\<lambda>acc. (SimpleAccount_GetBalance acc, acc))"

definition StateLedger_SetBalance :: "ledger_env \<Rightarrow> address \<Rightarrow> int \<Rightarrow> state_ledger \<Rightarrow> state_ledger" where
  "StateLedger_SetBalance E addr value = onAccount E (SimpleAccount_SetBalance E value) addr"

definition StateLedger_SubBalance :: "ledger_env \<Rightarrow> address \<Rightarrow> int \<Rightarrow> state_ledger \<Rightarrow> state_ledger" where
  "StateLedger_SubBalance E addr value =
     onAccount E (\<lambda>(acc, s).
       let (empty, acc1) = SimpleAccount_IsEmpty E acc
       in if \<not> empty then SimpleAccount_SubBalance E value (acc1, s) else (acc1, s)) addr"

definition StateLedger_AddBalance :: "ledger_env \<Rightarrow> address \<Rightarrow> int \<Rightarrow> state_ledger \<Rightarrow> state_ledger" where
  "StateLedger_AddBalance E addr value = onAccount E (SimpleAccount_AddBalance E value) addr"

definition StateLedger_GetState ::
  "ledger_env \<Rightarrow> address \<Rightarrow> bytes \<Rightarrow> state_ledger \<Rightarrow> (bool \<times> bytes option) \<times> state_ledger" where
  "StateLedger_GetState E addr key = readAccount E (SimpleAccount_GetState E key) addr"

definition StateLedger_setTransientState :: "address \<Rightarrow> hash \<Rightarrow> hash \<Rightarrow> state_ledger \<Rightarrow> state_ledger" where
  "StateLedger_setTransientState addr key value l =
     l\<lparr>transientStorage := transientStorage_Set addr key value (transientStorage l)\<rparr>"

definition StateLedger_GetCommittedState ::
  "ledger_env \<Rightarrow> address \<Rightarrow> bytes \<Rightarrow> state_ledger \<Rightarrow> bytes \<times> state_ledger" where
  "StateLedger_GetCommittedState E addr key =
     readAccount E (\<lambda>acc.
       let (empty, acc1) = SimpleAccount_IsEmpty E acc
       in if empty then (zeroHash, acc1) else SimpleAccount_GetCommittedState E key acc1) addr"

definition StateLedger_SetState ::
  "ledger_env \<Rightarrow> address \<Rightarrow> bytes \<Rightarrow> bytes option \<Rightarrow> state_ledger \<Rightarrow> state_ledger" where
  "StateLedger_SetState E addr key v = onAccount E (SimpleAccount_SetState E key v) addr"

definition StateLedger_SetCode :: "ledger_env \<Rightarrow> address \<Rightarrow> bytes option \<Rightarrow> state_ledger \<Rightarrow> state_ledger" where
  "StateLedger_SetCode E addr code = onAccount E (SimpleAccount_SetCodeAndHash E code) addr"

definition StateLedger_GetCode :: "ledger_env \<Rightarrow> address \<Rightarrow> state_ledger \<Rightarrow> bytes option \<times> state_ledger" where
  "StateLedger_GetCode E = readAccount E (SimpleAccount_Code E)"

text \<open>\<open>types.NewHash\<close> of axiom-kit turns the code hash, which may be nil, into a hash.\<close>

definition StateLedger_GetCodeHash ::
  "ledger_env \<Rightarrow> (bytes option \<Rightarrow> hash) \<Rightarrow> address \<Rightarrow> state_ledger \<Rightarrow> hash \<times> state_ledger" where
  "StateLedger_GetCodeHash E newHash =
     readAccount E (\<lambda>acc.
       let (empty, acc1) = SimpleAccount_IsEmpty E acc
       in (if empty then 0 else newHash (SimpleAccount_CodeHash acc1), acc1))"

definition StateLedger_GetCodeSize :: "ledger_env \<Rightarrow> address \<Rightarrow> state_ledger \<Rightarrow> nat \<times> state_ledger" where
  "StateLedger_GetCodeSize E =
     readAccount E (\<lambda>acc.
       let (empty, acc1) = SimpleAccount_IsEmpty E acc
       in if \<not> empty then
            let (code, acc2) = SimpleAccount_Code E acc1
            in (case code of None \<Rightarrow> 0 | Some c \<Rightarrow> length c, acc2)
          else (0, acc1))"

definition StateLedger_AddRefund :: "u64 \<Rightarrow> state_ledger \<Rightarrow> state_ledger" where
  "StateLedger_AddRefund gas l = (appendChange (RefundChange (refund l)) l)\<lparr>refund := refund l + gas\<rparr>"

definition StateLedger_SubRefund :: "u64 \<Rightarrow> state_ledger \<Rightarrow> panic + state_ledger" where
  "StateLedger_SubRefund gas l =
     (let l1 = appendChange (RefundChange (refund l)) l
      in if refund l < gas then Inl (RefundBelowZero gas (refund l)) else Inr (l1\<lparr>refund := refund l - gas\<rparr>))"

definition StateLedger_GetRefund :: "state_ledger \<Rightarrow> u64" where
  "StateLedger_GetRefund l = refund l"

definition StateLedger_GetNonce :: "ledger_env \<Rightarrow> address \<Rightarrow> state_ledger \<Rightarrow> u64 \<times> state_ledger" where
  "StateLedger_GetNonce E = readAccount E (\<lambda>acc. (SimpleAccount_GetNonce acc, acc))"

definition StateLedger_SetNonce :: "ledger_env \<Rightarrow> address \<Rightarrow> u64 \<Rightarrow> state_ledger \<Rightarrow> state_ledger" where
  "StateLedger_SetNonce E addr nonce = onAccount E (SimpleAccount_SetNonce E nonce) addr"

definition StateLedger_Clear :: "state_ledger \<Rightarrow> state_ledger" where
  "StateLedger_Clear l = l\<lparr>accounts := Map.empty\<rparr>"

definition StateLedger_SelfDestruct :: "ledger_env \<Rightarrow> address \<Rightarrow> state_ledger \<Rightarrow> state_ledger" where
  "StateLedger_SelfDestruct E addr =
     onAccount E (\<lambda>(acc, s).
       let s1 = stateChanger_append (SuicideChange addr (selfDestructed acc) (SimpleAccount_GetBalance acc)) s
       in SimpleAccount_SetBalance E 0 (acc\<lparr>selfDestructed := True\<rparr>, s1)) addr"

definition StateLedger_HasSelfDestructed :: "ledger_env \<Rightarrow> address \<Rightarrow> state_ledger \<Rightarrow> bool \<times> state_ledger" where
  "StateLedger_HasSelfDestructed E addr l =
     (case StateLedger_GetAccount E addr l of
        (Some acc, l1) \<Rightarrow> (selfDestructed acc, l1)
      | (None, l1) \<Rightarrow> (False, l1))"

definition StateLedger_Selfdestruct6780 :: "ledger_env \<Rightarrow> address \<Rightarrow> state_ledger \<Rightarrow> state_ledger" where
  "StateLedger_Selfdestruct6780 E addr l =
     (case StateLedger_GetAccount E addr l of
        (None, l1) \<Rightarrow> l1
      | (Some acc, l1) \<Rightarrow> if created acc then StateLedger_SelfDestruct E addr l1 else l1)"

definition StateLedger_Exist :: "ledger_env \<Rightarrow> address \<Rightarrow> state_ledger \<Rightarrow> bool \<times> state_ledger" where
  "StateLedger_Exist E = readAccount E (\<lambda>acc. let (empty, acc1) = SimpleAccount_IsEmpty E acc in (\<not> empty, acc1))"

definition StateLedger_Empty :: "ledger_env \<Rightarrow> address \<Rightarrow> state_ledger \<Rightarrow> bool \<times> state_ledger" where
  "StateLedger_Empty E = readAccount E (SimpleAccount_IsEmpty E)"

definition StateLedger_AddAddressToAccessList :: "address \<Rightarrow> state_ledger \<Rightarrow> state_ledger" where
  "StateLedger_AddAddressToAccessList addr l =
     (let (added, al) = AccessList_AddAddress addr (accessList l);
          l1 = l\<lparr>accessList := al\<rparr>
      in if added then appendChange (AccessListAddAccountChange addr) l1 else l1)"

definition StateLedger_AddSlotToAccessList :: "address \<Rightarrow> hash \<Rightarrow> state_ledger \<Rightarrow> panic + state_ledger" where
  "StateLedger_AddSlotToAccessList addr slot l =
     ebind (AccessList_AddSlot addr slot (accessList l)) (\<lambda>((addrMod, slotMod), al).
     let l1 = l\<lparr>accessList := al\<rparr>;
         l2 = (if addrMod then appendChange (AccessListAddAccountChange addr) l1 else l1);
         l3 = (if slotMod then appendChange (AccessListAddSlotChange addr slot) l2 else l2)
     in Inr l3)"

definition StateLedger_PrepareAccessList ::
  "address \<Rightarrow> address option \<Rightarrow> address list \<Rightarrow> (address \<times> hash list) list \<Rightarrow> state_ledger \<Rightarrow> panic + state_ledger" where
  "StateLedger_PrepareAccessList sender dst precompiles tuples l =
     (let l1 = StateLedger_AddAddressToAccessList sender l;
          l2 = (case dst of None \<Rightarrow> l1 | Some a \<Rightarrow> StateLedger_AddAddressToAccessList a l1);
          l3 = fold StateLedger_AddAddressToAccessList precompiles l2
      in efold (\<lambda>(addr, storageKeys) l.
           efold (StateLedger_AddSlotToAccessList addr) storageKeys (StateLedger_AddAddressToAccessList addr l))
           tuples l3)"

definition StateLedger_AddressInAccessList :: "address \<Rightarrow> state_ledger \<Rightarrow> bool" where
  "StateLedger_AddressInAccessList addr l = AccessList_ContainsAddress addr (accessList l)"

definition StateLedger_SlotInAccessList :: "address \<Rightarrow> hash \<Rightarrow> state_ledger \<Rightarrow> panic + bool \<times> bool" where
  "StateLedger_SlotInAccessList addr slot l = AccessList_Contains addr slot (accessList l)"

definition StateLedger_AddPreimage :: "hash \<Rightarrow> bytes \<Rightarrow> state_ledger \<Rightarrow> state_ledger" where
  "StateLedger_AddPreimage h preimage l =
     (if preimages l h = None
      then (appendChange (AddPreimageChange h) l)\<lparr>preimages := (preimages l)(h \<mapsto> preimage)\<rparr> else l)"

definition StateLedger_AddLog :: "evm_log \<Rightarrow> state_ledger \<Rightarrow> panic + state_ledger" where
  "StateLedger_AddLog log l =
     (let log = (if log_TransactionHash log = None then log\<lparr>log_TransactionHash := thash l\<rparr> else log);
          log = log\<lparr>log_TransactionIndex := txIndex l\<rparr>
      in ebind (must NilTxHash (log_TransactionHash log)) (\<lambda>txHash.
         let l1 = appendChange (AddLogChange txHash) l;
             log = log\<lparr>log_LogIndex := logSize (evmLogs l1)\<rparr>;
             old = (case txLogs (evmLogs l1) txHash of None \<Rightarrow> [] | Some logs \<Rightarrow> logs)
         in Inr (l1\<lparr>evmLogs := \<lparr>txLogs = (txLogs (evmLogs l1))(txHash \<mapsto> old @ [log]),
                                logSize = logSize (evmLogs l1) + 1\<rparr>\<rparr>)))"

definition StateLedger_GetLogs :: "hash \<Rightarrow> u64 \<Rightarrow> state_ledger \<Rightarrow> evm_log list \<times> state_ledger" where
  "StateLedger_GetLogs txHash height l =
     (case txLogs (evmLogs l) txHash of
        None \<Rightarrow> ([], l)
      | Some logs \<Rightarrow>
          let logs = map (\<lambda>log. log\<lparr>log_BlockNumber := height\<rparr>) logs
          in (logs, l\<lparr>evmLogs := (evmLogs l)\<lparr>txLogs := (txLogs (evmLogs l))(txHash \<mapsto> logs)\<rparr>\<rparr>))"

section \<open>Undoing changes\<close>

fun revertChange :: "ledger_env \<Rightarrow> state_change \<Rightarrow> state_ledger \<Rightarrow> panic + state_ledger" where
  "revertChange E (CreateObjectChange a) l = Inr (l\<lparr>accounts := (accounts l)(a := None)\<rparr>)"
| "revertChange E (ResetObjectChange prev) l = Inr (StateLedger_setAccount prev l)"
| "revertChange E (SuicideChange a prev prevbalance) l =
     Inr (onAccount E (\<lambda>(acc, s). (SimpleAccount_setBalance E prevbalance (acc\<lparr>selfDestructed := prev\<rparr>), s)) a l)"
| "revertChange E (BalanceChange a prev) l =
     Inr (onAccount E (\<lambda>(acc, s). (SimpleAccount_setBalance E prev acc, s)) a l)"
| "revertChange E (NonceChange a prev) l =
     Inr (onAccount E (\<lambda>(acc, s). (SimpleAccount_setNonce E prev acc, s)) a l)"
| "revertChange E (StorageChange a key prevalue) l =
     Inr (onAccount E (\<lambda>(acc, s). (SimpleAccount_setState key prevalue acc, s)) a l)"
| "revertChange E (CodeChange a prevcode) l =
     Inr (onAccount E (\<lambda>(acc, s). (SimpleAccount_setCodeAndHash E prevcode acc, s)) a l)"
| "revertChange E (RefundChange prev) l = Inr (l\<lparr>refund := prev\<rparr>)"
| "revertChange E (AddLogChange txHash) l =
     (case txLogs (evmLogs l) txHash of
        None \<Rightarrow> Inl LogMissing
      | Some logs \<Rightarrow>
          if logs = [] then Inl LogMissing
          else Inr (l\<lparr>evmLogs := \<lparr>txLogs = (if length logs = 1 then (txLogs (evmLogs l))(txHash := None)
                                           else (txLogs (evmLogs l))(txHash \<mapsto> butlast logs)),
                                 logSize = logSize (evmLogs l) - 1\<rparr>\<rparr>))"
| "revertChange E (AddPreimageChange h) l = Inr (l\<lparr>preimages := (preimages l)(h := None)\<rparr>)"
| "revertChange E (TouchChange a) l = Inr l"
| "revertChange E (AccessListAddAccountChange a) l =
     Inr (l\<lparr>accessList := AccessList_DeleteAddress a (accessList l)\<rparr>)"
| "revertChange E (AccessListAddSlotChange a slot) l =
     ebind (AccessList_DeleteSlot a slot (accessList l)) (\<lambda>al. Inr (l\<lparr>accessList := al\<rparr>))"
| "revertChange E (TransientStorageChange a key prevalue) l =
     Inr (StateLedger_setTransientState a key prevalue l)"

text \<open>One round of the loop of \<open>stateChanger.revert\<close>, and the loop from the last change down.\<close>

definition revertOne :: "ledger_env \<Rightarrow> state_change \<Rightarrow> state_ledger \<Rightarrow> panic + state_ledger" where
  "revertOne E change l =
     ebind (revertChange E change l) (\<lambda>l1. Inr (l1\<lparr>changer := undirty change (changer l1)\<rparr>))"

definition stateChanger_revert :: "ledger_env \<Rightarrow> nat \<Rightarrow> state_ledger \<Rightarrow> panic + state_ledger" where
  "stateChanger_revert E snapshot l =
     ebind (efold (revertOne E) (rev (drop snapshot (changes (changer l)))) l) (\<lambda>l1.
     Inr (l1\<lparr>changer := (changer l1)\<lparr>changes := take snapshot (changes (changer l1))\<rparr>\<rparr>))"

definition StateLedger_Snapshot :: "state_ledger \<Rightarrow> int \<times> state_ledger" where
  "StateLedger_Snapshot l =
     (nextRevisionId l,
      l\<lparr>nextRevisionId := nextRevisionId l + 1,
        validRevisions := validRevisions l @
          [\<lparr>rev_id = nextRevisionId l, changerIndex = stateChanger_length (changer l)\<rparr>]\<rparr>)"

text \<open>\<open>sort.Search\<close> of the standard library: binary search for the first index in \<open>[i, j)\<close> that satisfies \<open>f\<close>.\<close>

function sortSearch :: "(nat \<Rightarrow> bool) \<Rightarrow> nat \<Rightarrow> nat \<Rightarrow> nat" where
  "sortSearch f i j =
     (if i < j then
        let h = (i + j) div 2 in if \<not> f h then sortSearch f (h + 1) j else sortSearch f i h
      else i)"
  by pat_completeness auto
termination by (relation "measure (\<lambda>(f, i, j). j - i)") auto

declare sortSearch.simps [simp del]

definition StateLedger_RevertToSnapshot :: "ledger_env \<Rightarrow> int \<Rightarrow> state_ledger \<Rightarrow> panic + state_ledger" where
  "StateLedger_RevertToSnapshot E revid l =
     (let idx = sortSearch (\<lambda>i. revid \<le> rev_id (validRevisions l ! i)) 0 (length (validRevisions l)) in
      if idx = length (validRevisions l) \<or> rev_id (validRevisions l ! idx) \<noteq> revid
      then Inl (RevisionNotFound revid)
      else
        let snap = changerIndex (validRevisions l ! idx) in
        ebind (stateChanger_revert E snap l) (\<lambda>l1.
        Inr (l1\<lparr>validRevisions := take idx (validRevisions l1)\<rparr>)))"

definition StateLedger_ClearChangerAndRefund :: "state_ledger \<Rightarrow> state_ledger" where
  "StateLedger_ClearChangerAndRefund l =
     l\<lparr>changer := stateChanger_reset (changer l), refund := 0, validRevisions := [], nextRevisionId := 0\<rparr>"

definition StateLedger_Finalise :: "state_ledger \<Rightarrow> state_ledger" where
  "StateLedger_Finalise l =
     StateLedger_ClearChangerAndRefund
       (l\<lparr>accounts := (\<lambda>a. map_option (\<lambda>acc. (SimpleAccount_Finalise acc)\<lparr>created := False\<rparr>) (accounts l a))\<rparr>)"

definition StateLedger_SetTxContext :: "hash option \<Rightarrow> u64 \<Rightarrow> state_ledger \<Rightarrow> state_ledger" where
  "StateLedger_SetTxContext h ti l = l\<lparr>thash := h, txIndex := ti\<rparr>"

definition newStateLedger :: "u64 \<Rightarrow> state_ledger" where
  "newStateLedger height = \<lparr>accounts = Map.empty, blockHeight = height, thash = None, txIndex = 0, validRevisions = [],
     nextRevisionId = 0, changer = newChanger, accessList = NewAccessList, preimages = Map.empty, refund = 0,
     evmLogs = newEvmLogs, transientStorage = Map.empty\<rparr>"

section \<open>The interface to the EVM\<close>

definition EvmStateDBAdaptor_GetState :: "ledger_env \<Rightarrow> (bytes \<Rightarrow> hash) \<Rightarrow> address \<Rightarrow> bytes \<Rightarrow> state_ledger \<Rightarrow> hash \<times> state_ledger" where
  "EvmStateDBAdaptor_GetState E bytesToHash addr key l =
     (let ((ok, ret), l1) = StateLedger_GetState E addr key l
      in (if \<not> ok then 0 else bytesToHash (case ret of None \<Rightarrow> [] | Some v \<Rightarrow> v), l1))"

definition EvmStateDBAdaptor_GetTransientState :: "address \<Rightarrow> hash \<Rightarrow> state_ledger \<Rightarrow> hash" where
  "EvmStateDBAdaptor_GetTransientState addr key l = transientStorage_Get addr key (transientStorage l)"

definition EvmStateDBAdaptor_SetTransientState :: "address \<Rightarrow> hash \<Rightarrow> hash \<Rightarrow> state_ledger \<Rightarrow> state_ledger" where
  "EvmStateDBAdaptor_SetTransientState addr key value l =
     (let prev = EvmStateDBAdaptor_GetTransientState addr key l in
      if prev = value then l
      else StateLedger_setTransientState addr key value (appendChange (TransientStorageChange addr key prev) l))"

definition warmUp :: "address \<Rightarrow> address option \<Rightarrow> address list \<Rightarrow> (address \<times> hash list) list \<Rightarrow> access_list \<Rightarrow> panic + access_list" where
  "warmUp sender dst precompiles tuples al =
     (let add = (\<lambda>addr al. snd (AccessList_AddAddress addr al));
          al1 = add sender al;
          al2 = (case dst of None \<Rightarrow> al1 | Some addr \<Rightarrow> add addr al1);
          al3 = fold add precompiles al2
      in efold (\<lambda>(addr, keys) al.
           efold (\<lambda>key al. ebind (AccessList_AddSlot addr key al) (\<lambda>(_, al1). Inr al1)) keys (add addr al))
           tuples al3)"

definition EvmStateDBAdaptor_Prepare ::
  "bool \<Rightarrow> address \<Rightarrow> address option \<Rightarrow> address list \<Rightarrow> (address \<times> hash list) list \<Rightarrow> state_ledger \<Rightarrow> panic + state_ledger" where
  "EvmStateDBAdaptor_Prepare isBerlin sender dst precompiles tuples l =
     ebind (if isBerlin then warmUp sender dst precompiles tuples NewAccessList else Inr NewAccessList) (\<lambda>al.
     Inr (l\<lparr>accessList := al, transientStorage := newTransientStorage\<rparr>))"

end
