(* ===== verification/Ledger_Refinement.thy ===== *)
theory Ledger_Refinement
  imports State_Ledger
begin

text \<open>
  What the journal of the ledger promises: seen from outside, the ledger is a plain state with a stack
  of saved states. Every operation acts on the plain state only, and going back to a snapshot puts the
  saved state back. The caches, the three layers of account data and the journal entries implement this.
\<close>

section \<open>The committed state\<close>

definition base_account :: "ledger_env \<Rightarrow> address \<Rightarrow> inner_account option" where
  "base_account E a = (case snapAccount E a of Some x \<Rightarrow> x | None \<Rightarrow> trieAccount E a)"

definition base_code :: "ledger_env \<Rightarrow> address \<Rightarrow> bytes option" where
  "base_code E a =
     (case base_account E a of None \<Rightarrow> None
      | Some ia \<Rightarrow> (case ia_CodeHash ia of None \<Rightarrow> None | Some h \<Rightarrow> if h = [] then None else backendCode E a h))"

definition base_storage :: "ledger_env \<Rightarrow> address \<Rightarrow> bytes \<Rightarrow> bytes option" where
  "base_storage E a k = (case snapStorage E a k of Some v \<Rightarrow> v | None \<Rightarrow> trieStorage E a (base_account E a) k)"

text \<open>
  What is relied on of the libraries: a copy equals the original, a new record is zero and has no code
  hash, and no code is stored under the hash of the empty string.
\<close>

definition env_ok :: "ledger_env \<Rightarrow> bool" where
  "env_ok E \<longleftrightarrow> (\<forall>ia. copyOrNew E (Some ia) = ia) \<and>
     ia_Nonce (copyOrNew E None) = 0 \<and> ia_Balance (copyOrNew E None) = 0 \<and> ia_CodeHash (copyOrNew E None) = None \<and>
     (\<forall>a. backendCode E a (keccak E []) = None)"

section \<open>The plain state\<close>

record acct_view =
  av_balance :: int
  av_nonce :: u64
  av_code :: "bytes option"
  av_state :: "bytes \<Rightarrow> bytes option"
  av_committed :: "bytes \<Rightarrow> bytes option"
  av_destructed :: bool
  av_created :: bool
  av_known :: bool

record view =
  v_acct :: "address \<Rightarrow> acct_view"
  v_refund :: u64
  v_logs :: evm_logs
  v_preimages :: "hash \<rightharpoonup> bytes"
  v_access :: access_list
  v_transient :: "address \<Rightarrow> hash \<Rightarrow> hash"

definition layered :: "(bytes \<rightharpoonup> bytes option) \<Rightarrow> (bytes \<Rightarrow> bytes option) \<Rightarrow> bytes \<Rightarrow> bytes option" where
  "layered m f k = (case m k of Some v \<Rightarrow> v | None \<Rightarrow> f k)"

definition orElse :: "'a option \<Rightarrow> 'a option \<Rightarrow> 'a option" where
  "orElse x y = (case x of Some c \<Rightarrow> Some c | None \<Rightarrow> y)"

lemma orElse_simps [simp]: "orElse None y = y" "orElse (Some c) y = Some c"
  by (simp_all add: orElse_def)

definition base_view :: "ledger_env \<Rightarrow> address \<Rightarrow> acct_view" where
  "base_view E a =
     \<lparr>av_balance = (case base_account E a of None \<Rightarrow> 0 | Some ia \<Rightarrow> ia_Balance ia),
      av_nonce = (case base_account E a of None \<Rightarrow> 0 | Some ia \<Rightarrow> ia_Nonce ia),
      av_code = base_code E a, av_state = base_storage E a, av_committed = base_storage E a,
      av_destructed = False, av_created = False, av_known = (base_account E a \<noteq> None)\<rparr>"

definition account_view :: "ledger_env \<Rightarrow> simple_account \<Rightarrow> acct_view" where
  "account_view E acc =
     \<lparr>av_balance = SimpleAccount_GetBalance acc, av_nonce = SimpleAccount_GetNonce acc,
      av_code = orElse (dirtyCode acc) (originCode acc),
      av_state = layered (dirtyState acc) (layered (pendingState acc) (base_storage E (Addr acc))),
      av_committed = layered (pendingState acc) (base_storage E (Addr acc)),
      av_destructed = selfDestructed acc, av_created = created acc, av_known = True\<rparr>"

definition ledger_view :: "ledger_env \<Rightarrow> state_ledger \<Rightarrow> view" where
  "ledger_view E l =
     \<lparr>v_acct = (\<lambda>a. case accounts l a of None \<Rightarrow> base_view E a | Some acc \<Rightarrow> account_view E acc),
      v_refund = refund l, v_logs = evmLogs l, v_preimages = preimages l, v_access = accessList l,
      v_transient = (\<lambda>a k. transientStorage_Get a k (transientStorage l))\<rparr>"

section \<open>Cached accounts\<close>

lemma getters [simp]:
  "SimpleAccount_CodeHash (acc\<lparr>originState := m\<rparr>) = SimpleAccount_CodeHash acc"
  "SimpleAccount_CodeHash (acc\<lparr>dirtyState := m\<rparr>) = SimpleAccount_CodeHash acc"
  "SimpleAccount_CodeHash (acc\<lparr>pendingState := m\<rparr>) = SimpleAccount_CodeHash acc"
  "SimpleAccount_CodeHash (acc\<lparr>selfDestructed := b\<rparr>) = SimpleAccount_CodeHash acc"
  "SimpleAccount_CodeHash (acc\<lparr>created := b\<rparr>) = SimpleAccount_CodeHash acc"
  "SimpleAccount_CodeHash (acc\<lparr>dirtyCode := c\<rparr>) = SimpleAccount_CodeHash acc"
  "SimpleAccount_CodeHash (acc\<lparr>dirtyAccount := Some d\<rparr>) = ia_CodeHash d"
  "SimpleAccount_GetBalance (acc\<lparr>originState := m\<rparr>) = SimpleAccount_GetBalance acc"
  "SimpleAccount_GetBalance (acc\<lparr>dirtyState := m\<rparr>) = SimpleAccount_GetBalance acc"
  "SimpleAccount_GetBalance (acc\<lparr>pendingState := m\<rparr>) = SimpleAccount_GetBalance acc"
  "SimpleAccount_GetBalance (acc\<lparr>selfDestructed := b\<rparr>) = SimpleAccount_GetBalance acc"
  "SimpleAccount_GetBalance (acc\<lparr>created := b\<rparr>) = SimpleAccount_GetBalance acc"
  "SimpleAccount_GetBalance (acc\<lparr>dirtyCode := c\<rparr>) = SimpleAccount_GetBalance acc"
  "SimpleAccount_GetBalance (acc\<lparr>dirtyAccount := Some d\<rparr>) = ia_Balance d"
  "SimpleAccount_GetNonce (acc\<lparr>originState := m\<rparr>) = SimpleAccount_GetNonce acc"
  "SimpleAccount_GetNonce (acc\<lparr>dirtyState := m\<rparr>) = SimpleAccount_GetNonce acc"
  "SimpleAccount_GetNonce (acc\<lparr>pendingState := m\<rparr>) = SimpleAccount_GetNonce acc"
  "SimpleAccount_GetNonce (acc\<lparr>selfDestructed := b\<rparr>) = SimpleAccount_GetNonce acc"
  "SimpleAccount_GetNonce (acc\<lparr>created := b\<rparr>) = SimpleAccount_GetNonce acc"
  "SimpleAccount_GetNonce (acc\<lparr>dirtyCode := c\<rparr>) = SimpleAccount_GetNonce acc"
  "SimpleAccount_GetNonce (acc\<lparr>dirtyAccount := Some d\<rparr>) = ia_Nonce d"
  by (simp_all add: SimpleAccount_CodeHash_def SimpleAccount_GetBalance_def SimpleAccount_GetNonce_def split: option.split)

definition acc_inv :: "ledger_env \<Rightarrow> address \<Rightarrow> simple_account \<Rightarrow> bool" where
  "acc_inv E a acc \<longleftrightarrow> Addr acc = a \<and> originAccount acc = base_account E a \<and> originCode acc = base_code E a \<and>
     (\<forall>k v. originState acc k = Some v \<longrightarrow> v = base_storage E a k) \<and>
     (dirtyCode acc = None \<longrightarrow> originCode acc = None \<longrightarrow>
        (case SimpleAccount_CodeHash acc of None \<Rightarrow> True | Some h \<Rightarrow> h = [] \<or> backendCode E a h = None))"

lemma SimpleAccount_Code_view:
  assumes "acc_inv E a acc"
  shows "SimpleAccount_Code E acc = (av_code (account_view E acc), acc)"
  using assms
  by (auto simp: SimpleAccount_Code_def acc_inv_def account_view_def split: option.splits)

lemma loadState_base: "acc_inv E a acc \<Longrightarrow> loadState E k acc = base_storage E a k"
  by (auto simp: loadState_def acc_inv_def base_storage_def split: option.splits)

lemma SimpleAccount_GetState_view:
  assumes "acc_inv E a acc"
  obtains acc' where "SimpleAccount_GetState E k acc =
      ((av_state (account_view E acc) k \<noteq> None, av_state (account_view E acc) k), acc')"
    "acc_inv E a acc'" "account_view E acc' = account_view E acc"
proof -
  let ?v = "base_storage E a k"
  define acc' where "acc' = (if dirtyState acc k = None \<and> pendingState acc k = None \<and> originState acc k = None
    then acc\<lparr>originState := (originState acc)(k \<mapsto> ?v)\<rparr> else acc)"
  have "acc_inv E a acc'" using assms by (auto simp: acc'_def acc_inv_def)
  moreover have "account_view E acc' = account_view E acc"
    by (simp add: acc'_def account_view_def)
  moreover have "SimpleAccount_GetState E k acc =
      ((av_state (account_view E acc) k \<noteq> None, av_state (account_view E acc) k), acc')"
    using assms loadState_base [OF assms, of k]
    by (auto simp: SimpleAccount_GetState_def acc'_def account_view_def layered_def acc_inv_def Let_def split: option.splits)
  ultimately show thesis using that by blast
qed

lemma SimpleAccount_GetCommittedState_view:
  assumes "acc_inv E a acc"
  obtains acc' where "SimpleAccount_GetCommittedState E k acc = (orZeroHash (av_committed (account_view E acc) k), acc')"
    "acc_inv E a acc'" "account_view E acc' = account_view E acc"
proof -
  let ?v = "base_storage E a k"
  define acc' where "acc' = (if pendingState acc k = None \<and> originState acc k = None
    then acc\<lparr>originState := (originState acc)(k \<mapsto> ?v)\<rparr> else acc)"
  have "acc_inv E a acc'" using assms by (auto simp: acc'_def acc_inv_def)
  moreover have "account_view E acc' = account_view E acc"
    by (simp add: acc'_def account_view_def)
  moreover have "SimpleAccount_GetCommittedState E k acc = (orZeroHash (av_committed (account_view E acc) k), acc')"
    using assms loadState_base [OF assms, of k]
    by (auto simp: SimpleAccount_GetCommittedState_def acc'_def account_view_def layered_def acc_inv_def Let_def split: option.splits)
  ultimately show thesis using that by blast
qed

definition av_empty :: "acct_view \<Rightarrow> bool" where
  "av_empty v \<longleftrightarrow> av_balance v = 0 \<and> av_nonce v = 0 \<and> av_code v = None \<and> \<not> av_destructed v"

lemma SimpleAccount_IsEmpty_view:
  "acc_inv E a acc \<Longrightarrow> SimpleAccount_IsEmpty E acc = (av_empty (account_view E acc), acc)"
  by (simp add: SimpleAccount_IsEmpty_def SimpleAccount_Code_view Let_def)
    (auto simp: av_empty_def account_view_def)

text \<open>The internal setters, which the operations and the undoing share.\<close>

lemma makeDirty_view:
  assumes "env_ok E" and "acc_inv E a acc"
  shows "\<exists>d. dirtyAccount (makeDirty E acc) = Some d \<and> ia_Balance d = SimpleAccount_GetBalance acc \<and>
    ia_Nonce d = SimpleAccount_GetNonce acc \<and> ia_CodeHash d = SimpleAccount_CodeHash acc \<and>
    makeDirty E acc = acc\<lparr>dirtyAccount := Some d\<rparr>"
  using assms
  by (cases "dirtyAccount acc"; cases "originAccount acc")
    (auto simp: makeDirty_def env_ok_def SimpleAccount_GetBalance_def SimpleAccount_GetNonce_def SimpleAccount_CodeHash_def)

lemma setters:
  assumes E: "env_ok E" and inv: "acc_inv E a acc"
  shows "acc_inv E a (SimpleAccount_setBalance E b acc)"
    "account_view E (SimpleAccount_setBalance E b acc) = (account_view E acc)\<lparr>av_balance := b\<rparr>"
    "acc_inv E a (SimpleAccount_setNonce E n acc)"
    "account_view E (SimpleAccount_setNonce E n acc) = (account_view E acc)\<lparr>av_nonce := n\<rparr>"
    "acc_inv E a (SimpleAccount_setState k v acc)"
    "account_view E (SimpleAccount_setState k v acc) =
       (account_view E acc)\<lparr>av_state := (av_state (account_view E acc))(k := v)\<rparr>"
    "acc_inv E a (SimpleAccount_setCodeAndHash E c acc)"
    "account_view E (SimpleAccount_setCodeAndHash E c acc) =
       (account_view E acc)\<lparr>av_code := orElse c (base_code E a)\<rparr>"
    "acc_inv E a (acc\<lparr>selfDestructed := s\<rparr>)"
    "account_view E (acc\<lparr>selfDestructed := s\<rparr>) = (account_view E acc)\<lparr>av_destructed := s\<rparr>"
    "acc_inv E a (makeDirty E acc)" "account_view E (makeDirty E acc) = account_view E acc"
proof -
  from makeDirty_view [OF E inv] obtain d where d: "dirtyAccount (makeDirty E acc) = Some d"
    "ia_Balance d = SimpleAccount_GetBalance acc" "ia_Nonce d = SimpleAccount_GetNonce acc"
    "ia_CodeHash d = SimpleAccount_CodeHash acc" "makeDirty E acc = acc\<lparr>dirtyAccount := Some d\<rparr>" by blast
  note defs = SimpleAccount_setBalance_def SimpleAccount_setNonce_def SimpleAccount_setState_def
    SimpleAccount_setCodeAndHash_def updDirty_def d(5) acc_inv_def account_view_def
  show "acc_inv E a (SimpleAccount_setBalance E b acc)" "acc_inv E a (SimpleAccount_setNonce E n acc)"
    "acc_inv E a (SimpleAccount_setState k v acc)" "acc_inv E a (acc\<lparr>selfDestructed := s\<rparr>)"
    "acc_inv E a (makeDirty E acc)"
    using inv d(4) by (auto simp: defs)
  show "acc_inv E a (SimpleAccount_setCodeAndHash E c acc)"
    using inv E by (auto simp: defs codeKeccak_def env_ok_def)
  show "account_view E (SimpleAccount_setBalance E b acc) = (account_view E acc)\<lparr>av_balance := b\<rparr>"
    "account_view E (SimpleAccount_setNonce E n acc) = (account_view E acc)\<lparr>av_nonce := n\<rparr>"
    "account_view E (makeDirty E acc) = account_view E acc"
    using d(2,3) by (simp_all add: defs)
  show "account_view E (SimpleAccount_setState k v acc) =
       (account_view E acc)\<lparr>av_state := (av_state (account_view E acc))(k := v)\<rparr>"
    by (auto simp: defs layered_def fun_eq_iff)
  show "account_view E (SimpleAccount_setCodeAndHash E c acc) =
       (account_view E acc)\<lparr>av_code := orElse c (base_code E a)\<rparr>"
    using d(2,3) inv by (simp add: defs)
  show "account_view E (acc\<lparr>selfDestructed := s\<rparr>) = (account_view E acc)\<lparr>av_destructed := s\<rparr>" by (simp add: defs)
qed

section \<open>Touching an account\<close>

definition accs_inv :: "ledger_env \<Rightarrow> state_ledger \<Rightarrow> bool" where
  "accs_inv E l \<longleftrightarrow> (\<forall>a acc. accounts l a = Some acc \<longrightarrow> acc_inv E a acc)"

definition v_upd :: "address \<Rightarrow> (acct_view \<Rightarrow> acct_view) \<Rightarrow> view \<Rightarrow> view" where
  "v_upd a f v = v\<lparr>v_acct := (v_acct v)(a := f (v_acct v a))\<rparr>"

definition v_touch :: "address \<Rightarrow> view \<Rightarrow> view" where
  "v_touch a v =
     (if av_known (v_acct v a) then v else v_upd a (\<lambda>av. av\<lparr>av_known := True, av_created := True\<rparr>) v)"

lemma v_upd_fields [simp]:
  "v_acct (v_upd a f v) = (v_acct v)(a := f (v_acct v a))" "v_refund (v_upd a f v) = v_refund v"
  "v_logs (v_upd a f v) = v_logs v" "v_preimages (v_upd a f v) = v_preimages v"
  "v_access (v_upd a f v) = v_access v" "v_transient (v_upd a f v) = v_transient v"
  by (simp_all add: v_upd_def)

lemma v_upd_id: "f (v_acct v a) = v_acct v a \<Longrightarrow> v_upd a f v = v"
  by (simp add: v_upd_def)

lemma v_upd_upd [simp]: "v_upd a g (v_upd a f v) = v_upd a (\<lambda>av. g (f av)) v"
  by (simp add: v_upd_def)

lemma v_touch_fields [simp]:
  "v_refund (v_touch a v) = v_refund v" "v_logs (v_touch a v) = v_logs v"
  "v_preimages (v_touch a v) = v_preimages v" "v_access (v_touch a v) = v_access v"
  "v_transient (v_touch a v) = v_transient v" "av_known (v_acct (v_touch a v) a)"
  by (simp_all add: v_touch_def)

lemma v_touch_known: "av_known (v_acct v a) \<Longrightarrow> v_touch a v = v"
  by (simp add: v_touch_def)

lemma v_touch_kept [simp]:
  "av_balance (v_acct (v_touch a v) b) = av_balance (v_acct v b)"
  "av_nonce (v_acct (v_touch a v) b) = av_nonce (v_acct v b)"
  "av_code (v_acct (v_touch a v) b) = av_code (v_acct v b)"
  "av_state (v_acct (v_touch a v) b) = av_state (v_acct v b)"
  "av_committed (v_acct (v_touch a v) b) = av_committed (v_acct v b)"
  "av_destructed (v_acct (v_touch a v) b) = av_destructed (v_acct v b)"
  by (simp_all add: v_touch_def)

lemma ledger_view_fields [simp]:
  "v_refund (ledger_view E l) = refund l" "v_logs (ledger_view E l) = evmLogs l"
  "v_preimages (ledger_view E l) = preimages l" "v_access (ledger_view E l) = accessList l"
  "v_transient (ledger_view E l) = (\<lambda>a k. transientStorage_Get a k (transientStorage l))"
  "v_acct (ledger_view E l) a = (case accounts l a of None \<Rightarrow> base_view E a | Some acc \<Rightarrow> account_view E acc)"
  by (simp_all add: ledger_view_def)

lemma view_eqI:
  assumes "\<And>a. v_acct v a = v_acct v' a" "v_refund v = v_refund v'" "v_logs v = v_logs v'"
    "v_preimages v = v_preimages v'" "v_access v = v_access v'" "v_transient v = v_transient v'"
  shows "(v :: view) = v'"
  using assms by (intro view.equality) auto

text \<open>The other parts of the ledger.\<close>

definition same_rest :: "state_ledger \<Rightarrow> state_ledger \<Rightarrow> bool" where
  "same_rest l l' \<longleftrightarrow> refund l' = refund l \<and> evmLogs l' = evmLogs l \<and> preimages l' = preimages l \<and>
     accessList l' = accessList l \<and> transientStorage l' = transientStorage l \<and>
     validRevisions l' = validRevisions l \<and> nextRevisionId l' = nextRevisionId l \<and>
     thash l' = thash l \<and> txIndex l' = txIndex l \<and> blockHeight l' = blockHeight l"

lemma ledger_puts [simp]:
  "accounts (putAccount a acc l) = (accounts l)(a \<mapsto> acc)" "changer (putAccount a acc l) = changer l"
  "accounts (appendChange c l) = accounts l" "changes (changer (appendChange c l)) = changes (changer l) @ [c]"
  "same_rest l (putAccount a acc l)" "same_rest l (appendChange c l)"
  by (simp_all add: putAccount_def appendChange_def same_rest_def stateChanger_append_def Let_def split: option.split)

lemma stateChanger_append_changes [simp]: "changes (stateChanger_append c s) = changes s @ [c]"
  by (simp add: stateChanger_append_def Let_def split: option.split)

lemma same_rest_refl [simp]: "same_rest l l" by (simp add: same_rest_def)

lemma same_rest_changer [simp]: "same_rest l (l'\<lparr>changer := s\<rparr>) = same_rest l l'"
  by (simp add: same_rest_def)

lemma same_rest_putAccount [simp]: "same_rest l (putAccount a acc l') = same_rest l l'"
  by (simp add: same_rest_def putAccount_def)

lemma same_rest_appendChange [simp]: "same_rest l (appendChange c l') = same_rest l l'"
  by (simp add: same_rest_def appendChange_def)

lemma ledger_view_put:
  assumes "same_rest l l'" and "\<And>b. b \<noteq> a \<Longrightarrow> accounts l' b = accounts l b" and "accounts l' a = Some acc"
    and "account_view E acc = f (v_acct (ledger_view E l) a)"
  shows "ledger_view E l' = v_upd a f (ledger_view E l)"
  using assms by (intro view_eqI) (auto simp: same_rest_def)

lemma loadAccount_view:
  assumes "base_account E a = Some ia"
  shows "acc_inv E a (loadAccount E a ia)" "account_view E (loadAccount E a ia) = base_view E a"
  using assms
  by (auto simp: acc_inv_def loadAccount_def NewAccount_def base_code_def account_view_def base_view_def Let_def
      layered_def orElse_def SimpleAccount_GetBalance_def SimpleAccount_GetNonce_def SimpleAccount_CodeHash_def
      split: option.splits if_splits)

lemma NewAccount_view:
  assumes "base_account E a = None"
  shows "acc_inv E a ((NewAccount a)\<lparr>created := c\<rparr>)"
    "account_view E ((NewAccount a)\<lparr>created := c\<rparr>) = (base_view E a)\<lparr>av_known := True, av_created := c\<rparr>"
  using assms
  by (auto simp: acc_inv_def NewAccount_def base_code_def account_view_def base_view_def layered_def
      SimpleAccount_GetBalance_def SimpleAccount_GetNonce_def SimpleAccount_CodeHash_def)

text \<open>Looking an account up changes nothing that can be seen.\<close>

lemma StateLedger_GetAccount_cases:
  assumes "StateLedger_GetAccount E a l = (r, l')" and inv: "accs_inv E l"
  shows "ledger_view E l' = ledger_view E l" "accs_inv E l'" "same_rest l l'" "changer l' = changer l"
    "accounts l' a = r" "r = None \<longleftrightarrow> \<not> av_known (v_acct (ledger_view E l) a)"
    "r = None \<Longrightarrow> l' = l \<and> base_account E a = None"
proof -
  have *: "(accounts l a = r \<and> l' = l \<and> (r = None \<longrightarrow> base_account E a = None)) \<or>
    (\<exists>ia. accounts l a = None \<and> base_account E a = Some ia \<and> r = Some (loadAccount E a ia) \<and>
       l' = putAccount a (loadAccount E a ia) l)"
    using assms(1) by (auto simp: StateLedger_GetAccount_def base_account_def Let_def split: option.splits)
  show "ledger_view E l' = ledger_view E l"
    using * by (auto intro!: view_eqI simp: loadAccount_view) (simp_all add: putAccount_def)
  show "accs_inv E l'" using * inv by (auto simp: accs_inv_def loadAccount_view split: if_splits)
  show "same_rest l l'" "changer l' = changer l" "accounts l' a = r" using * by auto
  show "r = None \<longleftrightarrow> \<not> av_known (v_acct (ledger_view E l) a)"
    using * by (auto simp: account_view_def base_view_def split: option.splits)
  show "r = None \<Longrightarrow> l' = l \<and> base_account E a = None" using * by auto
qed

lemma StateLedger_GetOrCreateAccount_spec:
  assumes "StateLedger_GetOrCreateAccount E a l = (acc, l')" and inv: "accs_inv E l"
  shows "ledger_view E l' = v_touch a (ledger_view E l)" "accs_inv E l'" "same_rest l l'"
    "accounts l' a = Some acc"
    "changes (changer l') = changes (changer l) @
       (if av_known (v_acct (ledger_view E l) a) then [] else [CreateObjectChange a])"
proof -
  obtain r l1 where g: "StateLedger_GetAccount E a l = (r, l1)" by fastforce
  note G = StateLedger_GetAccount_cases [OF g inv]
  have "ledger_view E l' = v_touch a (ledger_view E l) \<and> accs_inv E l' \<and> same_rest l l' \<and> accounts l' a = Some acc \<and>
    changes (changer l') = changes (changer l) @
       (if av_known (v_acct (ledger_view E l) a) then [] else [CreateObjectChange a])"
  proof (cases r)
    case None
    then have l1: "l1 = l" and base: "base_account E a = None" using G(7) by auto
    have acc: "acc = (NewAccount a)\<lparr>created := True\<rparr>"
      and l': "l' = putAccount a acc (appendChange (CreateObjectChange a) l)"
      using assms(1) by (auto simp: StateLedger_GetOrCreateAccount_def g None l1 Let_def)
    have unknown: "\<not> av_known (v_acct (ledger_view E l) a)" "accounts l a = None" using G(5,6) None l1 by auto
    then have "ledger_view E l' = v_upd a (\<lambda>av. av\<lparr>av_known := True, av_created := True\<rparr>) (ledger_view E l)"
      by (intro ledger_view_put) (auto simp: l' acc NewAccount_view(2) [OF base])
    then show ?thesis using inv unknown base by (auto simp: l' acc v_touch_def accs_inv_def NewAccount_view(1))
  next
    case (Some x)
    then have "acc = x" "l' = l1" using assms(1) by (simp_all add: StateLedger_GetOrCreateAccount_def g)
    then show ?thesis using G Some by (simp add: v_touch_def)
  qed
  then show "ledger_view E l' = v_touch a (ledger_view E l)" "accs_inv E l'" "same_rest l l'"
    "accounts l' a = Some acc"
    "changes (changer l') = changes (changer l) @
       (if av_known (v_acct (ledger_view E l) a) then [] else [CreateObjectChange a])" by auto
qed

text \<open>The step every operation on an account shares.\<close>

lemma onAccount_spec:
  assumes inv: "accs_inv E l"
    and f: "\<And>acc s. acc_inv E a acc \<Longrightarrow> account_view E acc = v_acct (v_touch a (ledger_view E l)) a \<Longrightarrow>
      acc_inv E a (fst (f (acc, s))) \<and> account_view E (fst (f (acc, s))) = g (account_view E acc) \<and>
      changes (snd (f (acc, s))) = changes s @ cs"
  shows "accs_inv E (onAccount E f a l)" "same_rest l (onAccount E f a l)"
    "ledger_view E (onAccount E f a l) = v_upd a g (v_touch a (ledger_view E l))"
    "changes (changer (onAccount E f a l)) = changes (changer l) @
       (if av_known (v_acct (ledger_view E l) a) then [] else [CreateObjectChange a]) @ cs"
proof -
  obtain acc l1 where g: "StateLedger_GetOrCreateAccount E a l = (acc, l1)" by fastforce
  note G = StateLedger_GetOrCreateAccount_spec [OF g inv]
  obtain acc1 s1 where f1: "f (acc, changer l1) = (acc1, s1)" by fastforce
  have res: "onAccount E f a l = putAccount a acc1 (l1\<lparr>changer := s1\<rparr>)"
    by (simp add: onAccount_def g f1)
  have acc: "acc_inv E a acc" using G(2,4) by (simp add: accs_inv_def)
  have av: "account_view E acc = v_acct (v_touch a (ledger_view E l)) a" using G(4) by (simp flip: G(1))
  note F = f [OF acc av, of "changer l1", unfolded f1 fst_conv snd_conv]
  show "accs_inv E (onAccount E f a l)" using G(2) F by (auto simp: res accs_inv_def)
  show "same_rest l (onAccount E f a l)" using G(3) by (simp add: res)
  show "changes (changer (onAccount E f a l)) = changes (changer l) @
       (if av_known (v_acct (ledger_view E l) a) then [] else [CreateObjectChange a]) @ cs"
    using F G(5) by (simp add: res)
  have "ledger_view E (onAccount E f a l) = v_upd a g (ledger_view E l1)"
    by (rule ledger_view_put [where acc = acc1]) (use F G(4) in \<open>simp_all add: res\<close>)
  then show "ledger_view E (onAccount E f a l) = v_upd a g (v_touch a (ledger_view E l))" using G(1) by simp
qed

lemma readAccount_spec:
  assumes inv: "accs_inv E l"
    and f: "\<And>acc. acc_inv E a acc \<Longrightarrow> account_view E acc = v_acct (v_touch a (ledger_view E l)) a \<Longrightarrow>
      acc_inv E a (snd (f acc)) \<and> account_view E (snd (f acc)) = account_view E acc \<and> fst (f acc) = r"
    and res: "readAccount E f a l = (x, l')"
  shows "x = r" "accs_inv E l'" "same_rest l l'" "ledger_view E l' = v_touch a (ledger_view E l)"
    "changes (changer l') = changes (changer l) @
       (if av_known (v_acct (ledger_view E l) a) then [] else [CreateObjectChange a])"
proof -
  obtain acc l1 where g: "StateLedger_GetOrCreateAccount E a l = (acc, l1)" by fastforce
  note G = StateLedger_GetOrCreateAccount_spec [OF g inv]
  obtain y acc1 where f1: "f acc = (y, acc1)" by fastforce
  have l': "l' = putAccount a acc1 l1" and x: "x = y" using res by (simp_all add: readAccount_def g f1)
  have acc: "acc_inv E a acc" using G(2,4) by (simp add: accs_inv_def)
  have av: "account_view E acc = v_acct (v_touch a (ledger_view E l)) a" using G(4) by (simp flip: G(1))
  note F = f [OF acc av, unfolded f1 fst_conv snd_conv]
  show "x = r" using F x by simp
  show "accs_inv E l'" using G(2) F by (auto simp: l' accs_inv_def)
  show "same_rest l l'" using G(3) by (simp add: l')
  show "changes (changer l') = changes (changer l) @
       (if av_known (v_acct (ledger_view E l) a) then [] else [CreateObjectChange a])"
    using G(5) by (simp add: l')
  have "ledger_view E l' = v_upd a (\<lambda>av. av) (ledger_view E l1)"
    by (rule ledger_view_put [where acc = acc1]) (use F G(4) in \<open>simp_all add: l'\<close>)
  then show "ledger_view E l' = v_touch a (ledger_view E l)" using G(1) v_upd_id [of "\<lambda>av. av"] by simp
qed

end
