(* ===== verification/Ledger_Snapshots.thy ===== *)
theory Ledger_Snapshots
  imports Ledger_Refinement
begin

text \<open>
  The ledger refines a plain state with a stack of saved states: undoing a journal entry on the ledger
  is undoing it on the plain state, every operation appends exactly the entries that undo it, and
  going back to a snapshot therefore puts the saved state back.
\<close>

section \<open>Undoing on the plain state\<close>

fun undo :: "ledger_env \<Rightarrow> state_change \<Rightarrow> view \<Rightarrow> panic + view" where
  "undo E (CreateObjectChange a) v = Inr (v_upd a (\<lambda>_. base_view E a) v)"
| "undo E (ResetObjectChange prev) v = Inr (v_upd (Addr prev) (\<lambda>_. account_view E prev) v)"
| "undo E (SuicideChange a prev prevbalance) v =
     Inr (v_upd a (\<lambda>av. av\<lparr>av_destructed := prev, av_balance := prevbalance\<rparr>) (v_touch a v))"
| "undo E (BalanceChange a prev) v = Inr (v_upd a (\<lambda>av. av\<lparr>av_balance := prev\<rparr>) (v_touch a v))"
| "undo E (NonceChange a prev) v = Inr (v_upd a (\<lambda>av. av\<lparr>av_nonce := prev\<rparr>) (v_touch a v))"
| "undo E (StorageChange a key prev) v =
     Inr (v_upd a (\<lambda>av. av\<lparr>av_state := (av_state av)(key := prev)\<rparr>) (v_touch a v))"
| "undo E (CodeChange a prev) v =
     Inr (v_upd a (\<lambda>av. av\<lparr>av_code := orElse prev (base_code E a)\<rparr>) (v_touch a v))"
| "undo E (RefundChange prev) v = Inr (v\<lparr>v_refund := prev\<rparr>)"
| "undo E (AddLogChange h) v =
     (case txLogs (v_logs v) h of
        None \<Rightarrow> Inl LogMissing
      | Some logs \<Rightarrow>
          if logs = [] then Inl LogMissing
          else Inr (v\<lparr>v_logs := \<lparr>txLogs = (if length logs = 1 then (txLogs (v_logs v))(h := None)
                                          else (txLogs (v_logs v))(h \<mapsto> butlast logs)),
                                logSize = logSize (v_logs v) - 1\<rparr>\<rparr>))"
| "undo E (AddPreimageChange h) v = Inr (v\<lparr>v_preimages := (v_preimages v)(h := None)\<rparr>)"
| "undo E (TouchChange a) v = Inr v"
| "undo E (AccessListAddAccountChange a) v = Inr (v\<lparr>v_access := AccessList_DeleteAddress a (v_access v)\<rparr>)"
| "undo E (AccessListAddSlotChange a slot) v =
     ebind (AccessList_DeleteSlot a slot (v_access v)) (\<lambda>al. Inr (v\<lparr>v_access := al\<rparr>))"
| "undo E (TransientStorageChange a key prev) v =
     Inr (v\<lparr>v_transient := (v_transient v)(a := (v_transient v a)(key := prev))\<rparr>)"

fun no_reset :: "state_change \<Rightarrow> bool" where
  "no_reset (ResetObjectChange prev) = False"
| "no_reset _ = True"

definition same_ctl :: "state_ledger \<Rightarrow> state_ledger \<Rightarrow> bool" where
  "same_ctl l l' \<longleftrightarrow> validRevisions l' = validRevisions l \<and> nextRevisionId l' = nextRevisionId l \<and>
     thash l' = thash l \<and> txIndex l' = txIndex l"

lemma same_rest_ctl: "same_rest l l' \<Longrightarrow> same_ctl l l'"
  by (simp add: same_rest_def same_ctl_def)

lemma same_ctl_trans: "same_ctl l l' \<Longrightarrow> same_ctl l' l'' \<Longrightarrow> same_ctl l l''"
  by (simp add: same_ctl_def)

lemma transient_Set_Get:
  "transientStorage_Get b k (transientStorage_Set a key v t) =
     (if b = a \<and> k = key then v else transientStorage_Get b k t)"
  by (auto simp: transientStorage_Get_def transientStorage_Set_def Let_def split: option.split)

lemma undirty_changes [simp]: "changes (undirty c s) = changes s"
  by (simp add: undirty_def Let_def split: option.split)

definition undone :: "ledger_env \<Rightarrow> state_change \<Rightarrow> state_ledger \<Rightarrow> panic + state_ledger \<Rightarrow> bool" where
  "undone E c l r \<longleftrightarrow> (case r of
     Inl p \<Rightarrow> undo E c (ledger_view E l) = Inl p
   | Inr l' \<Rightarrow> undo E c (ledger_view E l) = Inr (ledger_view E l') \<and> accs_inv E l' \<and> same_ctl l l' \<and>
       (\<exists>more. changes (changer l') = changes (changer l) @ more))"

text \<open>The entries that put something back into an account.\<close>

lemma undone_onAccount:
  assumes inv: "accs_inv E l"
    and f: "\<And>acc. acc_inv E a acc \<Longrightarrow> acc_inv E a (f acc) \<and> account_view E (f acc) = g (account_view E acc)"
    and c: "undo E c (ledger_view E l) = Inr (v_upd a g (v_touch a (ledger_view E l)))"
  shows "undone E c l (Inr (onAccount E (\<lambda>(acc, s). (f acc, s)) a l))"
proof -
  note S = onAccount_spec [OF inv, of a "\<lambda>(acc, s). (f acc, s)" g "[]"]
  show ?thesis using S f c by (auto simp: undone_def same_rest_ctl)
qed

lemma revertChange_undone:
  assumes E: "env_ok E" and inv: "accs_inv E l" and c: "no_reset c"
  shows "undone E c l (revertChange E c l)"
proof (cases c)
  case (SuicideChange a p b)
  show ?thesis unfolding SuicideChange revertChange.simps
    by (rule undone_onAccount [OF inv, where g = "\<lambda>av. av\<lparr>av_destructed := p, av_balance := b\<rparr>"])
      (simp_all add: setters [OF E, where a = a])
next
  case (BalanceChange a p)
  show ?thesis unfolding BalanceChange revertChange.simps
    by (rule undone_onAccount [OF inv, where g = "\<lambda>av. av\<lparr>av_balance := p\<rparr>"]) (simp_all add: setters [OF E])
next
  case (NonceChange a p)
  show ?thesis unfolding NonceChange revertChange.simps
    by (rule undone_onAccount [OF inv, where g = "\<lambda>av. av\<lparr>av_nonce := p\<rparr>"]) (simp_all add: setters [OF E])
next
  case (StorageChange a k p)
  show ?thesis unfolding StorageChange revertChange.simps
    by (rule undone_onAccount [OF inv, where g = "\<lambda>av. av\<lparr>av_state := (av_state av)(k := p)\<rparr>"]) (simp_all add: setters [OF E])
next
  case (CodeChange a p)
  show ?thesis unfolding CodeChange revertChange.simps
    by (rule undone_onAccount [OF inv, where g = "\<lambda>av. av\<lparr>av_code := orElse p (base_code E a)\<rparr>"]) (simp_all add: setters [OF E])
next
  case (AddLogChange h)
  then show ?thesis using inv
    by (auto simp: undone_def ledger_view_def accs_inv_def same_ctl_def split: option.split)
next
  case (AccessListAddSlotChange a s)
  then show ?thesis using inv
    by (cases "AccessList_DeleteSlot a s (accessList l)") (auto simp: undone_def ledger_view_def accs_inv_def same_ctl_def)
next
  case (TransientStorageChange a k p)
  then show ?thesis using inv
    by (auto simp: undone_def ledger_view_def accs_inv_def same_ctl_def StateLedger_setTransientState_def
        transient_Set_Get fun_eq_iff)
qed (use inv c in \<open>auto simp: undone_def ledger_view_def accs_inv_def same_ctl_def v_upd_def\<close>)

lemma revertOne_undone:
  assumes "env_ok E" and "accs_inv E l" and "no_reset c"
  shows "undone E c l (revertOne E c l)"
  using revertChange_undone [OF assms]
  by (cases "revertChange E c l")
    (auto simp: undone_def revertOne_def ledger_view_def accs_inv_def same_ctl_def)

section \<open>What an operation may do\<close>

definition logs_ok :: "evm_logs \<Rightarrow> bool" where
  "logs_ok ls \<longleftrightarrow> (\<forall>h. txLogs ls h \<noteq> Some [])"

definition view_ok :: "view \<Rightarrow> bool" where
  "view_ok v \<longleftrightarrow> al_inv (v_access v) \<and> logs_ok (v_logs v)"

definition extends :: "ledger_env \<Rightarrow> state_ledger \<Rightarrow> state_ledger \<Rightarrow> bool" where
  "extends E l l' \<longleftrightarrow> accs_inv E l' \<and> same_ctl l l' \<and> view_ok (ledger_view E l') \<and>
     (\<exists>cs. changes (changer l') = changes (changer l) @ cs \<and> list_all no_reset cs \<and>
        efold (undo E) (rev cs) (ledger_view E l') = Inr (ledger_view E l))"

lemma extends_trans: "extends E l l' \<Longrightarrow> extends E l' l'' \<Longrightarrow> extends E l l''"
  unfolding extends_def
  by (elim conjE exE) (auto simp: efold_append intro: same_ctl_trans)

lemma undo_touch:
  assumes "v = ledger_view E l"
  shows "efold (undo E) (rev (if av_known (v_acct v a) then [] else [CreateObjectChange a])) (v_touch a v) = Inr v"
  unfolding assms by (auto simp: v_touch_def account_view_def intro!: view_eqI split: option.split)

lemma onAccount_extends:
  assumes inv: "accs_inv E l" and ok: "view_ok (ledger_view E l)"
    and f: "\<And>acc s. acc_inv E a acc \<Longrightarrow> account_view E acc = v_acct (v_touch a (ledger_view E l)) a \<Longrightarrow>
      acc_inv E a (fst (f (acc, s))) \<and> account_view E (fst (f (acc, s))) = g (account_view E acc) \<and>
      changes (snd (f (acc, s))) = changes s @ cs"
    and cs: "list_all no_reset cs"
    and undo: "efold (undo E) (rev cs) (v_upd a g (v_touch a (ledger_view E l))) = Inr (v_touch a (ledger_view E l))"
  shows "extends E l (onAccount E f a l)"
    "ledger_view E (onAccount E f a l) = v_upd a g (v_touch a (ledger_view E l))"
proof -
  show "ledger_view E (onAccount E f a l) = v_upd a g (v_touch a (ledger_view E l))"
    by (rule onAccount_spec [OF inv f])
  show "extends E l (onAccount E f a l)"
    unfolding extends_def
    using onAccount_spec [OF inv f] ok cs undo undo_touch [OF refl, of E l a]
    by (auto simp: same_rest_ctl view_ok_def efold_append)
qed

lemma readAccount_extends:
  assumes inv: "accs_inv E l" and ok: "view_ok (ledger_view E l)"
    and f: "\<And>acc. acc_inv E a acc \<Longrightarrow> account_view E acc = v_acct (v_touch a (ledger_view E l)) a \<Longrightarrow>
      acc_inv E a (snd (f acc)) \<and> account_view E (snd (f acc)) = account_view E acc \<and> fst (f acc) = r"
  obtains l' where "readAccount E f a l = (r, l')" "extends E l l'" "ledger_view E l' = v_touch a (ledger_view E l)"
proof -
  obtain x l' where res: "readAccount E f a l = (x, l')" by fastforce
  note S = readAccount_spec [OF inv f res]
  have "extends E l l'"
    unfolding extends_def using S ok undo_touch [OF refl, of E l a] by (auto simp: same_rest_ctl view_ok_def)
  then show thesis using that res S by blast
qed

section \<open>The plain state with its saved states\<close>

record plain =
  p_view :: view
  p_saved :: "(int \<times> view) list"
  p_next :: int
  p_thash :: "hash option"
  p_index :: u64

definition saved_at :: "ledger_env \<Rightarrow> state_ledger \<Rightarrow> nat \<Rightarrow> panic + view" where
  "saved_at E l n = efold (undo E) (rev (drop n (changes (changer l)))) (ledger_view E l)"

definition valid_view :: "ledger_env \<Rightarrow> state_ledger \<Rightarrow> revision \<Rightarrow> view" where
  "valid_view E l r = (case saved_at E l (changerIndex r) of Inl _ \<Rightarrow> ledger_view E l | Inr v \<Rightarrow> v)"

definition plain_of :: "ledger_env \<Rightarrow> state_ledger \<Rightarrow> plain" where
  "plain_of E l = \<lparr>p_view = ledger_view E l,
     p_saved = map (\<lambda>r. (rev_id r, valid_view E l r)) (validRevisions l),
     p_next = nextRevisionId l, p_thash = thash l, p_index = txIndex l\<rparr>"

definition ledger_inv :: "ledger_env \<Rightarrow> state_ledger \<Rightarrow> bool" where
  "ledger_inv E l \<longleftrightarrow> accs_inv E l \<and> view_ok (ledger_view E l) \<and> list_all no_reset (changes (changer l)) \<and>
     sorted_wrt (<) (map rev_id (validRevisions l)) \<and> sorted (map changerIndex (validRevisions l)) \<and>
     (\<forall>r\<in>set (validRevisions l). rev_id r < nextRevisionId l \<and> changerIndex r \<le> length (changes (changer l)) \<and>
        (\<exists>v. saved_at E l (changerIndex r) = Inr v \<and> view_ok v))"

lemma ledger_inv_base: "ledger_inv E l \<Longrightarrow> accs_inv E l \<and> view_ok (ledger_view E l)"
  by (simp add: ledger_inv_def)

lemma saved_at_extends:
  assumes "extends E l l'" and "n \<le> length (changes (changer l))"
  shows "saved_at E l' n = saved_at E l n"
  using assms by (auto simp: extends_def saved_at_def efold_append)

text \<open>An operation that extends the journal changes the plain state and leaves the saved ones.\<close>

lemma extends_plain:
  assumes "extends E l l'" and inv: "ledger_inv E l"
  shows "ledger_inv E l'" "plain_of E l' = (plain_of E l)\<lparr>p_view := ledger_view E l'\<rparr>"
proof -
  have ctl: "same_ctl l l'" and acc: "accs_inv E l'" "view_ok (ledger_view E l')" using assms(1) by (auto simp: extends_def)
  obtain cs where cs: "changes (changer l') = changes (changer l) @ cs" "list_all no_reset cs"
    using assms(1) by (auto simp: extends_def)
  have at: "saved_at E l' (changerIndex r) = saved_at E l (changerIndex r)" if "r \<in> set (validRevisions l)" for r
    using saved_at_extends [OF assms(1)] inv that by (auto simp: ledger_inv_def)
  show "ledger_inv E l'"
    using inv ctl acc cs at by (auto simp: ledger_inv_def same_ctl_def list_all_iff trans_le_add1)
  have "valid_view E l' r = valid_view E l r" if "r \<in> set (validRevisions l)" for r
    using at [OF that] inv that by (auto simp: valid_view_def ledger_inv_def)
  then show "plain_of E l' = (plain_of E l)\<lparr>p_view := ledger_view E l'\<rparr>"
    using ctl by (auto simp: plain_of_def same_ctl_def)
qed

text \<open>\<open>sort.Search\<close> finds the first index of a monotone predicate.\<close>

definition first_at :: "(nat \<Rightarrow> bool) \<Rightarrow> nat \<Rightarrow> nat \<Rightarrow> nat \<Rightarrow> bool" where
  "first_at f i j k \<longleftrightarrow> i \<le> k \<and> k \<le> j \<and> (k < j \<longrightarrow> f k) \<and> (\<forall>x. i \<le> x \<and> x < k \<longrightarrow> \<not> f x)"

lemma sortSearch_first:
  assumes "i \<le> j" and "\<And>x y. i \<le> x \<Longrightarrow> x \<le> y \<Longrightarrow> y < j \<Longrightarrow> f x \<Longrightarrow> f y"
  shows "first_at f i j (sortSearch f i j)"
  using assms
proof (induction f i j rule: sortSearch.induct)
  case (1 f i j)
  let ?h = "(i + j) div 2"
  consider "\<not> i < j" | "i < j" "f ?h" | "i < j" "\<not> f ?h" by blast
  then show ?case
  proof cases
    case 1
    then show ?thesis using "1.prems"(1) by (auto simp: sortSearch.simps [of f j j] first_at_def)
  next
    case 2
    then have h: "i \<le> ?h" "?h < j" by auto
    have mono: "f y" if "i \<le> x" "x \<le> y" "y < ?h" "f x" for x y
      using "1.prems"(2) [OF that(1,2) _ that(4)] that(3) h(2) by simp
    have "first_at f i ?h (sortSearch f i ?h)"
      by (rule "1.IH"(2) [OF 2(1) refl]) (use 2(2) h(1) mono in blast)+
    then have "first_at f i j (sortSearch f i ?h)"
      using 2(2) h(2) by (cases "sortSearch f i ?h < ?h") (auto simp: first_at_def)
    then show ?thesis using 2 by (simp add: sortSearch.simps [of f i j] Let_def)
  next
    case 3
    then have h: "i \<le> ?h" "?h < j" by auto
    have mono: "f y" if "?h + 1 \<le> x" "x \<le> y" "y < j" "f x" for x y
      using "1.prems"(2) [OF _ that(2-4)] that(1) h(1) by simp
    have "first_at f (?h + 1) j (sortSearch f (?h + 1) j)"
      by (rule "1.IH"(1) [OF 3(1) refl 3(2) _ mono]) (use h(2) in auto)
    moreover have "\<not> f x" if "i \<le> x" "x \<le> ?h" for x using "1.prems"(2) [OF that h(2)] 3(2) by blast
    ultimately have "first_at f i j (sortSearch f (?h + 1) j)"
      using h by (auto simp: first_at_def not_less_eq_eq Suc_le_eq) (meson leI)+
    then show ?thesis using 3 by (simp add: sortSearch.simps [of f i j] Let_def)
  qed
qed

section \<open>Going back to a snapshot\<close>

lemma efold_revertOne:
  assumes E: "env_ok E"
  shows "accs_inv E l \<Longrightarrow> list_all no_reset cs \<Longrightarrow> efold (undo E) cs (ledger_view E l) = Inr v \<Longrightarrow>
    \<exists>l'. efold (revertOne E) cs l = Inr l' \<and> ledger_view E l' = v \<and> accs_inv E l' \<and> same_ctl l l' \<and>
      (\<exists>more. changes (changer l') = changes (changer l) @ more)"
proof (induction cs arbitrary: l)
  case Nil
  then show ?case by (simp add: same_ctl_def)
next
  case (Cons c cs)
  then have "undone E c l (revertOne E c l)" by (intro revertOne_undone [OF E]) auto
  then obtain l1 where l1: "revertOne E c l = Inr l1" "efold (undo E) cs (ledger_view E l1) = Inr v" "accs_inv E l1"
    "same_ctl l l1" "\<exists>more. changes (changer l1) = changes (changer l) @ more"
    using Cons.prems(3) by (auto simp: undone_def split: sum.splits)
  from Cons.IH [OF l1(3) _ l1(2)] Cons.prems(2) obtain l' where
    "efold (revertOne E) cs l1 = Inr l'" "ledger_view E l' = v" "accs_inv E l'" "same_ctl l1 l'"
    "\<exists>more. changes (changer l') = changes (changer l1) @ more" by auto
  then show ?case using l1 by (auto intro: same_ctl_trans)
qed

lemma stateChanger_revert_spec:
  assumes E: "env_ok E" and inv: "accs_inv E l" "list_all no_reset (changes (changer l))"
    and n: "n \<le> length (changes (changer l))" and v: "saved_at E l n = Inr v"
  obtains l' where "stateChanger_revert E n l = Inr l'" "ledger_view E l' = v" "accs_inv E l'" "same_ctl l l'"
    "changes (changer l') = take n (changes (changer l))"
proof -
  have "list_all no_reset (rev (drop n (changes (changer l))))" using inv(2) by (auto simp: list_all_iff dest: in_set_dropD)
  from efold_revertOne [OF E inv(1) this] v obtain l1 more where l1:
    "efold (revertOne E) (rev (drop n (changes (changer l)))) l = Inr l1" "ledger_view E l1 = v" "accs_inv E l1"
    "same_ctl l l1" "changes (changer l1) = changes (changer l) @ more" by (auto simp: saved_at_def)
  let ?l' = "l1\<lparr>changer := (changer l1)\<lparr>changes := take n (changes (changer l1))\<rparr>\<rparr>"
  show thesis
    by (rule that [of ?l']) (use l1 n in \<open>auto simp: stateChanger_revert_def ledger_view_def accs_inv_def same_ctl_def\<close>)
qed

lemma revision_found:
  assumes sorted: "sorted_wrt (<) (map rev_id rs)"
    and idx: "idx = sortSearch (\<lambda>i. revid \<le> rev_id (rs ! i)) 0 (length rs)"
  shows "revid \<in> rev_id ` set rs \<Longrightarrow>
      idx < length rs \<and> rev_id (rs ! idx) = revid \<and> takeWhile (\<lambda>r. rev_id r \<noteq> revid) rs = take idx rs"
    "revid \<notin> rev_id ` set rs \<Longrightarrow> idx = length rs \<or> rev_id (rs ! idx) \<noteq> revid"
proof -
  have lt: "rev_id (rs ! x) < rev_id (rs ! y)" if "x < y" "y < length rs" for x y
    using sorted_wrt_nth_less [OF sorted, of x y] that by simp
  then have le: "rev_id (rs ! x) \<le> rev_id (rs ! y)" if "x \<le> y" "y < length rs" for x y
    using that by (cases "x = y") (auto simp: less_imp_le)
  have "first_at (\<lambda>i. revid \<le> rev_id (rs ! i)) 0 (length rs) idx"
    unfolding idx by (rule sortSearch_first) (use le in \<open>auto intro: order.trans\<close>)
  then have first: "idx \<le> length rs" "idx < length rs \<Longrightarrow> revid \<le> rev_id (rs ! idx)" "\<And>x. x < idx \<Longrightarrow> rev_id (rs ! x) < revid"
    by (auto simp: first_at_def not_le)
  show "revid \<notin> rev_id ` set rs \<Longrightarrow> idx = length rs \<or> rev_id (rs ! idx) \<noteq> revid"
    using first(1) nth_mem [of idx rs] by (cases "idx = length rs") auto
  assume "revid \<in> rev_id ` set rs"
  then obtain k where k: "k < length rs" "rev_id (rs ! k) = revid" by (auto simp: in_set_conv_nth)
  have "\<not> k < idx" using first(3) [of k] k by auto
  moreover have "\<not> idx < k" using first(2) lt [of idx k] k by auto
  ultimately have found: "idx = k" by simp
  have "takeWhile (\<lambda>r. rev_id r \<noteq> revid) rs = take idx rs"
  proof (rule takeWhile_eq_take_P_nth)
    show "rev_id (rs ! i) \<noteq> revid" if "i < idx" for i using first(3) [OF that] by simp
  qed (use k(2) found in simp)
  then show "idx < length rs \<and> rev_id (rs ! idx) = revid \<and> takeWhile (\<lambda>r. rev_id r \<noteq> revid) rs = take idx rs"
    using k found by simp
qed

text \<open>The specification of going back.\<close>

definition spec_revert :: "int \<Rightarrow> plain \<Rightarrow> panic + plain" where
  "spec_revert revid p =
     (case map_of (p_saved p) revid of
        None \<Rightarrow> Inl (RevisionNotFound revid)
      | Some v \<Rightarrow> Inr (p\<lparr>p_view := v, p_saved := takeWhile (\<lambda>(i, _). i \<noteq> revid) (p_saved p)\<rparr>))"

definition refines :: "ledger_env \<Rightarrow> panic + ('r \<times> state_ledger) \<Rightarrow> panic + ('r \<times> plain) \<Rightarrow> bool" where
  "refines E r s \<longleftrightarrow> (case r of
     Inl e \<Rightarrow> s = Inl e
   | Inr (x, l') \<Rightarrow> s = Inr (x, plain_of E l') \<and> ledger_inv E l')"

lemma saved_at_take:
  assumes "changes (changer l') = take n (changes (changer l))" and "saved_at E l n = Inr (ledger_view E l')"
    and "m \<le> n" and "n \<le> length (changes (changer l))"
  shows "saved_at E l' m = saved_at E l m"
proof -
  let ?ch = "changes (changer l)"
  have "drop m ?ch = drop m (take n ?ch) @ drop n ?ch"
    using assms(3,4) by (metis append_take_drop_id drop_append drop_eq_Nil2 drop0 length_take min.absorb4 min.absorb1 min.absorb2 diff_is_0_eq)
  then show ?thesis using assms(1,2) by (simp add: saved_at_def efold_append)
qed

lemma map_of_saved:
  assumes "distinct (map f xs)" and "x \<in> set xs"
  shows "map_of (map (\<lambda>x. (f x, g x)) xs) (f x) = Some (g x)"
  using assms by (intro map_of_is_SomeI) (auto simp: comp_def)

lemma StateLedger_RevertToSnapshot_refines:
  assumes E: "env_ok E" and inv: "ledger_inv E l"
  shows "refines E (ebind (StateLedger_RevertToSnapshot E revid l) (\<lambda>l'. Inr ((), l')))
    (ebind (spec_revert revid (plain_of E l)) (\<lambda>p. Inr ((), p)))"
proof -
  let ?rs = "validRevisions l"
  define idx where "idx = sortSearch (\<lambda>i. revid \<le> rev_id (?rs ! i)) 0 (length ?rs)"
  have sorted: "sorted_wrt (<) (map rev_id ?rs)" using inv by (simp add: ledger_inv_def)
  note found = revision_found [OF sorted idx_def]
  show ?thesis
  proof (cases "revid \<in> rev_id ` set ?rs")
    case False
    then have "map_of (p_saved (plain_of E l)) revid = None" by (auto simp: plain_of_def map_of_eq_None_iff)
    then show ?thesis using found(2) [OF False]
      by (auto simp: StateLedger_RevertToSnapshot_def refines_def spec_revert_def idx_def Let_def)
  next
    case True
    note idx = found(1) [OF True]
    define r where "r = ?rs ! idx"
    have r: "r \<in> set ?rs" "rev_id r = revid" using idx by (simp_all add: r_def)
    obtain v where v: "saved_at E l (changerIndex r) = Inr v" "view_ok v" "changerIndex r \<le> length (changes (changer l))"
      using inv r(1) by (auto simp: ledger_inv_def)
    obtain l1 where l1: "stateChanger_revert E (changerIndex r) l = Inr l1" "ledger_view E l1 = v" "accs_inv E l1"
      "same_ctl l l1" "changes (changer l1) = take (changerIndex r) (changes (changer l))"
      by (rule stateChanger_revert_spec [OF E _ _ v(3,1)]) (use inv in \<open>auto simp: ledger_inv_def\<close>)
    define l' where "l' = l1\<lparr>validRevisions := take idx (validRevisions l1)\<rparr>"
    have res: "StateLedger_RevertToSnapshot E revid l = Inr l'"
      using idx r l1(1) by (auto simp: StateLedger_RevertToSnapshot_def l'_def idx_def [symmetric] r_def Let_def)
    have view: "ledger_view E l' = v" using l1(2) by (simp add: l'_def ledger_view_def)
    have le: "changerIndex q \<le> changerIndex r" if "q \<in> set (take idx ?rs)" for q
    proof -
      from that obtain k where "k < idx" "q = ?rs ! k" using idx by (auto simp: in_set_conv_nth)
      moreover have "sorted (map changerIndex ?rs)" using inv by (simp add: ledger_inv_def)
      ultimately show ?thesis using idx sorted_nth_mono [of "map changerIndex ?rs" k idx] by (simp add: r_def)
    qed
    have at: "saved_at E l' (changerIndex q) = saved_at E l (changerIndex q)" if "q \<in> set (take idx ?rs)" for q
      by (rule saved_at_take [where n = "changerIndex r"]) (use l1(5) v view le [OF that] in \<open>simp_all add: l'_def\<close>)
    have sub: "\<And>q. q \<in> set (take idx ?rs) \<Longrightarrow> q \<in> set ?rs" by (auto dest: in_set_takeD)
    have inv': "ledger_inv E l'"
      using inv l1(3-5) v view at le sub
      by (auto simp: ledger_inv_def l'_def same_ctl_def accs_inv_def list_all_iff min_def
          simp flip: take_map intro: sorted_wrt_take dest: in_set_takeD)
    have "valid_view E l' q = valid_view E l q" if "q \<in> set (take idx ?rs)" for q
      using at [OF that] sub [OF that] inv by (auto simp: valid_view_def ledger_inv_def)
    then have "plain_of E l' = (plain_of E l)\<lparr>p_view := v, p_saved := takeWhile (\<lambda>(i, _). i \<noteq> revid) (p_saved (plain_of E l))\<rparr>"
      using view l1(4) idx by (simp add: plain_of_def l'_def same_ctl_def takeWhile_map comp_def)
    moreover have "map_of (p_saved (plain_of E l)) revid = Some v"
      using map_of_saved [of rev_id ?rs r "valid_view E l"] sorted r v
      by (auto simp: plain_of_def valid_view_def strict_sorted_iff)
    ultimately show ?thesis using res inv' by (simp add: refines_def spec_revert_def)
  qed
qed

end
