(* ===== verification/Ledger_Operations.thy ===== *)
theory Ledger_Operations
  imports Ledger_Snapshots
begin

text \<open>
  The operations the EVM and the system contracts call on the ledger, what each is on the plain
  state, and that the ledger refines it: the same replies, the same panics, and the plain state and
  the saved states of the specification.
\<close>

section \<open>Operations and replies\<close>

datatype (plugins only: code) ledger_op =
    GetBalance address | SetBalance address int | SubBalance address int | AddBalance address int
  | GetState address bytes | GetCommittedState address bytes | SetState address bytes "bytes option"
  | GetCode address | GetCodeSize address | SetCode address "bytes option"
  | GetNonce address | SetNonce address u64
  | GetRefund | AddRefund u64 | SubRefund u64
  | SelfDestruct address | HasSelfDestructed address | Selfdestruct6780 address
  | Exist address | Empty address
  | AddAddressToAccessList address | AddSlotToAccessList address hash
  | AddressInAccessList address | SlotInAccessList address hash
  | AddPreimage hash bytes | AddLog evm_log
  | GetTransientState address hash | SetTransientState address hash hash
  | SetTxContext "hash option" u64 | Snapshot | RevertToSnapshot int | Finalise

datatype (plugins only: code) reply =
    Done | Amount int | Counter u64 | Size nat | Flag bool | Flags bool bool
  | Value bytes | Content "bytes option" | Found bool "bytes option" | HashWord hash | Revision int

definition finished :: "state_ledger \<Rightarrow> panic + reply \<times> state_ledger" where
  "finished l = Inr (Done, l)"

primrec step :: "ledger_env \<Rightarrow> ledger_op \<Rightarrow> state_ledger \<Rightarrow> panic + reply \<times> state_ledger" where
  "step E (GetBalance a) l = Inr (apfst Amount (StateLedger_GetBalance E a l))"
| "step E (SetBalance a b) l = finished (StateLedger_SetBalance E a b l)"
| "step E (SubBalance a b) l = finished (StateLedger_SubBalance E a b l)"
| "step E (AddBalance a b) l = finished (StateLedger_AddBalance E a b l)"
| "step E (GetState a k) l = Inr (apfst (\<lambda>(ok, v). Found ok v) (StateLedger_GetState E a k l))"
| "step E (GetCommittedState a k) l = Inr (apfst Value (StateLedger_GetCommittedState E a k l))"
| "step E (SetState a k v) l = finished (StateLedger_SetState E a k v l)"
| "step E (GetCode a) l = Inr (apfst Content (StateLedger_GetCode E a l))"
| "step E (GetCodeSize a) l = Inr (apfst Size (StateLedger_GetCodeSize E a l))"
| "step E (SetCode a c) l = finished (StateLedger_SetCode E a c l)"
| "step E (GetNonce a) l = Inr (apfst Counter (StateLedger_GetNonce E a l))"
| "step E (SetNonce a n) l = finished (StateLedger_SetNonce E a n l)"
| "step E GetRefund l = Inr (Counter (StateLedger_GetRefund l), l)"
| "step E (AddRefund g) l = finished (StateLedger_AddRefund g l)"
| "step E (SubRefund g) l = ebind (StateLedger_SubRefund g l) finished"
| "step E (SelfDestruct a) l = finished (StateLedger_SelfDestruct E a l)"
| "step E (HasSelfDestructed a) l = Inr (apfst Flag (StateLedger_HasSelfDestructed E a l))"
| "step E (Selfdestruct6780 a) l = finished (StateLedger_Selfdestruct6780 E a l)"
| "step E (Exist a) l = Inr (apfst Flag (StateLedger_Exist E a l))"
| "step E (Empty a) l = Inr (apfst Flag (StateLedger_Empty E a l))"
| "step E (AddAddressToAccessList a) l = finished (StateLedger_AddAddressToAccessList a l)"
| "step E (AddSlotToAccessList a s) l = ebind (StateLedger_AddSlotToAccessList a s l) finished"
| "step E (AddressInAccessList a) l = Inr (Flag (StateLedger_AddressInAccessList a l), l)"
| "step E (SlotInAccessList a s) l =
     ebind (StateLedger_SlotInAccessList a s l) (\<lambda>(x, y). Inr (Flags x y, l))"
| "step E (AddPreimage h b) l = finished (StateLedger_AddPreimage h b l)"
| "step E (AddLog log) l = ebind (StateLedger_AddLog log l) finished"
| "step E (GetTransientState a k) l = Inr (HashWord (EvmStateDBAdaptor_GetTransientState a k l), l)"
| "step E (SetTransientState a k v) l = finished (EvmStateDBAdaptor_SetTransientState a k v l)"
| "step E (SetTxContext h i) l = finished (StateLedger_SetTxContext h i l)"
| "step E Snapshot l = Inr (apfst Revision (StateLedger_Snapshot l))"
| "step E (RevertToSnapshot r) l = ebind (StateLedger_RevertToSnapshot E r l) finished"
| "step E Finalise l = finished (StateLedger_Finalise l)"

section \<open>The specification\<close>

definition on_view :: "(view \<Rightarrow> view) \<Rightarrow> plain \<Rightarrow> plain" where
  "on_view f p = p\<lparr>p_view := f (p_view p)\<rparr>"

definition put :: "(view \<Rightarrow> view) \<Rightarrow> plain \<Rightarrow> panic + reply \<times> plain" where
  "put f p = Inr (Done, on_view f p)"

definition put_acct :: "address \<Rightarrow> (acct_view \<Rightarrow> acct_view) \<Rightarrow> plain \<Rightarrow> panic + reply \<times> plain" where
  "put_acct a f = put (\<lambda>v. v_upd a f (v_touch a v))"

definition get_acct :: "address \<Rightarrow> (acct_view \<Rightarrow> reply) \<Rightarrow> plain \<Rightarrow> panic + reply \<times> plain" where
  "get_acct a f p = Inr (f (v_acct (p_view p) a), on_view (v_touch a) p)"

definition add_log :: "hash \<Rightarrow> evm_log \<Rightarrow> evm_logs \<Rightarrow> evm_logs" where
  "add_log h log ls = \<lparr>txLogs = (txLogs ls)(h \<mapsto> (case txLogs ls h of None \<Rightarrow> [] | Some xs \<Rightarrow> xs) @
     [log\<lparr>log_LogIndex := logSize ls\<rparr>]), logSize = logSize ls + 1\<rparr>"

definition committed :: "acct_view \<Rightarrow> acct_view" where
  "committed av = av\<lparr>av_committed := av_state av, av_created := False\<rparr>"

definition destructed :: "acct_view \<Rightarrow> acct_view" where
  "destructed av = av\<lparr>av_balance := 0, av_destructed := True\<rparr>"

primrec spec :: "ledger_env \<Rightarrow> ledger_op \<Rightarrow> plain \<Rightarrow> panic + reply \<times> plain" where
  "spec E (GetBalance a) p = get_acct a (\<lambda>av. Amount (av_balance av)) p"
| "spec E (SetBalance a b) p = put_acct a (\<lambda>av. av\<lparr>av_balance := b\<rparr>) p"
| "spec E (SubBalance a b) p =
     put_acct a (\<lambda>av. if av_empty av then av else av\<lparr>av_balance := av_balance av - b\<rparr>) p"
| "spec E (AddBalance a b) p = put_acct a (\<lambda>av. av\<lparr>av_balance := av_balance av + b\<rparr>) p"
| "spec E (GetState a k) p = get_acct a (\<lambda>av. Found (av_state av k \<noteq> None) (av_state av k)) p"
| "spec E (GetCommittedState a k) p =
     get_acct a (\<lambda>av. Value (if av_empty av then zeroHash else orZeroHash (av_committed av k))) p"
| "spec E (SetState a k v) p = put_acct a (\<lambda>av. av\<lparr>av_state := (av_state av)(k := v)\<rparr>) p"
| "spec E (GetCode a) p = get_acct a (\<lambda>av. Content (av_code av)) p"
| "spec E (GetCodeSize a) p =
     get_acct a (\<lambda>av. Size (case av_code av of None \<Rightarrow> 0 | Some c \<Rightarrow> length c)) p"
| "spec E (SetCode a c) p = put_acct a (\<lambda>av. av\<lparr>av_code := orElse c (base_code E a)\<rparr>) p"
| "spec E (GetNonce a) p = get_acct a (\<lambda>av. Counter (av_nonce av)) p"
| "spec E (SetNonce a n) p = put_acct a (\<lambda>av. av\<lparr>av_nonce := n\<rparr>) p"
| "spec E GetRefund p = Inr (Counter (v_refund (p_view p)), p)"
| "spec E (AddRefund g) p = put (\<lambda>v. v\<lparr>v_refund := v_refund v + g\<rparr>) p"
| "spec E (SubRefund g) p =
     (if v_refund (p_view p) < g then Inl (RefundBelowZero g (v_refund (p_view p)))
      else put (\<lambda>v. v\<lparr>v_refund := v_refund v - g\<rparr>) p)"
| "spec E (SelfDestruct a) p = put_acct a destructed p"
| "spec E (HasSelfDestructed a) p = Inr (Flag (av_destructed (v_acct (p_view p) a)), p)"
| "spec E (Selfdestruct6780 a) p = put (v_upd a (\<lambda>av. if av_created av then destructed av else av)) p"
| "spec E (Exist a) p = get_acct a (\<lambda>av. Flag (\<not> av_empty av)) p"
| "spec E (Empty a) p = get_acct a (\<lambda>av. Flag (av_empty av)) p"
| "spec E (AddAddressToAccessList a) p = put (\<lambda>v. v\<lparr>v_access := snd (AccessList_AddAddress a (v_access v))\<rparr>) p"
| "spec E (AddSlotToAccessList a s) p =
     ebind (AccessList_AddSlot a s (v_access (p_view p))) (\<lambda>(_, al). put (\<lambda>v. v\<lparr>v_access := al\<rparr>) p)"
| "spec E (AddressInAccessList a) p = Inr (Flag (addresses (v_access (p_view p)) a \<noteq> None), p)"
| "spec E (SlotInAccessList a s) p =
     (let al = v_access (p_view p) in Inr (Flags (addresses al a \<noteq> None) (s \<in> warm_slots al a), p))"
| "spec E (AddPreimage h b) p =
     put (\<lambda>v. v\<lparr>v_preimages := (if v_preimages v h = None then (v_preimages v)(h \<mapsto> b) else v_preimages v)\<rparr>) p"
| "spec E (AddLog log) p =
     (let log = log\<lparr>log_TransactionHash := orElse (log_TransactionHash log) (p_thash p), log_TransactionIndex := p_index p\<rparr>
      in case log_TransactionHash log of None \<Rightarrow> Inl NilTxHash | Some h \<Rightarrow> put (\<lambda>v. v\<lparr>v_logs := add_log h log (v_logs v)\<rparr>) p)"
| "spec E (GetTransientState a k) p = Inr (HashWord (v_transient (p_view p) a k), p)"
| "spec E (SetTransientState a k x) p =
     put (\<lambda>v. v\<lparr>v_transient := (v_transient v)(a := (v_transient v a)(k := x))\<rparr>) p"
| "spec E (SetTxContext h i) p = Inr (Done, p\<lparr>p_thash := h, p_index := i\<rparr>)"
| "spec E Snapshot p = Inr (Revision (p_next p),
     p\<lparr>p_next := p_next p + 1, p_saved := p_saved p @ [(p_next p, p_view p)]\<rparr>)"
| "spec E (RevertToSnapshot r) p = ebind (spec_revert r p) (\<lambda>p. Inr (Done, p))"
| "spec E Finalise p = Inr (Done, p\<lparr>p_view := (p_view p)\<lparr>v_acct := (\<lambda>a. committed (v_acct (p_view p) a)), v_refund := 0\<rparr>,
     p_saved := [], p_next := 0\<rparr>)"

section \<open>Refinement of the operations on accounts\<close>

lemma plain_of_fields [simp]:
  "p_view (plain_of E l) = ledger_view E l" "p_thash (plain_of E l) = thash l" "p_index (plain_of E l) = txIndex l"
  "p_next (plain_of E l) = nextRevisionId l"
  by (simp_all add: plain_of_def)

lemma refines_extends:
  assumes "ledger_inv E l" and "extends E l l'" and "ledger_view E l' = f (ledger_view E l)"
  shows "refines E (Inr (x, l')) (Inr (x, on_view f (plain_of E l)))"
  using extends_plain [OF assms(2,1)] assms(3) by (simp add: refines_def on_view_def)

lemma v_touch_upd_touch:
  assumes "\<And>av. av_known (g av) = av_known av"
  shows "v_touch a (v_upd a g (v_touch a v)) = v_upd a g (v_touch a v)"
  using assms by (simp add: v_touch_def)

lemma refines_put:
  assumes inv: "ledger_inv E l"
    and f: "\<And>acc s. acc_inv E a acc \<Longrightarrow> account_view E acc = v_acct (v_touch a (ledger_view E l)) a \<Longrightarrow>
      acc_inv E a (fst (f (acc, s))) \<and> account_view E (fst (f (acc, s))) = g (account_view E acc) \<and>
      changes (snd (f (acc, s))) = changes s @ cs"
    and cs: "list_all no_reset cs"
    and undo: "efold (undo E) (rev cs) (v_upd a g (v_touch a (ledger_view E l))) = Inr (v_touch a (ledger_view E l))"
  shows "refines E (finished (onAccount E f a l)) (put_acct a g (plain_of E l))"
proof -
  have base: "accs_inv E l" "view_ok (ledger_view E l)" using ledger_inv_base [OF inv] by auto
  have O: "extends E l (onAccount E f a l)" "ledger_view E (onAccount E f a l) = v_upd a g (v_touch a (ledger_view E l))"
    by (rule onAccount_extends [OF base f cs undo], assumption+)+
  show ?thesis
    unfolding finished_def put_acct_def put_def by (rule refines_extends [OF inv O(1)]) (rule O(2))
qed

lemma refines_get:
  assumes inv: "ledger_inv E l"
    and f: "\<And>acc. acc_inv E a acc \<Longrightarrow> account_view E acc = v_acct (v_touch a (ledger_view E l)) a \<Longrightarrow>
      acc_inv E a (snd (f acc)) \<and> account_view E (snd (f acc)) = account_view E acc \<and> fst (f acc) = x"
    and x: "r x = g (v_acct (ledger_view E l) a)"
  shows "refines E (Inr (apfst r (readAccount E f a l))) (get_acct a g (plain_of E l))"
proof -
  have base: "accs_inv E l" "view_ok (ledger_view E l)" using ledger_inv_base [OF inv] by auto
  from readAccount_extends [OF base f] obtain l' where l': "readAccount E f a l = (x, l')" "extends E l l'"
    "ledger_view E l' = v_touch a (ledger_view E l)" by blast
  show ?thesis
    unfolding get_acct_def l'(1) apfst_conv x plain_of_fields by (rule refines_extends [OF inv l'(2)]) (rule l'(3))
qed

text \<open>What the fields of a cached account show.\<close>

lemma account_view_get:
  "SimpleAccount_GetBalance acc = av_balance (account_view E acc)"
  "SimpleAccount_GetNonce acc = av_nonce (account_view E acc)"
  "selfDestructed acc = av_destructed (account_view E acc)" "created acc = av_created (account_view E acc)"
  by (simp_all add: account_view_def)

lemma acc_inv_Addr: "acc_inv E a acc \<Longrightarrow> Addr acc = a"
  by (simp add: acc_inv_def)

lemma av_empty_touch [simp]: "av_empty (v_acct (v_touch a v) b) = av_empty (v_acct v b)"
  by (simp add: av_empty_def)

lemma SetBalance_acc:
  assumes "env_ok E" and "acc_inv E a acc"
  shows "acc_inv E a (fst (SimpleAccount_SetBalance E b (acc, s))) \<and>
    account_view E (fst (SimpleAccount_SetBalance E b (acc, s))) = (account_view E acc)\<lparr>av_balance := b\<rparr> \<and>
    changes (snd (SimpleAccount_SetBalance E b (acc, s))) = changes s @ [BalanceChange a (av_balance (account_view E acc))]"
  using setters(1,2) [OF assms, of b] acc_inv_Addr [OF assms(2)]
  by (simp add: SimpleAccount_SetBalance_def SimpleAccount_setBalance_def account_view_get(1) [of acc E])

lemma SetBalance_refines:
  assumes "env_ok E" and "ledger_inv E l"
  shows "refines E (step E (SetBalance a b) l) (spec E (SetBalance a b) (plain_of E l))"
  unfolding step.simps spec.simps StateLedger_SetBalance_def
  by (rule refines_put [OF assms(2), where cs = "[BalanceChange a (av_balance (v_acct (ledger_view E l) a))]"])
    (use SetBalance_acc [OF assms(1)] in \<open>simp_all add: v_touch_upd_touch v_upd_id\<close>)

lemma AddBalance_refines:
  assumes "env_ok E" and "ledger_inv E l"
  shows "refines E (step E (AddBalance a b) l) (spec E (AddBalance a b) (plain_of E l))"
  unfolding step.simps spec.simps StateLedger_AddBalance_def
  by (rule refines_put [OF assms(2),
        where cs = "if b = 0 then [] else [BalanceChange a (av_balance (v_acct (ledger_view E l) a))]"])
    (use SetBalance_acc [OF assms(1)] in \<open>auto simp: v_touch_upd_touch v_upd_id SimpleAccount_AddBalance_def
       account_view_get [where E = E]\<close>)

lemma SubBalance_refines:
  assumes "env_ok E" and "ledger_inv E l"
  shows "refines E (step E (SubBalance a b) l) (spec E (SubBalance a b) (plain_of E l))"
  unfolding step.simps spec.simps StateLedger_SubBalance_def
  by (rule refines_put [OF assms(2),
        where cs = "if b = 0 \<or> av_empty (v_acct (ledger_view E l) a) then []
          else [BalanceChange a (av_balance (v_acct (ledger_view E l) a))]"])
    (use SetBalance_acc [OF assms(1)] in \<open>auto simp: v_touch_upd_touch v_upd_id SimpleAccount_SubBalance_def
       SimpleAccount_IsEmpty_view account_view_get [where E = E]\<close>)
lemma SetNonce_refines:
  assumes "env_ok E" and "ledger_inv E l"
  shows "refines E (step E (SetNonce a n) l) (spec E (SetNonce a n) (plain_of E l))"
proof -
  have "acc_inv E a (fst (SimpleAccount_SetNonce E n (acc, s))) \<and>
      account_view E (fst (SimpleAccount_SetNonce E n (acc, s))) = (account_view E acc)\<lparr>av_nonce := n\<rparr> \<and>
      changes (snd (SimpleAccount_SetNonce E n (acc, s))) = changes s @ [NonceChange a (av_nonce (account_view E acc))]"
    if "acc_inv E a acc" for acc s
    using setters(3,4) [OF assms(1) that, of n] acc_inv_Addr [OF that]
    by (simp add: SimpleAccount_SetNonce_def SimpleAccount_setNonce_def account_view_get [of acc E])
  then show ?thesis
    unfolding step.simps spec.simps StateLedger_SetNonce_def
    by (intro refines_put [OF assms(2), where cs = "[NonceChange a (av_nonce (v_acct (ledger_view E l) a))]"])
      (simp_all add: v_touch_upd_touch v_upd_id)
qed

lemma SetState_refines:
  assumes "env_ok E" and "ledger_inv E l"
  shows "refines E (step E (SetState a k v) l) (spec E (SetState a k v) (plain_of E l))"
proof -
  have "acc_inv E a (fst (SimpleAccount_SetState E k v (acc, s))) \<and>
      account_view E (fst (SimpleAccount_SetState E k v (acc, s))) =
        (account_view E acc)\<lparr>av_state := (av_state (account_view E acc))(k := v)\<rparr> \<and>
      changes (snd (SimpleAccount_SetState E k v (acc, s))) =
        changes s @ [StorageChange a k (av_state (account_view E acc) k)]"
    if acc: "acc_inv E a acc" for acc s
  proof -
    obtain acc1 where get: "SimpleAccount_GetState E k acc =
        ((av_state (account_view E acc) k \<noteq> None, av_state (account_view E acc) k), acc1)"
      "acc_inv E a acc1" "account_view E acc1 = account_view E acc"
      by (rule SimpleAccount_GetState_view [OF acc])
    note D = setters(11,12) [OF assms(1) get(2)]
    show ?thesis using setters(5,6) [OF assms(1) D(1), of k v] D(2) get acc_inv_Addr [OF acc]
      by (simp add: SimpleAccount_SetState_def)
  qed
  then show ?thesis
    unfolding step.simps spec.simps StateLedger_SetState_def
    by (intro refines_put [OF assms(2), where cs = "[StorageChange a k (av_state (v_acct (ledger_view E l) a) k)]"])
      (simp_all add: v_touch_upd_touch v_upd_id)
qed

lemma orElse_code:
  fixes l :: state_ledger
  assumes "accs_inv E l"
  shows "orElse (av_code (v_acct (ledger_view E l) a)) (base_code E a) = av_code (v_acct (ledger_view E l) a)"
  using assms
  by (cases "accounts l a"; cases "base_code E a") (auto simp: accs_inv_def acc_inv_def account_view_def base_view_def orElse_def split: option.splits)

lemma SetCode_refines:
  assumes "env_ok E" and "ledger_inv E l"
  shows "refines E (step E (SetCode a c) l) (spec E (SetCode a c) (plain_of E l))"
proof -
  have "acc_inv E a (fst (SimpleAccount_SetCodeAndHash E c (acc, s))) \<and>
      account_view E (fst (SimpleAccount_SetCodeAndHash E c (acc, s))) =
        (account_view E acc)\<lparr>av_code := orElse c (base_code E a)\<rparr> \<and>
      changes (snd (SimpleAccount_SetCodeAndHash E c (acc, s))) = changes s @ [CodeChange a (av_code (account_view E acc))]"
    if acc: "acc_inv E a acc" for acc s
    using setters(7,8) [OF assms(1) acc, of c] acc_inv_Addr [OF acc] SimpleAccount_Code_view [OF acc]
    by (simp add: SimpleAccount_SetCodeAndHash_def)
  moreover have "accs_inv E l" using ledger_inv_base [OF assms(2)] by simp
  ultimately show ?thesis
    unfolding step.simps spec.simps StateLedger_SetCode_def
    by (intro refines_put [OF assms(2), where cs = "[CodeChange a (av_code (v_acct (ledger_view E l) a))]"])
      (simp_all add: v_touch_upd_touch v_upd_id orElse_code del: ledger_view_fields(6))
qed

lemma SelfDestruct_acc:
  assumes E: "env_ok E" and acc: "acc_inv E a acc"
  defines "f \<equiv> \<lambda>(acc, s).
       let s1 = stateChanger_append (SuicideChange a (selfDestructed acc) (SimpleAccount_GetBalance acc)) s
       in SimpleAccount_SetBalance E 0 (acc\<lparr>selfDestructed := True\<rparr>, s1)"
  shows "acc_inv E a (fst (f (acc, s))) \<and> account_view E (fst (f (acc, s))) = destructed (account_view E acc) \<and>
    changes (snd (f (acc, s))) = changes s @ [SuicideChange a (av_destructed (account_view E acc)) (av_balance (account_view E acc)),
      BalanceChange a (av_balance (account_view E acc))]"
proof -
  note D = setters(9,10) [OF E acc, of True]
  show ?thesis
    using SetBalance_acc [OF E D(1), of 0] D(2)
    by (simp add: f_def destructed_def account_view_get [of acc E] Let_def)
qed

lemma SelfDestruct_refines:
  assumes "env_ok E" and "ledger_inv E l"
  shows "refines E (step E (SelfDestruct a) l) (spec E (SelfDestruct a) (plain_of E l))"
proof -
  let ?av = "v_acct (ledger_view E l) a"
  show ?thesis
    unfolding step.simps spec.simps StateLedger_SelfDestruct_def
    by (rule refines_put [OF assms(2),
          where cs = "[SuicideChange a (av_destructed ?av) (av_balance ?av), BalanceChange a (av_balance ?av)]"])
      (use SelfDestruct_acc [OF assms(1)] in \<open>simp_all add: v_touch_upd_touch v_upd_id destructed_def\<close>)
qed

section \<open>Refinement of the reads\<close>

lemma GetBalance_refines:
  assumes "ledger_inv E l"
  shows "refines E (step E (GetBalance a) l) (spec E (GetBalance a) (plain_of E l))"
  unfolding step.simps spec.simps StateLedger_GetBalance_def
  by (rule refines_get [OF assms, where x = "av_balance (v_acct (ledger_view E l) a)"])
    (simp_all add: account_view_get [where E = E])

lemma GetNonce_refines:
  assumes "ledger_inv E l"
  shows "refines E (step E (GetNonce a) l) (spec E (GetNonce a) (plain_of E l))"
  unfolding step.simps spec.simps StateLedger_GetNonce_def
  by (rule refines_get [OF assms, where x = "av_nonce (v_acct (ledger_view E l) a)"])
    (simp_all add: account_view_get [where E = E])

lemma GetCode_refines:
  assumes "ledger_inv E l"
  shows "refines E (step E (GetCode a) l) (spec E (GetCode a) (plain_of E l))"
  unfolding step.simps spec.simps StateLedger_GetCode_def
  by (rule refines_get [OF assms, where x = "av_code (v_acct (ledger_view E l) a)"])
    (simp_all add: SimpleAccount_Code_view)

lemma GetCodeSize_refines:
  assumes "ledger_inv E l"
  shows "refines E (step E (GetCodeSize a) l) (spec E (GetCodeSize a) (plain_of E l))"
  unfolding step.simps spec.simps StateLedger_GetCodeSize_def
  by (rule refines_get [OF assms, where x = "case av_code (v_acct (ledger_view E l) a) of None \<Rightarrow> 0 | Some c \<Rightarrow> length c"])
    (auto simp: SimpleAccount_IsEmpty_view SimpleAccount_Code_view av_empty_def)

lemma Exist_refines:
  assumes "ledger_inv E l"
  shows "refines E (step E (Exist a) l) (spec E (Exist a) (plain_of E l))"
  unfolding step.simps spec.simps StateLedger_Exist_def
  by (rule refines_get [OF assms, where x = "\<not> av_empty (v_acct (ledger_view E l) a)"])
    (simp_all add: SimpleAccount_IsEmpty_view)

lemma Empty_refines:
  assumes "ledger_inv E l"
  shows "refines E (step E (Empty a) l) (spec E (Empty a) (plain_of E l))"
  unfolding step.simps spec.simps StateLedger_Empty_def
  by (rule refines_get [OF assms, where x = "av_empty (v_acct (ledger_view E l) a)"])
    (simp_all add: SimpleAccount_IsEmpty_view)

lemma GetState_refines:
  assumes "ledger_inv E l"
  shows "refines E (step E (GetState a k) l) (spec E (GetState a k) (plain_of E l))"
proof -
  have "acc_inv E a (snd (SimpleAccount_GetState E k acc)) \<and>
      account_view E (snd (SimpleAccount_GetState E k acc)) = account_view E acc \<and>
      fst (SimpleAccount_GetState E k acc) = (av_state (account_view E acc) k \<noteq> None, av_state (account_view E acc) k)"
    if "acc_inv E a acc" for acc
    by (rule SimpleAccount_GetState_view [OF that, of k]) simp
  then show ?thesis
    unfolding step.simps spec.simps StateLedger_GetState_def
    by (intro refines_get [OF assms, where x = "(av_state (v_acct (ledger_view E l) a) k \<noteq> None,
          av_state (v_acct (ledger_view E l) a) k)"]) simp_all
qed

lemma GetCommittedState_refines:
  assumes "ledger_inv E l"
  shows "refines E (step E (GetCommittedState a k) l) (spec E (GetCommittedState a k) (plain_of E l))"
proof -
  have "acc_inv E a (snd (SimpleAccount_GetCommittedState E k acc)) \<and>
      account_view E (snd (SimpleAccount_GetCommittedState E k acc)) = account_view E acc \<and>
      fst (SimpleAccount_GetCommittedState E k acc) = orZeroHash (av_committed (account_view E acc) k)"
    if "acc_inv E a acc" for acc
    by (rule SimpleAccount_GetCommittedState_view [OF that, of k]) simp
  then show ?thesis
    unfolding step.simps spec.simps StateLedger_GetCommittedState_def
    by (intro refines_get [OF assms, where x = "if av_empty (v_acct (ledger_view E l) a) then zeroHash
          else orZeroHash (av_committed (v_acct (ledger_view E l) a) k)"])
      (simp_all add: SimpleAccount_IsEmpty_view)
qed

lemma GetAccount_extends:
  assumes "StateLedger_GetAccount E a l = (r, l')" and inv: "ledger_inv E l"
  shows "extends E l l'"
  using StateLedger_GetAccount_cases [OF assms(1)] ledger_inv_base [OF inv]
  by (auto simp: extends_def same_rest_ctl)

lemma GetAccount_plain:
  assumes "StateLedger_GetAccount E a l = (r, l')" and inv: "ledger_inv E l"
  shows "ledger_inv E l'" "plain_of E l' = plain_of E l" "ledger_view E l' = ledger_view E l"
proof -
  show view: "ledger_view E l' = ledger_view E l"
    using StateLedger_GetAccount_cases(1) [OF assms(1)] ledger_inv_base [OF inv] by simp
  note P = extends_plain [OF GetAccount_extends [OF assms] inv]
  show "ledger_inv E l'" by (rule P)
  show "plain_of E l' = plain_of E l" using P(2) view by (simp add: plain_of_def)
qed

lemma GetAccount_result:
  assumes "StateLedger_GetAccount E a l = (r, l')" and inv: "ledger_inv E l"
  shows "case r of None \<Rightarrow> v_acct (ledger_view E l) a = base_view E a
    | Some acc \<Rightarrow> account_view E acc = v_acct (ledger_view E l) a"
proof -
  have "v_acct (ledger_view E l) a = v_acct (ledger_view E l') a" by (simp only: GetAccount_plain(3) [OF assms])
  then show ?thesis
    using StateLedger_GetAccount_cases(5) [OF assms(1)] ledger_inv_base [OF inv]
    by (auto simp del: ledger_view_fields(6) split: option.splits simp: ledger_view_fields(6) [of E l'])
qed

lemma HasSelfDestructed_refines:
  assumes inv: "ledger_inv E l"
  shows "refines E (step E (HasSelfDestructed a) l) (spec E (HasSelfDestructed a) (plain_of E l))"
proof -
  obtain r l' where g: "StateLedger_GetAccount E a l = (r, l')" by fastforce
  have "(case r of None \<Rightarrow> False | Some acc \<Rightarrow> selfDestructed acc) = av_destructed (v_acct (ledger_view E l) a)"
    using GetAccount_result [OF g inv] by (auto simp: account_view_get [where E = E] base_view_def split: option.splits)
  then show ?thesis using GetAccount_plain [OF g inv]
    by (auto simp: StateLedger_HasSelfDestructed_def g refines_def split: option.splits)
qed

lemma Selfdestruct6780_refines:
  assumes E: "env_ok E" and inv: "ledger_inv E l"
  shows "refines E (step E (Selfdestruct6780 a) l) (spec E (Selfdestruct6780 a) (plain_of E l))"
proof -
  obtain r l' where g: "StateLedger_GetAccount E a l = (r, l')" by fastforce
  note P = GetAccount_plain [OF g inv] and R = GetAccount_result [OF g inv]
  show ?thesis
  proof (cases "\<exists>acc. r = Some acc \<and> created acc")
    case True
    then obtain acc where acc: "r = Some acc" "created acc" by blast
    then have av: "v_acct (ledger_view E l) a = account_view E acc" using R by simp
    then have "av_known (v_acct (ledger_view E l) a)" "av_created (v_acct (ledger_view E l) a)"
      using acc(2) by (simp_all add: account_view_def)
    then have "put_acct a destructed (plain_of E l) = spec E (Selfdestruct6780 a) (plain_of E l)"
      by (simp add: put_acct_def put_def on_view_def v_touch_known v_upd_def del: ledger_view_fields(6))
    then show ?thesis
      using SelfDestruct_refines [OF E P(1), of a] acc P(2) by (simp add: StateLedger_Selfdestruct6780_def g)
  next
    case False
    then have same: "StateLedger_Selfdestruct6780 E a l = l'"
      by (auto simp: StateLedger_Selfdestruct6780_def g split: option.split)
    have "\<not> av_created (v_acct (ledger_view E l) a)"
      using False R by (cases r) (auto simp: account_view_get [where E = E] base_view_def)
    then have "v_upd a (\<lambda>av. if av_created av then destructed av else av) (ledger_view E l) = ledger_view E l"
      by (intro v_upd_id) simp
    then show ?thesis using P same by (simp add: refines_def finished_def put_def on_view_def plain_of_def)
  qed
qed

section \<open>Refinement of the other operations\<close>

lemma refines_rest:
  assumes inv: "ledger_inv E l"
    and l': "accounts l' = accounts l" "same_ctl l l'" "changes (changer l') = changes (changer l) @ cs"
    and view: "ledger_view E l' = f (ledger_view E l)"
    and ok: "view_ok (ledger_view E l) \<Longrightarrow> view_ok (ledger_view E l')"
    and cs: "list_all no_reset cs" "efold (undo E) (rev cs) (ledger_view E l') = Inr (ledger_view E l)"
  shows "refines E (Inr (x, l')) (Inr (x, on_view f (plain_of E l)))"
proof -
  have "extends E l l'"
    unfolding extends_def using ledger_inv_base [OF inv] l' ok cs by (auto simp: accs_inv_def)
  then show ?thesis by (rule refines_extends [OF inv]) (rule view)
qed

lemma same_ctl_appendChange [simp]: "same_ctl l (appendChange c l)"
  by (simp add: same_ctl_def appendChange_def)

lemma ledger_view_appendChange [simp]: "ledger_view E (appendChange c l) = ledger_view E l"
  by (simp add: ledger_view_def appendChange_def)

lemma AddRefund_refines:
  assumes "ledger_inv E l"
  shows "refines E (step E (AddRefund g) l) (spec E (AddRefund g) (plain_of E l))"
  unfolding step.simps spec.simps finished_def put_def
  by (rule refines_rest [OF assms, where cs = "[RefundChange (refund l)]"])
    (simp_all add: StateLedger_AddRefund_def same_ctl_def appendChange_def ledger_view_def view_ok_def)

lemma SubRefund_refines:
  assumes "ledger_inv E l"
  shows "refines E (step E (SubRefund g) l) (spec E (SubRefund g) (plain_of E l))"
proof (cases "refund l < g")
  case True
  then show ?thesis by (simp add: StateLedger_SubRefund_def refines_def Let_def)
next
  case False
  have "refines E (Inr (Done, (appendChange (RefundChange (refund l)) l)\<lparr>refund := refund l - g\<rparr>))
      (Inr (Done, on_view (\<lambda>v. v\<lparr>v_refund := v_refund v - g\<rparr>) (plain_of E l)))"
    by (rule refines_rest [OF assms, where cs = "[RefundChange (refund l)]"])
      (simp_all add: same_ctl_def appendChange_def ledger_view_def view_ok_def)
  then show ?thesis using False by (simp add: StateLedger_SubRefund_def finished_def put_def Let_def)
qed

lemma AddAddress_refines:
  assumes inv: "ledger_inv E l"
  shows "refines E (step E (AddAddressToAccessList a) l) (spec E (AddAddressToAccessList a) (plain_of E l))"
proof -
  obtain b al where add: "AccessList_AddAddress a (accessList l) = (b, al)" by fastforce
  have "al_inv (accessList l)" using ledger_inv_base [OF inv] by (simp add: view_ok_def)
  note A = AccessList_AddAddress_inv [OF add this]
  show ?thesis
    unfolding step.simps spec.simps finished_def put_def
    by (rule refines_rest [OF inv, where cs = "if b then [AccessListAddAccountChange a] else []"])
      (use A in \<open>auto simp: StateLedger_AddAddressToAccessList_def add same_ctl_def appendChange_def ledger_view_def
        view_ok_def Let_def\<close>)
qed

lemma AddSlot_refines:
  assumes inv: "ledger_inv E l"
  shows "refines E (step E (AddSlotToAccessList a s) l) (spec E (AddSlotToAccessList a s) (plain_of E l))"
proof -
  have "al_inv (accessList l)" using ledger_inv_base [OF inv] by (simp add: view_ok_def)
  from AccessList_AddSlot_ok [OF this, of a s] obtain am sm al where
    A: "AccessList_AddSlot a s (accessList l) = Inr ((am, sm), al)" "al_inv al" "am = (addresses (accessList l) a = None)"
      "sm \<Longrightarrow> AccessList_DeleteSlot a s al =
        Inr (if am then (accessList l)\<lparr>addresses := (addresses (accessList l))(a \<mapsto> - 1)\<rparr> else accessList l)"
      "\<not> sm \<Longrightarrow> al = accessList l" "dom (addresses al) = insert a (dom (addresses (accessList l)))"
    by (metis fst_conv snd_conv prod.collapse)
  have undo_addr: "AccessList_DeleteAddress a ((accessList l)\<lparr>addresses := (addresses (accessList l))(a \<mapsto> - 1)\<rparr>) = accessList l"
    if "am" using that A(3) by (simp add: AccessList_DeleteAddress_def fun_upd_idem)
  have both: "sm" if "am" using that A(3,5,6) by (metis domIff insertI1)
  define l' where "l' = (let l1 = l\<lparr>accessList := al\<rparr>;
      l2 = (if am then appendChange (AccessListAddAccountChange a) l1 else l1)
      in if sm then appendChange (AccessListAddSlotChange a s) l2 else l2)"
  have "refines E (Inr (Done, l')) (Inr (Done, on_view (\<lambda>v. v\<lparr>v_access := al\<rparr>) (plain_of E l)))"
    by (rule refines_rest [OF inv, where cs = "(if am then [AccessListAddAccountChange a] else []) @
          (if sm then [AccessListAddSlotChange a s] else [])"])
      (use A undo_addr both in \<open>auto simp: l'_def same_ctl_def appendChange_def ledger_view_def view_ok_def Let_def\<close>)
  then show ?thesis
    by (simp add: StateLedger_AddSlotToAccessList_def A(1) l'_def finished_def put_def Let_def)
qed

lemma AddPreimage_refines:
  assumes "ledger_inv E l"
  shows "refines E (step E (AddPreimage h b) l) (spec E (AddPreimage h b) (plain_of E l))"
  unfolding step.simps spec.simps finished_def put_def
  by (rule refines_rest [OF assms, where cs = "if preimages l h = None then [AddPreimageChange h] else []"])
    (auto simp: StateLedger_AddPreimage_def same_ctl_def appendChange_def ledger_view_def view_ok_def fun_upd_idem)

lemma SetTransientState_refines:
  assumes "ledger_inv E l"
  shows "refines E (step E (SetTransientState a k x) l) (spec E (SetTransientState a k x) (plain_of E l))"
proof -
  let ?prev = "transientStorage_Get a k (transientStorage l)"
  show ?thesis
    unfolding step.simps spec.simps finished_def put_def
    by (rule refines_rest [OF assms, where cs = "if ?prev = x then [] else [TransientStorageChange a k ?prev]"])
      (auto simp: EvmStateDBAdaptor_SetTransientState_def EvmStateDBAdaptor_GetTransientState_def
        StateLedger_setTransientState_def transient_Set_Get same_ctl_def appendChange_def ledger_view_def view_ok_def fun_eq_iff Let_def)
qed

lemma undo_add_log:
  assumes "logs_ok (v_logs v)"
  shows "undo E (AddLogChange h) (v\<lparr>v_logs := add_log h log (v_logs v)\<rparr>) = Inr v"
  using assms by (cases "txLogs (v_logs v) h") (auto simp: add_log_def logs_ok_def fun_upd_idem)

lemma StateLedger_AddLog_eq:
  assumes "log' = log\<lparr>log_TransactionHash := orElse (log_TransactionHash log) (thash l), log_TransactionIndex := txIndex l\<rparr>"
  shows "StateLedger_AddLog log l = ebind (must NilTxHash (log_TransactionHash log')) (\<lambda>h.
    Inr ((appendChange (AddLogChange h) l)\<lparr>evmLogs := add_log h log' (evmLogs l)\<rparr>))"
proof -
  have "(if log_TransactionHash log = None then log\<lparr>log_TransactionHash := thash l\<rparr> else log)\<lparr>log_TransactionIndex := txIndex l\<rparr> = log'"
    by (cases "log_TransactionHash log") (auto simp: assms)
  then show ?thesis
    unfolding StateLedger_AddLog_def Let_def by (simp only:) (simp add: add_log_def appendChange_def)
qed

lemma AddLog_refines:
  assumes inv: "ledger_inv E l"
  shows "refines E (step E (AddLog log) l) (spec E (AddLog log) (plain_of E l))"
proof -
  define log' where "log' = log\<lparr>log_TransactionHash := orElse (log_TransactionHash log) (thash l),
      log_TransactionIndex := txIndex l\<rparr>"
  have spec: "spec E (AddLog log) (plain_of E l) = (case log_TransactionHash log' of None \<Rightarrow> Inl NilTxHash
      | Some h \<Rightarrow> Inr (Done, on_view (\<lambda>v. v\<lparr>v_logs := add_log h log' (v_logs v)\<rparr>) (plain_of E l)))"
    by (simp add: log'_def Let_def put_def split: option.split)
  show ?thesis
  proof (cases "log_TransactionHash log'")
    case None
    then show ?thesis
      unfolding spec by (simp add: StateLedger_AddLog_eq [OF log'_def] refines_def)
  next
    case (Some h)
    define l' where "l' = (appendChange (AddLogChange h) l)\<lparr>evmLogs := add_log h log' (evmLogs l)\<rparr>"
    have view: "ledger_view E l' = (ledger_view E l)\<lparr>v_logs := add_log h log' (evmLogs l)\<rparr>"
      by (simp add: l'_def ledger_view_def appendChange_def)
    have l': "accounts l' = accounts l" "same_ctl l l'" "changes (changer l') = changes (changer l) @ [AddLogChange h]"
      by (simp_all add: l'_def same_ctl_def appendChange_def)
    have ok: "logs_ok (evmLogs l)" using ledger_inv_base [OF inv] by (simp add: view_ok_def)
    have "refines E (Inr (Done, l')) (Inr (Done, on_view (\<lambda>v. v\<lparr>v_logs := add_log h log' (v_logs v)\<rparr>) (plain_of E l)))"
    proof (rule refines_rest [OF inv l'])
      show "view_ok (ledger_view E l')" if "view_ok (ledger_view E l)"
        using that by (auto simp: view view_ok_def logs_ok_def add_log_def)
      show "efold (undo E) (rev [AddLogChange h]) (ledger_view E l') = Inr (ledger_view E l)"
        using undo_add_log [of "ledger_view E l" E h log'] ok by (simp add: view del: undo.simps)
    qed (simp_all add: view)
    then show ?thesis using Some
      unfolding spec by (simp add: StateLedger_AddLog_eq [OF log'_def] finished_def l'_def)
  qed
qed

section \<open>Snapshots and the end of a transaction\<close>

lemma valid_view_cong:
  assumes "ledger_view E l' = ledger_view E l" and "changes (changer l') = changes (changer l)"
  shows "valid_view E l' r = valid_view E l r"
  using assms by (simp add: valid_view_def saved_at_def split: sum.split)

lemma Snapshot_refines:
  assumes inv: "ledger_inv E l"
  shows "refines E (step E Snapshot l) (spec E Snapshot (plain_of E l))"
proof -
  define r where "r = \<lparr>rev_id = nextRevisionId l, changerIndex = length (changes (changer l))\<rparr>"
  define l' where "l' = l\<lparr>nextRevisionId := nextRevisionId l + 1, validRevisions := validRevisions l @ [r]\<rparr>"
  have step: "StateLedger_Snapshot l = (nextRevisionId l, l')"
    by (simp add: StateLedger_Snapshot_def l'_def r_def stateChanger_length_def)
  have view: "ledger_view E l' = ledger_view E l" by (simp add: l'_def ledger_view_def)
  then have at: "saved_at E l' n = saved_at E l n" for n by (simp add: saved_at_def l'_def)
  have new: "saved_at E l (changerIndex r) = Inr (ledger_view E l)" by (simp add: saved_at_def r_def)
  have inv': "ledger_inv E l'"
    using inv new unfolding ledger_inv_def at view
    by (auto simp: l'_def accs_inv_def r_def sorted_wrt_append sorted_append)
  have "valid_view E l' q = valid_view E l q" for q by (rule valid_view_cong [OF view]) (simp add: l'_def)
  then have "plain_of E l' = (plain_of E l)\<lparr>p_next := nextRevisionId l + 1,
      p_saved := p_saved (plain_of E l) @ [(nextRevisionId l, ledger_view E l)]\<rparr>"
    using new view by (simp add: plain_of_def l'_def r_def) (simp add: valid_view_def)
  then show ?thesis using inv' by (simp add: step refines_def)
qed

lemma Finalise_view:
  assumes "accs_inv E l"
  shows "ledger_view E (StateLedger_Finalise l) =
    (ledger_view E l)\<lparr>v_acct := (\<lambda>a. committed (v_acct (ledger_view E l) a)), v_refund := 0\<rparr>"
proof -
  have "account_view E ((SimpleAccount_Finalise acc)\<lparr>created := False\<rparr>) = committed (account_view E acc)" for acc
    by (auto simp: account_view_def SimpleAccount_Finalise_def committed_def layered_def fun_eq_iff map_add_def
        SimpleAccount_GetBalance_def SimpleAccount_GetNonce_def split: option.split)
  moreover have "committed (base_view E a) = base_view E a" for a by (simp add: committed_def base_view_def)
  ultimately show ?thesis
    by (auto intro!: view_eqI simp: StateLedger_Finalise_def StateLedger_ClearChangerAndRefund_def split: option.split)
qed

lemma Finalise_refines:
  assumes inv: "ledger_inv E l"
  shows "refines E (step E Finalise l) (spec E Finalise (plain_of E l))"
proof -
  have base: "accs_inv E l" "view_ok (ledger_view E l)" using ledger_inv_base [OF inv] by auto
  have "acc_inv E a ((SimpleAccount_Finalise acc)\<lparr>created := False\<rparr>)" if "acc_inv E a acc" for a acc
    using that by (auto simp: acc_inv_def SimpleAccount_Finalise_def)
  then have accs: "accs_inv E (StateLedger_Finalise l)"
    using base(1) by (auto simp: accs_inv_def StateLedger_Finalise_def StateLedger_ClearChangerAndRefund_def)
  note view = Finalise_view [OF base(1)]
  have ctl: "validRevisions (StateLedger_Finalise l) = []" "nextRevisionId (StateLedger_Finalise l) = 0"
    "thash (StateLedger_Finalise l) = thash l" "txIndex (StateLedger_Finalise l) = txIndex l"
    "changes (changer (StateLedger_Finalise l)) = []"
    by (simp_all add: StateLedger_Finalise_def StateLedger_ClearChangerAndRefund_def stateChanger_reset_def)
  have "ledger_inv E (StateLedger_Finalise l)"
    using accs base(2) by (simp add: ledger_inv_def ctl view view_ok_def)
  then show ?thesis
    by (simp add: refines_def finished_def plain_of_def ctl view del: ledger_view_fields(6))
qed

lemma SetTxContext_refines:
  assumes "ledger_inv E l"
  shows "refines E (step E (SetTxContext h i) l) (spec E (SetTxContext h i) (plain_of E l))"
proof -
  have view: "ledger_view E (l\<lparr>thash := h, txIndex := i\<rparr>) = ledger_view E l" by (simp add: ledger_view_def)
  have at: "saved_at E (l\<lparr>thash := h, txIndex := i\<rparr>) n = saved_at E l n" for n by (simp add: saved_at_def view)
  have "valid_view E (l\<lparr>thash := h, txIndex := i\<rparr>) q = valid_view E l q" for q by (rule valid_view_cong [OF view]) simp
  then show ?thesis using assms
    by (simp add: refines_def finished_def StateLedger_SetTxContext_def ledger_inv_def plain_of_def view at accs_inv_def)
qed

lemmas op_refines = GetBalance_refines SetBalance_refines SubBalance_refines AddBalance_refines GetState_refines
  GetCommittedState_refines SetState_refines GetCode_refines GetCodeSize_refines SetCode_refines GetNonce_refines
  SetNonce_refines AddRefund_refines SubRefund_refines SelfDestruct_refines HasSelfDestructed_refines
  Selfdestruct6780_refines Exist_refines Empty_refines AddAddress_refines AddSlot_refines AddPreimage_refines
  AddLog_refines SetTransientState_refines SetTxContext_refines Snapshot_refines Finalise_refines

lemma RevertToSnapshot_refines:
  assumes "env_ok E" and "ledger_inv E l"
  shows "refines E (step E (RevertToSnapshot r) l) (spec E (RevertToSnapshot r) (plain_of E l))"
  using StateLedger_RevertToSnapshot_refines [OF assms, of r]
  by (cases "StateLedger_RevertToSnapshot E r l"; cases "spec_revert r (plain_of E l)")
    (auto simp: refines_def finished_def)

lemma step_refines:
  assumes E: "env_ok E" and inv: "ledger_inv E l"
  shows "refines E (step E op l) (spec E op (plain_of E l))"
proof -
  have al: "al_inv (accessList l)" using ledger_inv_base [OF inv] by (simp add: view_ok_def)
  show ?thesis
  proof (cases op)
    case GetRefund
    then show ?thesis using inv by (simp add: refines_def StateLedger_GetRefund_def)
  next
    case (AddressInAccessList a)
    then show ?thesis using inv
      by (simp add: refines_def StateLedger_AddressInAccessList_def AccessList_ContainsAddress_def)
  next
    case (SlotInAccessList a s)
    then show ?thesis using inv
      by (simp add: refines_def StateLedger_SlotInAccessList_def AccessList_Contains_warm [OF al] Let_def)
  next
    case (GetTransientState a k)
    then show ?thesis using inv by (simp add: refines_def EvmStateDBAdaptor_GetTransientState_def)
  next
    case (RevertToSnapshot r)
    then show ?thesis using RevertToSnapshot_refines [OF E inv] by simp
  qed (use op_refines E inv in \<open>simp_all del: step.simps spec.simps\<close>)
qed

end
