(* ===== verification/Ledger_Runs.thy ===== *)
theory Ledger_Runs
  imports Ledger_Operations
begin

text \<open>
  Sequences of ledger operations: the ledger refines the plain state over whole transactions, and
  what lies between a snapshot and going back to it leaves no trace that the operations can see.
\<close>

section \<open>Runs\<close>

primrec run :: "ledger_env \<Rightarrow> ledger_op list \<Rightarrow> state_ledger \<Rightarrow> panic + reply list \<times> state_ledger" where
  "run E [] l = Inr ([], l)"
| "run E (op # ops) l =
     ebind (step E op l) (\<lambda>(r, l1). ebind (run E ops l1) (\<lambda>(rs, l2). Inr (r # rs, l2)))"

primrec spec_run :: "ledger_env \<Rightarrow> ledger_op list \<Rightarrow> plain \<Rightarrow> panic + reply list \<times> plain" where
  "spec_run E [] p = Inr ([], p)"
| "spec_run E (op # ops) p =
     ebind (spec E op p) (\<lambda>(r, p1). ebind (spec_run E ops p1) (\<lambda>(rs, p2). Inr (r # rs, p2)))"

lemma run_refines:
  assumes "env_ok E"
  shows "ledger_inv E l \<Longrightarrow> refines E (run E ops l) (spec_run E ops (plain_of E l))"
proof (induction ops arbitrary: l)
  case Nil
  then show ?case by (simp add: refines_def)
next
  case (Cons op ops)
  have step: "refines E (step E op l) (spec E op (plain_of E l))" by (rule step_refines [OF assms Cons.prems])
  show ?case
  proof (cases "step E op l")
    case (Inl e)
    then show ?thesis using step by (simp add: refines_def)
  next
    case (Inr q)
    then obtain r l1 where l1: "step E op l = Inr (r, l1)" by (cases q) auto
    with step have "spec E op (plain_of E l) = Inr (r, plain_of E l1)" "ledger_inv E l1" by (simp_all add: refines_def)
    then show ?thesis using Cons.IH [of l1] l1
      by (cases "run E ops l1") (auto simp: refines_def)
  qed
qed

lemma newStateLedger_inv: "ledger_inv E (newStateLedger h)"
  by (simp add: ledger_inv_def newStateLedger_def accs_inv_def view_ok_def logs_ok_def ledger_view_def newEvmLogs_def newChanger_def)

section \<open>The saved state survives\<close>

fun keeps :: "int \<Rightarrow> ledger_op \<Rightarrow> bool" where
  "keeps i Finalise = False"
| "keeps i (RevertToSnapshot r) = (i < r)"
| "keeps i op = True"

definition holds :: "int \<Rightarrow> view \<Rightarrow> (int \<times> view) list \<Rightarrow> plain \<Rightarrow> bool" where
  "holds i v pre p \<longleftrightarrow> (\<exists>post. p_saved p = pre @ (i, v) # post \<and> (\<forall>x\<in>set pre. fst x < i) \<and>
     (\<forall>x\<in>set post. i < fst x) \<and> i < p_next p)"

lemma holds_on_view [simp]: "holds i v pre (on_view f p) = holds i v pre p"
  by (simp add: holds_def on_view_def)

lemma holds_ctx [simp]: "holds i v pre (p\<lparr>p_thash := h, p_index := k\<rparr>) = holds i v pre p"
  by (simp add: holds_def)

lemma spec_revert_holds:
  assumes "spec_revert r p = Inr p'" and "holds i v pre p" and "i < r"
  shows "holds i v pre p'"
proof -
  obtain post where post: "p_saved p = pre @ (i, v) # post" "\<forall>x\<in>set pre. fst x < i" "\<forall>x\<in>set post. i < fst x" "i < p_next p"
    using assms(2) by (auto simp: holds_def)
  have "\<And>x. x \<in> set pre \<Longrightarrow> fst x \<noteq> r" using post(2) assms(3) by force
  then have "takeWhile (\<lambda>(j, _). j \<noteq> r) (p_saved p) = pre @ (i, v) # takeWhile (\<lambda>(j, _). j \<noteq> r) post"
    using post(1) assms(3) by (simp add: takeWhile_append2 case_prod_unfold)
  then show ?thesis using assms(1) post
    by (auto simp: spec_revert_def holds_def split: option.splits dest!: set_takeWhileD intro!: exI [of _ "takeWhile (\<lambda>(j, _). j \<noteq> r) post"])
qed

lemma spec_holds:
  assumes "spec E op p = Inr (x, p')" and "keeps i op" and "holds i v pre p"
  shows "holds i v pre p'"
proof (cases op)
  case Snapshot
  then have p': "p' = p\<lparr>p_next := p_next p + 1, p_saved := p_saved p @ [(p_next p, p_view p)]\<rparr>" using assms(1) by simp
  from assms(3) obtain post where "p_saved p = pre @ (i, v) # post" "\<forall>x\<in>set pre. fst x < i" "\<forall>x\<in>set post. i < fst x" "i < p_next p"
    by (auto simp: holds_def)
  then show ?thesis unfolding p' holds_def by (intro exI [of _ "post @ [(p_next p, p_view p)]"]) auto
next
  case (RevertToSnapshot r)
  then show ?thesis using assms spec_revert_holds by (auto simp: ebind_Inr_iff)
next
  case (AddLog log)
  then show ?thesis using assms by (auto simp: put_def Let_def split: option.splits)
qed (use assms in \<open>auto simp: put_def put_acct_def get_acct_def ebind_Inr_iff Let_def split: if_splits\<close>)

lemma spec_run_holds:
  "spec_run E ops p = Inr (xs, p') \<Longrightarrow> list_all (keeps i) ops \<Longrightarrow> holds i v pre p \<Longrightarrow> holds i v pre p'"
proof (induction ops arbitrary: p xs)
  case (Cons op ops)
  then obtain x p1 ys where "spec E op p = Inr (x, p1)" "spec_run E ops p1 = Inr (ys, p')" by (auto simp: ebind_Inr_iff)
  then show ?case using Cons.IH [of p1 ys] Cons.prems(2,3) spec_holds by auto
qed simp

lemma holds_revert:
  assumes "holds i v pre p"
  shows "\<exists>p'. spec_revert i p = Inr p' \<and> p_view p' = v \<and> p_saved p' = pre"
proof -
  obtain post where post: "p_saved p = pre @ (i, v) # post" "\<forall>x\<in>set pre. fst x < i" using assms by (auto simp: holds_def)
  then have "\<And>x. x \<in> set pre \<Longrightarrow> fst x \<noteq> i" by force
  then have "takeWhile (\<lambda>(j, _). j \<noteq> i) (p_saved p) = pre" "map_of pre i = None"
    using post(1) by (auto simp: takeWhile_append2 case_prod_unfold map_of_eq_None_iff)
  then show ?thesis using post(1) by (simp add: spec_revert_def map_add_def)
qed

section \<open>The properties of the ledger\<close>

text \<open>A committed state with one account that holds coins and has no code.\<close>

definition sample_env :: ledger_env where
  "sample_env =
     \<lparr>copyOrNew = (\<lambda>x. case x of Some ia \<Rightarrow> ia
        | None \<Rightarrow> \<lparr>ia_Nonce = 0, ia_Balance = 0, ia_CodeHash = None, ia_StorageRoot = 0\<rparr>),
      innerChanged = (\<noteq>), keccak = (\<lambda>c. [1]), snapAccount = (\<lambda>a. None),
      trieAccount = (\<lambda>a. if a = 1 then Some \<lparr>ia_Nonce = 3, ia_Balance = 100, ia_CodeHash = None, ia_StorageRoot = 0\<rparr> else None),
      backendCode = (\<lambda>a h. None), snapStorage = (\<lambda>a k. None),
      trieStorage = (\<lambda>a ia k. if a = 1 \<and> k = [7] then Some [9] else None)\<rparr>"

lemma sample_env_ok: "env_ok sample_env"
  by (simp add: env_ok_def sample_env_def)

definition sample_ops :: "ledger_op list" where
  "sample_ops = [SubBalance 1 40, AddBalance 2 40, SetState 1 [7] (Some [5]), SetCode 2 (Some [96, 0, 96, 0]), AddSlotToAccessList 1 8,
     AddRefund 10, SetTransientState 2 1 4, Snapshot, SelfDestruct 1, RevertToSnapshot 1, SetNonce 2 1]"




lemma sample_spec_run:
  assumes "p_saved p = [(0, v)]" and "p_next p = 1" and "v_access (p_view p) = NewAccessList"
  shows "\<exists>q. spec_run E sample_ops p = Inr q"
  using assms
  by (simp add: sample_ops_def put_def put_acct_def on_view_def spec_revert_def NewAccessList_def AccessList_AddSlot_def)

lemma sample_run: "\<exists>rs l2. run sample_env sample_ops (snd (StateLedger_Snapshot (newStateLedger 5))) = Inr (rs, l2)"
proof -
  let ?l = "newStateLedger 5"
  let ?l1 = "snd (StateLedger_Snapshot ?l)"
  have "refines sample_env (step sample_env Snapshot ?l) (spec sample_env Snapshot (plain_of sample_env ?l))"
    by (rule step_refines [OF sample_env_ok newStateLedger_inv])
  then have l1: "ledger_inv sample_env ?l1"
    "plain_of sample_env ?l1 = (plain_of sample_env ?l)\<lparr>p_next := 1, p_saved := [(0, ledger_view sample_env ?l)]\<rparr>"
    by (auto simp: refines_def StateLedger_Snapshot_def plain_of_def newStateLedger_def)
  have "\<exists>q. spec_run sample_env sample_ops (plain_of sample_env ?l1) = Inr q"
    by (rule sample_spec_run) (simp_all add: l1(2), simp_all add: newStateLedger_def)
  then show ?thesis using run_refines [OF sample_env_ok l1(1), of sample_ops]
    by (cases "run sample_env sample_ops ?l1") (auto simp: refines_def)
qed


lemma onAccount_cached:
  "accounts l a = Some acc \<Longrightarrow> onAccount E f a l =
     putAccount a (fst (f (acc, changer l))) (l\<lparr>changer := snd (f (acc, changer l))\<rparr>)"
  by (simp add: onAccount_def StateLedger_GetOrCreateAccount_def StateLedger_GetAccount_def split: prod.split)

lemma readAccount_cached:
  "accounts l a = Some acc \<Longrightarrow> fst (readAccount E f a l) = fst (f acc)"
  by (simp add: readAccount_def StateLedger_GetOrCreateAccount_def StateLedger_GetAccount_def split: prod.split)

lemma RevertToSnapshot_last:
  assumes "validRevisions l = [\<lparr>rev_id = i, changerIndex = n\<rparr>]"
  shows "StateLedger_RevertToSnapshot E i l =
    ebind (stateChanger_revert E n l) (\<lambda>l1. Inr (l1\<lparr>validRevisions := []\<rparr>))"
  using assms by (simp add: StateLedger_RevertToSnapshot_def sortSearch.simps Let_def)

definition funded :: "ledger_env \<Rightarrow> address \<Rightarrow> int \<Rightarrow> bytes option \<Rightarrow> simple_account" where
  "funded E a b h = (NewAccount a)\<lparr>created := True,
     dirtyAccount := Some ((copyOrNew E None)\<lparr>ia_Balance := b, ia_CodeHash := h\<rparr>)\<rparr>"

lemma AddBalance_new:
  assumes E: "env_ok E" and new: "base_account E a = None" and b: "b \<noteq> 0"
    and l: "l = StateLedger_AddBalance E a b (newStateLedger h)"
  shows "accounts l a = Some (funded E a b None)" "changes (changer l) = [CreateObjectChange a, BalanceChange a 0]"
    "validRevisions l = []" "nextRevisionId l = 0"
proof -
  have old: "snapAccount E a = Some None \<or> snapAccount E a = None \<and> trieAccount E a = None"
    using new by (auto simp: base_account_def split: option.splits)
  have z: "(copyOrNew E None)\<lparr>ia_Balance := b, ia_CodeHash := None\<rparr> = (copyOrNew E None)\<lparr>ia_Balance := b\<rparr>"
    using E by (simp add: env_ok_def)
  show "accounts l a = Some (funded E a b None)" "changes (changer l) = [CreateObjectChange a, BalanceChange a 0]"
    "validRevisions l = []" "nextRevisionId l = 0"
    unfolding l funded_def z using old b
    by (auto simp: StateLedger_AddBalance_def onAccount_def StateLedger_GetOrCreateAccount_def StateLedger_GetAccount_def
        SimpleAccount_AddBalance_def SimpleAccount_SetBalance_def SimpleAccount_GetBalance_def newStateLedger_def
        NewAccount_def putAccount_def appendChange_def updDirty_def makeDirty_def newChanger_def Let_def)
qed

lemma funded_reads:
  assumes "env_ok E" and "b \<noteq> 0" and "accounts l a = Some (funded E a b h)"
  shows "fst (StateLedger_GetCodeHash E newHash a l) = newHash h"
    "h = None \<or> h = Some (keccak E []) \<Longrightarrow> fst (StateLedger_GetCode E a l) = None"
  unfolding StateLedger_GetCodeHash_def StateLedger_GetCode_def readAccount_cached [OF assms(3)]
  using assms(1,2)
  by (auto simp: SimpleAccount_IsEmpty_def funded_def SimpleAccount_Code_def NewAccount_def SimpleAccount_CodeHash_def
      SimpleAccount_GetBalance_def env_ok_def Let_def)

text \<open>
  C29: One thing does not come back: the code hash. An account that was created by receiving coins has no
  code hash; if code is stored for it and the transaction goes back, it has no code but its code
  hash is that of the empty code, so \<open>GetCodeHash\<close> answers differently before and after.
\<close>

theorem revert_leaves_code_hash:
  assumes E: "env_ok E" and new: "base_account E a = None" and b: "b \<noteq> 0"
    and l: "l = StateLedger_AddBalance E a b (newStateLedger h)"
  shows "fst (StateLedger_GetCodeHash E newHash a l) = newHash None \<and>
    (\<exists>l3. StateLedger_RevertToSnapshot E 0 (StateLedger_SetCode E a (Some c) (snd (StateLedger_Snapshot l))) = Inr l3 \<and>
       fst (StateLedger_GetCodeHash E newHash a l3) = newHash (Some (keccak E [])) \<and>
       fst (StateLedger_GetCode E a l3) = None)"
proof -
  note l0 = AddBalance_new [OF E new b l]
  define l2 where "l2 = StateLedger_SetCode E a (Some c) (snd (StateLedger_Snapshot l))"
  have "accounts (snd (StateLedger_Snapshot l)) a = Some (funded E a b None)" using l0 by (simp add: StateLedger_Snapshot_def)
  note set = onAccount_cached [OF this]
  have l2: "accounts l2 a = Some ((funded E a b (Some (keccak E c)))\<lparr>dirtyCode := Some c\<rparr>)"
    "changes (changer l2) = [CreateObjectChange a, BalanceChange a 0, CodeChange a None]"
    "validRevisions l2 = [\<lparr>rev_id = 0, changerIndex = 2\<rparr>]"
    unfolding l2_def StateLedger_SetCode_def set using l0
    by (simp_all add: SimpleAccount_SetCodeAndHash_def SimpleAccount_Code_def funded_def NewAccount_def
        SimpleAccount_CodeHash_def SimpleAccount_setCodeAndHash_def makeDirty_def updDirty_def codeKeccak_def
        StateLedger_Snapshot_def stateChanger_length_def putAccount_def)
  have "\<exists>l3. StateLedger_RevertToSnapshot E 0 l2 = Inr l3 \<and> accounts l3 a = Some (funded E a b (Some (keccak E [])))"
    unfolding RevertToSnapshot_last [OF l2(3)]
    by (simp add: stateChanger_revert_def l2(2) revertOne_def onAccount_cached [OF l2(1)] funded_def NewAccount_def
        SimpleAccount_setCodeAndHash_def makeDirty_def updDirty_def codeKeccak_def)
  then show ?thesis using funded_reads [OF E b] l0(1) unfolding l2_def by blast
qed

theorem revert_leaves_code_hash_witness:
  "fst (StateLedger_GetCodeHash sample_env (\<lambda>h. if h = None then 0 else 1) 2
     (StateLedger_AddBalance sample_env 2 5 (newStateLedger 1))) = 0 \<and>
   (\<exists>l3. StateLedger_RevertToSnapshot sample_env 0 (StateLedger_SetCode sample_env 2 (Some [96, 0, 96, 0])
       (snd (StateLedger_Snapshot (StateLedger_AddBalance sample_env 2 5 (newStateLedger 1))))) = Inr l3 \<and>
      fst (StateLedger_GetCodeHash sample_env (\<lambda>h. if h = None then 0 else 1) 2 l3) = 1 \<and>
      fst (StateLedger_GetCode sample_env 2 l3) = None)"
  using revert_leaves_code_hash [OF sample_env_ok _ _ refl, where a = 2 and b = 5 and h = 1 and
      newHash = "\<lambda>h. if h = None then 0 else 1" and c = "[96, 0, 96, 0]"]
  by (simp add: sample_env_def base_account_def)

text \<open>The access list a transaction starts with.\<close>

definition warm :: "address set \<Rightarrow> (address \<Rightarrow> hash set) \<Rightarrow> access_list \<Rightarrow> bool" where
  "warm A S al \<longleftrightarrow> al_inv al \<and> dom (addresses al) = A \<and> warm_slots al = S"

lemma warm_AddAddress:
  assumes "warm A S al"
  shows "warm (insert a A) S (snd (AccessList_AddAddress a al))"
proof -
  obtain b al' where add: "AccessList_AddAddress a al = (b, al')" by fastforce
  have "al_inv al'" using AccessList_AddAddress_inv(1) [OF add] assms by (simp add: warm_def)
  moreover have "dom (addresses al') = insert a (dom (addresses al))"
    using add by (auto simp: AccessList_AddAddress_def split: if_splits)
  moreover have "warm_slots al' = warm_slots al"
    using add by (auto simp: AccessList_AddAddress_def warm_slots_def fun_eq_iff split: if_splits option.split)
  ultimately show ?thesis using assms by (simp add: add warm_def)
qed

lemma warm_addresses: "warm A S al \<Longrightarrow> warm (A \<union> set xs) S (fold (\<lambda>a al. snd (AccessList_AddAddress a al)) xs al)"
proof (induction xs arbitrary: A al)
  case (Cons x xs)
  then show ?case using Cons.IH [OF warm_AddAddress [OF Cons.prems, of x]] by simp
qed simp

lemma warm_AddSlot:
  assumes "warm A S al"
  shows "\<exists>p al'. AccessList_AddSlot a s al = Inr (p, al') \<and> warm (insert a A) (S(a := insert s (S a))) al'"
  using AccessList_AddSlot_ok [of al a s] assms by (auto simp: warm_def)

lemma warm_keys:
  "warm A S al \<Longrightarrow> a \<in> A \<Longrightarrow>
    \<exists>al'. efold (\<lambda>key al. ebind (AccessList_AddSlot a key al) (\<lambda>(_, al1). Inr al1)) keys al = Inr al' \<and>
      warm A (S(a := S a \<union> set keys)) al'"
proof (induction keys arbitrary: S al)
  case (Cons k keys)
  from warm_AddSlot [OF Cons.prems(1), of a k] Cons.prems(2) obtain p al1 where
    al1: "AccessList_AddSlot a k al = Inr (p, al1)" "warm A (S(a := insert k (S a))) al1" by (auto simp: insert_absorb)
  have "(S(a := insert k (S a)))(a := (S(a := insert k (S a))) a \<union> set keys) = S(a := S a \<union> set (k # keys))" by simp
  from Cons.IH [OF al1(2) Cons.prems(2), unfolded this] show ?case by (cases p) (simp add: al1(1))
qed simp

lemma warm_tuples:
  "warm A S al \<Longrightarrow>
    \<exists>al'. efold (\<lambda>(addr, keys) al.
        efold (\<lambda>key al. ebind (AccessList_AddSlot addr key al) (\<lambda>(_, al1). Inr al1)) keys (snd (AccessList_AddAddress addr al)))
        tuples al = Inr al' \<and>
      warm (A \<union> fst ` set tuples) (\<lambda>a. S a \<union> \<Union> (set ` snd ` {t \<in> set tuples. fst t = a})) al'"
proof (induction tuples arbitrary: A S al)
  case (Cons t ts)
  obtain a keys where t: "t = (a, keys)" by fastforce
  from warm_keys [OF warm_AddAddress [OF Cons.prems, of a], of a keys] obtain al1 where
    al1: "efold (\<lambda>key al. ebind (AccessList_AddSlot a key al) (\<lambda>(_, al1). Inr al1)) keys (snd (AccessList_AddAddress a al)) = Inr al1"
      "warm (insert a A) (S(a := S a \<union> set keys)) al1" by auto
  have S: "(\<lambda>b. (S(a := S a \<union> set keys)) b \<union> \<Union> (set ` snd ` {t \<in> set ts. fst t = b})) =
      (\<lambda>b. S b \<union> \<Union> (set ` snd ` {t \<in> set ((a, keys) # ts). fst t = b}))"
    by (auto simp: fun_eq_iff)
  from Cons.IH [OF al1(2)] show ?case unfolding t S by (simp add: al1(1) Un_insert_left)
qed simp

text \<open>
  C23: A transaction starts with the right access list. Under the Berlin rules, preparing a transaction
  always succeeds, whatever the list of the transaction holds and in whatever order; afterwards exactly
  the sender, the recipient, the precompiled contracts and the listed addresses are warm, of the slots
  exactly the listed ones, and no transient storage is left of an earlier transaction.
\<close>

theorem Prepare_warms:
  "\<exists>l'. EvmStateDBAdaptor_Prepare True sender dst precompiles tuples l = Inr l' \<and>
     (\<forall>a. StateLedger_AddressInAccessList a l' \<longleftrightarrow>
        a = sender \<or> dst = Some a \<or> a \<in> set precompiles \<or> a \<in> fst ` set tuples) \<and>
     (\<forall>a s. StateLedger_SlotInAccessList a s l' =
        Inr (StateLedger_AddressInAccessList a l', (\<exists>keys. (a, keys) \<in> set tuples \<and> s \<in> set keys))) \<and>
     (\<forall>a k. EvmStateDBAdaptor_GetTransientState a k l' = 0)"
proof -
  let ?add = "\<lambda>a al. snd (AccessList_AddAddress a al)"
  let ?A = "insert sender (set_option dst)"
  have "warm {} (\<lambda>_. {}) NewAccessList"
    by (simp add: warm_def NewAccessList_def warm_slots_def al_inv_def fun_eq_iff)
  note w = warm_AddAddress [OF this, of sender]
  have "warm ?A (\<lambda>_. {}) (case dst of None \<Rightarrow> ?add sender NewAccessList | Some a \<Rightarrow> ?add a (?add sender NewAccessList))"
    using w warm_AddAddress [OF w] by (cases dst) (simp_all add: insert_commute)
  from warm_tuples [OF warm_addresses [OF this, of precompiles], of tuples] obtain al where
    al: "warmUp sender dst precompiles tuples NewAccessList = Inr al"
      "warm (?A \<union> set precompiles \<union> fst ` set tuples) (\<lambda>a. \<Union> (set ` snd ` {t \<in> set tuples. fst t = a})) al"
    by (auto simp: warmUp_def Let_def)
  then have "AccessList_ContainsAddress a al \<longleftrightarrow> a = sender \<or> dst = Some a \<or> a \<in> set precompiles \<or> a \<in> fst ` set tuples" for a
    by (auto simp: warm_def AccessList_ContainsAddress_def dom_def set_eq_iff)
  moreover have "AccessList_Contains a s al = Inr (AccessList_ContainsAddress a al, \<exists>keys. (a, keys) \<in> set tuples \<and> s \<in> set keys)" for a s
    using al(2) by (auto simp: warm_def AccessList_Contains_warm AccessList_ContainsAddress_def fun_eq_iff)
  ultimately show ?thesis
    by (simp add: EvmStateDBAdaptor_Prepare_def al(1) StateLedger_AddressInAccessList_def StateLedger_SlotInAccessList_def
        EvmStateDBAdaptor_GetTransientState_def transientStorage_Get_def newTransientStorage_def)
qed

end
