(* ===== verification/Whitelist.thy ===== *)
theory Whitelist
  imports Chain_State "HOL-Library.List_Lexorder" "HOL-Library.Char_ord"
begin

text \<open>
  The access whitelist (\<open>src/internal/executor/system/access/whitelist.go\<close>): providers vouch for
  users, a user is verified while some provider vouches for it or if it is a super user of the
  genesis block. The contract refines the plain relation \<open>provider vouches for user\<close>.
\<close>

section \<open>State\<close>

record auth_info =
  ai_Addr :: address
  Providers :: "address list"
  Role :: u8

record provider_info =
  pv_Addr :: address

datatype wl_event =
    EventSubmit address "address list"
  | EventRemove address "address list"
  | EventUpdateProviders bool "provider_info list"

record whitelist_state =
  authInfos :: "address \<rightharpoonup> auth_info"
  providerInfos :: "address \<rightharpoonup> provider_info"
  wl_logs :: "wl_event list"

datatype wl_error =
    ErrProviderPermission
  | SubmitSuperUser
  | RemoveSuperUser address
  | RemoveNoPermission
  | RemoveNotExist address
  | NotSuperUser
  | NotInWhitelist
  | ProviderAlreadyExist address
  | ProviderNotExist address

definition AuthUserRoleBasic :: u8 where
  "AuthUserRoleBasic = 0"

definition AuthUserRoleSuper :: u8 where
  "AuthUserRoleSuper = 1"

definition putAuth :: "address \<Rightarrow> auth_info \<Rightarrow> whitelist_state \<Rightarrow> whitelist_state" where
  "putAuth addr info w = w\<lparr>authInfos := (authInfos w)(addr \<mapsto> info)\<rparr>"

definition putProvider :: "address \<Rightarrow> provider_info \<Rightarrow> whitelist_state \<Rightarrow> whitelist_state" where
  "putProvider addr info w = w\<lparr>providerInfos := (providerInfos w)(addr \<mapsto> info)\<rparr>"

definition emitWl :: "wl_event \<Rightarrow> whitelist_state \<Rightarrow> whitelist_state" where
  "emitWl e w = w\<lparr>wl_logs := wl_logs w @ [e]\<rparr>"

section \<open>Operations\<close>

text \<open>\<open>hexToAddress\<close> is the function of that name of go-ethereum; \<open>lo.Union\<close> keeps first occurrences.\<close>

definition Whitelist_GenesisInit ::
  "(string \<Rightarrow> address) \<Rightarrow> genesis_config \<Rightarrow> whitelist_state \<Rightarrow> whitelist_state" where
  "Whitelist_GenesisInit hexToAddress genesis w =
     (let admins = map cm_Address (CouncilMembers genesis);
          accounts = map acc_Address (Accounts genesis);
          initVerifiedUsers = sort (uniq (admins @ WhitelistProviders genesis @ accounts));
          w1 = fold (\<lambda>addrStr w. let addr = hexToAddress addrStr in
                 putAuth addr \<lparr>ai_Addr = addr, Providers = [], Role = AuthUserRoleSuper\<rparr> w) initVerifiedUsers w
      in fold (\<lambda>addrStr w. let addr = hexToAddress addrStr in putProvider addr \<lparr>pv_Addr = addr\<rparr> w)
           (sort (WhitelistProviders genesis)) w1)"

definition Whitelist_checkProviderPermission :: "vm_ctx \<Rightarrow> whitelist_state \<Rightarrow> wl_error + unit" where
  "Whitelist_checkProviderPermission ctx w =
     (if providerInfos w (ctx_From ctx) = None then Inl ErrProviderPermission else Inr ())"

definition submitOne :: "address \<Rightarrow> address \<Rightarrow> whitelist_state \<Rightarrow> wl_error + whitelist_state" where
  "submitOne from addr w =
     (case authInfos w addr of
        Some authInfo \<Rightarrow>
          if Role authInfo = AuthUserRoleSuper then Inl SubmitSuperUser
          else if from \<in> set (Providers authInfo) then Inr w
          else Inr (putAuth addr (authInfo\<lparr>Providers := Providers authInfo @ [from]\<rparr>) w)
      | None \<Rightarrow> Inr (putAuth addr \<lparr>ai_Addr = addr, Providers = [from], Role = AuthUserRoleBasic\<rparr> w))"

definition Whitelist_Submit :: "vm_ctx \<Rightarrow> address list \<Rightarrow> whitelist_state \<Rightarrow> wl_error + whitelist_state" where
  "Whitelist_Submit ctx addresses w =
     ebind (Whitelist_checkProviderPermission ctx w) (\<lambda>_.
     ebind (efold (submitOne (ctx_From ctx)) addresses w) (\<lambda>w1.
     Inr (emitWl (EventSubmit (ctx_From ctx) addresses) w1)))"

definition removeOne :: "address \<Rightarrow> address \<Rightarrow> whitelist_state \<Rightarrow> wl_error + whitelist_state" where
  "removeOne from addr w =
     (case authInfos w addr of
        None \<Rightarrow> Inl (RemoveNotExist addr)
      | Some authInfo \<Rightarrow>
          if Role authInfo = AuthUserRoleSuper then Inl (RemoveSuperUser addr)
          else if from \<notin> set (Providers authInfo) then Inl RemoveNoPermission
          else
            let providers = filter (\<lambda>p. p \<noteq> from) (Providers authInfo) in
            if providers = [] then Inr (w\<lparr>authInfos := (authInfos w)(addr := None)\<rparr>)
            else Inr (putAuth addr (authInfo\<lparr>Providers := providers\<rparr>) w))"

definition Whitelist_Remove :: "vm_ctx \<Rightarrow> address list \<Rightarrow> whitelist_state \<Rightarrow> wl_error + whitelist_state" where
  "Whitelist_Remove ctx addresses w =
     ebind (Whitelist_checkProviderPermission ctx w) (\<lambda>_.
     ebind (efold (removeOne (ctx_From ctx)) addresses w) (\<lambda>w1.
     Inr (emitWl (EventRemove (ctx_From ctx) addresses) w1)))"

text \<open>The guard the two queries share; a missing entry is the zero value of the struct.\<close>

definition superOnly :: "vm_ctx \<Rightarrow> whitelist_state \<Rightarrow> wl_error + unit" where
  "superOnly ctx w =
     (if ctx_CallFromSystem ctx then Inr ()
      else case authInfos w (ctx_From ctx) of
        None \<Rightarrow> Inl NotSuperUser
      | Some info \<Rightarrow> if Role info \<noteq> AuthUserRoleSuper then Inl NotSuperUser else Inr ())"

definition Whitelist_QueryAuthInfo :: "vm_ctx \<Rightarrow> address \<Rightarrow> whitelist_state \<Rightarrow> wl_error + auth_info" where
  "Whitelist_QueryAuthInfo ctx addr w =
     ebind (superOnly ctx w) (\<lambda>_.
     Inr (case authInfos w addr of None \<Rightarrow> \<lparr>ai_Addr = 0, Providers = [], Role = 0\<rparr> | Some info \<Rightarrow> info))"

definition Whitelist_QueryProviderInfo :: "vm_ctx \<Rightarrow> address \<Rightarrow> whitelist_state \<Rightarrow> wl_error + provider_info" where
  "Whitelist_QueryProviderInfo ctx addr w =
     ebind (superOnly ctx w) (\<lambda>_.
     Inr (case providerInfos w addr of None \<Rightarrow> \<lparr>pv_Addr = 0\<rparr> | Some info \<Rightarrow> info))"

definition Whitelist_ExistProvider :: "address \<Rightarrow> whitelist_state \<Rightarrow> bool" where
  "Whitelist_ExistProvider addr w \<longleftrightarrow> providerInfos w addr \<noteq> None"

definition Whitelist_Verify :: "address \<Rightarrow> whitelist_state \<Rightarrow> wl_error + unit" where
  "Whitelist_Verify user w = (if authInfos w user = None then Inl NotInWhitelist else Inr ())"

text \<open>The loop stops at the first error and what it has written until then stays written.\<close>

fun updateEach :: "bool \<Rightarrow> provider_info list \<Rightarrow> whitelist_state \<Rightarrow> whitelist_state \<times> wl_error option" where
  "updateEach isAdd [] w = (w, None)"
| "updateEach isAdd (provider # providers) w =
     (let addr = pv_Addr provider in
      if isAdd then
        if providerInfos w addr \<noteq> None then (w, Some (ProviderAlreadyExist addr))
        else updateEach isAdd providers (putProvider addr provider w)
      else
        if providerInfos w addr = None then (w, Some (ProviderNotExist addr))
        else updateEach isAdd providers (w\<lparr>providerInfos := (providerInfos w)(addr := None)\<rparr>))"

definition Whitelist_UpdateProviders ::
  "bool \<Rightarrow> provider_info list \<Rightarrow> whitelist_state \<Rightarrow> whitelist_state \<times> wl_error option" where
  "Whitelist_UpdateProviders isAdd providers w =
     (case updateEach isAdd providers w of
        (w1, Some e) \<Rightarrow> (w1, Some e)
      | (w1, None) \<Rightarrow> (emitWl (EventUpdateProviders isAdd providers) w1, None))"

section \<open>The plain relation\<close>

record vouching =
  supers :: "address set"
  provs :: "address set"
  vouch :: "(address \<times> address) set"

definition vouching_of :: "whitelist_state \<Rightarrow> vouching" where
  "vouching_of w =
     \<lparr>supers = {a. \<exists>info. authInfos w a = Some info \<and> Role info = AuthUserRoleSuper},
      provs = dom (providerInfos w),
      vouch = {(p, a). \<exists>info. authInfos w a = Some info \<and> Role info = AuthUserRoleBasic \<and> p \<in> set (Providers info)}\<rparr>"

definition wl_inv :: "whitelist_state \<Rightarrow> bool" where
  "wl_inv w \<longleftrightarrow> (\<forall>a info. authInfos w a = Some info \<longrightarrow> ai_Addr info = a \<and>
     (Role info = AuthUserRoleSuper \<or> Role info = AuthUserRoleBasic \<and> Providers info \<noteq> [] \<and> distinct (Providers info)))"

lemma roles [simp]: "AuthUserRoleSuper \<noteq> AuthUserRoleBasic" "AuthUserRoleBasic \<noteq> AuthUserRoleSuper"
  by (simp_all add: AuthUserRoleSuper_def AuthUserRoleBasic_def)

lemma vouching_simps:
  "a \<in> supers (vouching_of w) \<longleftrightarrow> (\<exists>info. authInfos w a = Some info \<and> Role info = AuthUserRoleSuper)"
  "p \<in> provs (vouching_of w) \<longleftrightarrow> providerInfos w p \<noteq> None"
  "(p, a) \<in> vouch (vouching_of w) \<longleftrightarrow>
     (\<exists>info. authInfos w a = Some info \<and> Role info = AuthUserRoleBasic \<and> p \<in> set (Providers info))"
  by (auto simp: vouching_of_def)

lemma vouching_eqI:
  assumes "\<And>a. a \<in> supers v \<longleftrightarrow> a \<in> supers v'" "\<And>p. p \<in> provs v \<longleftrightarrow> p \<in> provs v'"
    "\<And>p a. (p, a) \<in> vouch v \<longleftrightarrow> (p, a) \<in> vouch v'"
  shows "(v :: vouching) = v'"
  using assms by (intro vouching.equality) auto

lemma wl_inv_cases:
  assumes "wl_inv w"
  obtains "authInfos w a = None" | info where "authInfos w a = Some info" "Role info = AuthUserRoleSuper" "ai_Addr info = a"
  | info where "authInfos w a = Some info" "Role info = AuthUserRoleBasic" "Providers info \<noteq> []" "distinct (Providers info)" "ai_Addr info = a"
  using assms by (cases "authInfos w a") (auto simp: wl_inv_def)

lemma wl_inv_put:
  assumes "wl_inv w" and "ai_Addr info = a" and "Role info = AuthUserRoleBasic" and "Providers info \<noteq> []" and "distinct (Providers info)"
  shows "wl_inv (putAuth a info w)"
  using assms by (auto simp: wl_inv_def putAuth_def)

text \<open>One address of a submission and of a removal.\<close>

lemma submitOne_spec:
  assumes inv: "wl_inv w"
  shows "if a \<in> supers (vouching_of w) then submitOne p a w = Inl SubmitSuperUser
    else \<exists>w'. submitOne p a w = Inr w' \<and> wl_inv w' \<and> vouching_of w' = (vouching_of w)\<lparr>vouch := insert (p, a) (vouch (vouching_of w))\<rparr>"
  using inv
proof (cases rule: wl_inv_cases [where a = a])
  case 1
  then show ?thesis using wl_inv_put [OF inv, of "\<lparr>ai_Addr = a, Providers = [p], Role = AuthUserRoleBasic\<rparr>" a]
    by (auto simp: submitOne_def vouching_simps putAuth_def intro!: vouching_eqI split: if_splits)
next
  case (2 info)
  then show ?thesis by (auto simp: submitOne_def vouching_simps)
next
  case (3 info)
  show ?thesis
  proof (cases "p \<in> set (Providers info)")
    case True
    then show ?thesis using 3 inv by (auto simp: submitOne_def vouching_simps intro!: vouching_eqI)
  next
    case False
    then show ?thesis using 3 wl_inv_put [OF inv, of "info\<lparr>Providers := Providers info @ [p]\<rparr>" a]
      by (auto simp: submitOne_def vouching_simps putAuth_def intro!: vouching_eqI split: if_splits)
  qed
qed

lemma removeOne_spec:
  assumes inv: "wl_inv w"
  shows "if (p, a) \<notin> vouch (vouching_of w) then \<exists>e. removeOne p a w = Inl e
    else \<exists>w'. removeOne p a w = Inr w' \<and> wl_inv w' \<and> vouching_of w' = (vouching_of w)\<lparr>vouch := vouch (vouching_of w) - {(p, a)}\<rparr>"
  using inv
proof (cases rule: wl_inv_cases [where a = a])
  case 1
  then show ?thesis by (auto simp: removeOne_def vouching_simps)
next
  case (2 info)
  then show ?thesis by (auto simp: removeOne_def vouching_simps)
next
  case (3 info)
  let ?ps = "filter (\<lambda>q. q \<noteq> p) (Providers info)"
  show ?thesis
  proof (cases "p \<in> set (Providers info)")
    case False
    then show ?thesis using 3 by (auto simp: removeOne_def vouching_simps)
  next
    case in_set: True
    show ?thesis
    proof (cases "?ps = []")
      case True
      then have "set (Providers info) = {p}" using in_set unfolding filter_empty_conv by blast
      moreover have "removeOne p a w = Inr (w\<lparr>authInfos := (authInfos w)(a := None)\<rparr>)"
        using 3 in_set True by (simp add: removeOne_def Let_def)
      moreover have "wl_inv (w\<lparr>authInfos := (authInfos w)(a := None)\<rparr>)" using inv by (auto simp: wl_inv_def)
      ultimately show ?thesis using 3 in_set by (auto simp: vouching_simps intro!: vouching_eqI split: if_splits)
    next
      case False
      then have "removeOne p a w = Inr (putAuth a (info\<lparr>Providers := ?ps\<rparr>) w)"
        using 3 in_set by (simp add: removeOne_def Let_def)
      then show ?thesis using 3 in_set False wl_inv_put [OF inv, of "info\<lparr>Providers := ?ps\<rparr>" a]
        by (auto simp: vouching_simps putAuth_def intro!: vouching_eqI split: if_splits)
    qed
  qed
qed

lemma submit_all:
  "wl_inv w \<Longrightarrow>
    if set as \<inter> supers (vouching_of w) \<noteq> {} then efold (submitOne p) as w = Inl SubmitSuperUser
    else \<exists>w'. efold (submitOne p) as w = Inr w' \<and> wl_inv w' \<and>
      vouching_of w' = (vouching_of w)\<lparr>vouch := vouch (vouching_of w) \<union> {p} \<times> set as\<rparr>"
proof (induction as arbitrary: w)
  case (Cons a as)
  show ?case
  proof (cases "a \<in> supers (vouching_of w)")
    case False
    then obtain w1 where w1: "submitOne p a w = Inr w1" "wl_inv w1"
      "vouching_of w1 = (vouching_of w)\<lparr>vouch := insert (p, a) (vouch (vouching_of w))\<rparr>"
      using submitOne_spec [OF Cons.prems, of a p] by auto
    have "insert (p, a) (vouch (vouching_of w)) \<union> {p} \<times> set as = vouch (vouching_of w) \<union> {p} \<times> set (a # as)" by auto
    then show ?thesis using Cons.IH [OF w1(2)] w1 False by auto
  qed (use submitOne_spec [OF Cons.prems, of a p] in auto)
qed simp

lemma remove_all:
  "wl_inv w \<Longrightarrow>
    if distinct as \<and> {p} \<times> set as \<subseteq> vouch (vouching_of w)
    then \<exists>w'. efold (removeOne p) as w = Inr w' \<and> wl_inv w' \<and>
      vouching_of w' = (vouching_of w)\<lparr>vouch := vouch (vouching_of w) - {p} \<times> set as\<rparr>
    else \<exists>e. efold (removeOne p) as w = Inl e"
proof (induction as arbitrary: w)
  case (Cons a as)
  show ?case
  proof (cases "(p, a) \<in> vouch (vouching_of w)")
    case True
    then obtain w1 where w1: "removeOne p a w = Inr w1" "wl_inv w1"
      "vouching_of w1 = (vouching_of w)\<lparr>vouch := vouch (vouching_of w) - {(p, a)}\<rparr>"
      using removeOne_spec [OF Cons.prems, of p a] by auto
    have "vouch (vouching_of w) - {(p, a)} - {p} \<times> set as = vouch (vouching_of w) - {p} \<times> set (a # as)" by auto
    moreover have "distinct (a # as) \<and> {p} \<times> set (a # as) \<subseteq> vouch (vouching_of w) \<longleftrightarrow>
        distinct as \<and> {p} \<times> set as \<subseteq> vouch (vouching_of w1)" using True w1(3) by auto
    ultimately show ?thesis using Cons.IH [OF w1(2)] w1 by auto
  qed (use removeOne_spec [OF Cons.prems, of p a] in auto)
qed simp

section \<open>The contract refines the relation\<close>

datatype wl_call =
    SubmitCall vm_ctx "address list"
  | RemoveCall vm_ctx "address list"
  | UpdateCall bool "provider_info list"

fun wl_exec :: "wl_call \<Rightarrow> whitelist_state \<Rightarrow> wl_error + whitelist_state" where
  "wl_exec (SubmitCall ctx addresses) w = Whitelist_Submit ctx addresses w"
| "wl_exec (RemoveCall ctx addresses) w = Whitelist_Remove ctx addresses w"
| "wl_exec (UpdateCall isAdd providers) w = Inr (fst (Whitelist_UpdateProviders isAdd providers w))"

fun update_provs :: "bool \<Rightarrow> address list \<Rightarrow> address set \<Rightarrow> address set" where
  "update_provs isAdd [] P = P"
| "update_provs isAdd (p # ps) P =
     (if (p \<in> P) = isAdd then P else update_provs isAdd ps (if isAdd then insert p P else P - {p}))"

fun wl_spec :: "wl_call \<Rightarrow> vouching \<Rightarrow> unit + vouching" where
  "wl_spec (SubmitCall ctx addresses) v =
     (if ctx_From ctx \<in> provs v \<and> set addresses \<inter> supers v = {}
      then Inr (v\<lparr>vouch := vouch v \<union> {ctx_From ctx} \<times> set addresses\<rparr>) else Inl ())"
| "wl_spec (RemoveCall ctx addresses) v =
     (if ctx_From ctx \<in> provs v \<and> distinct addresses \<and> {ctx_From ctx} \<times> set addresses \<subseteq> vouch v
      then Inr (v\<lparr>vouch := vouch v - {ctx_From ctx} \<times> set addresses\<rparr>) else Inl ())"
| "wl_spec (UpdateCall isAdd providers) v = Inr (v\<lparr>provs := update_provs isAdd (map pv_Addr providers) (provs v)\<rparr>)"

lemma vouching_emit [simp]: "vouching_of (emitWl e w) = vouching_of w" "wl_inv (emitWl e w) = wl_inv w"
  by (simp_all add: emitWl_def vouching_of_def wl_inv_def)

lemma updateEach_spec:
  "wl_inv w \<Longrightarrow> wl_inv (fst (updateEach isAdd ps w)) \<and>
    vouching_of (fst (updateEach isAdd ps w)) = (vouching_of w)\<lparr>provs := update_provs isAdd (map pv_Addr ps) (provs (vouching_of w))\<rparr>"
proof (induction isAdd ps w rule: updateEach.induct)
  case (2 isAdd p ps w)
  let ?a = "pv_Addr p"
  let ?w = "if isAdd then putProvider ?a p w else w\<lparr>providerInfos := (providerInfos w)(?a := None)\<rparr>"
  have inv: "wl_inv ?w" using 2 by (auto simp: wl_inv_def putProvider_def)
  have v: "vouching_of ?w = (vouching_of w)\<lparr>provs := if isAdd then insert ?a (provs (vouching_of w)) else provs (vouching_of w) - {?a}\<rparr>"
    by (auto simp: vouching_of_def putProvider_def)
  show ?case
  proof (cases "(providerInfos w ?a \<noteq> None) = isAdd")
    case True
    then show ?thesis using 2 by (auto simp: Let_def vouching_of_def)
  next
    case False
    then have "updateEach isAdd (p # ps) w = updateEach isAdd ps ?w" by (auto simp: Let_def)
    moreover have "(?a \<in> provs (vouching_of w)) \<noteq> isAdd" using False by (auto simp: vouching_simps)
    ultimately show ?thesis using 2 False inv v by (cases isAdd) (auto simp: Let_def)
  qed
qed simp

lemma wl_exec_spec:
  assumes inv: "wl_inv w"
  shows "Sum_Type.map_sum (\<lambda>_. ()) vouching_of (wl_exec c w) = wl_spec c (vouching_of w)"
    "wl_exec c w = Inr w' \<Longrightarrow> wl_inv w'"
proof -
  have "Sum_Type.map_sum (\<lambda>_. ()) vouching_of (wl_exec c w) = wl_spec c (vouching_of w) \<and> (\<forall>w'. wl_exec c w = Inr w' \<longrightarrow> wl_inv w')"
  proof (cases c)
    case (SubmitCall ctx as)
    then show ?thesis using submit_all [OF inv, of as "ctx_From ctx"]
      by (auto simp: Whitelist_Submit_def Whitelist_checkProviderPermission_def vouching_simps(2) split: if_splits)
  next
    case (RemoveCall ctx as)
    then show ?thesis using remove_all [OF inv, of as "ctx_From ctx"]
      by (auto simp: Whitelist_Remove_def Whitelist_checkProviderPermission_def vouching_simps(2) split: if_splits)
  next
    case (UpdateCall isAdd ps)
    then show ?thesis using updateEach_spec [OF inv, of isAdd ps]
      by (auto simp: Whitelist_UpdateProviders_def split: prod.splits option.splits)
  qed
  then show "Sum_Type.map_sum (\<lambda>_. ()) vouching_of (wl_exec c w) = wl_spec c (vouching_of w)"
    "wl_exec c w = Inr w' \<Longrightarrow> wl_inv w'" by auto
qed

interpretation whitelist: contract_machine wl_exec "\<lambda>_. True" wl_inv
  by unfold_locales (rule wl_exec_spec(2))

lemma wl_run_spec: "wl_inv w \<Longrightarrow> vouching_of (run_txs wl_exec cs w) = run_txs wl_spec cs (vouching_of w)"
proof (induction cs arbitrary: w)
  case (Cons c cs)
  have "vouching_of (apply_tx wl_exec c w) = apply_tx wl_spec c (vouching_of w)"
    using wl_exec_spec(1) [OF Cons.prems, of c] by (auto simp: apply_tx_def split: sum.splits)
  then show ?case using Cons.IH whitelist.apply_tx_inv [OF Cons.prems, of c] by simp
qed simp

lemma verify_spec:
  assumes "wl_inv w"
  shows "Whitelist_Verify a w = Inr () \<longleftrightarrow> a \<in> supers (vouching_of w) \<or> (\<exists>p. (p, a) \<in> vouch (vouching_of w))"
  using assms by (cases rule: wl_inv_cases [where a = a]) (auto simp: Whitelist_Verify_def vouching_simps dest: hd_in_set)

text \<open>
  C13: The whitelist is the relation \<open>provider vouches for user\<close>. Whatever calls anybody makes, in whatever
  order, failing ones included: a submission by a provider adds exactly its own vouching for the
  listed users, a removal takes exactly its own vouching away and only if it vouched for all of them,
  calls by others and calls that touch a super user change nothing; and a user passes
  the check exactly if it is a super user of the genesis block or some provider vouches for it.
\<close>

theorem whitelist_refines_vouching:
  assumes "wl_inv w"
  shows "vouching_of (run_txs wl_exec cs w) = run_txs wl_spec cs (vouching_of w) \<and>
    (Whitelist_Verify a (run_txs wl_exec cs w) = Inr () \<longleftrightarrow>
      a \<in> supers (run_txs wl_spec cs (vouching_of w)) \<or> (\<exists>p. (p, a) \<in> vouch (run_txs wl_spec cs (vouching_of w))))"
proof (intro conjI)
  show "vouching_of (run_txs wl_exec cs w) = run_txs wl_spec cs (vouching_of w)" by (rule wl_run_spec [OF assms])
  then show "Whitelist_Verify a (run_txs wl_exec cs w) = Inr () \<longleftrightarrow>
      a \<in> supers (run_txs wl_spec cs (vouching_of w)) \<or> (\<exists>p. (p, a) \<in> vouch (run_txs wl_spec cs (vouching_of w)))"
    using verify_spec [OF whitelist.run_txs_inv [OF assms], of cs a] by (simp add: list_all_iff)
qed

definition wl_example :: whitelist_state where
  "wl_example = \<lparr>authInfos = [1 \<mapsto> \<lparr>ai_Addr = 1, Providers = [], Role = AuthUserRoleSuper\<rparr>],
     providerInfos = [2 \<mapsto> \<lparr>pv_Addr = 2\<rparr>], wl_logs = []\<rparr>"

definition wl_from :: "address \<Rightarrow> vm_ctx" where
  "wl_from a = \<lparr>ctx_From = a, ctx_Value = None, ctx_CallFromSystem = False, ctx_Time = 0, ctx_BlockNumber = 7\<rparr>"

theorem whitelist_refines_vouching_witness:
  "Whitelist_Verify 5 (run_txs wl_exec [SubmitCall (wl_from 2) [5, 6], RemoveCall (wl_from 3) [5], RemoveCall (wl_from 2) [6]]
     wl_example) = Inr ()"
proof -
  have "wl_inv wl_example" by (simp add: wl_inv_def wl_example_def)
  note eq = whitelist_refines_vouching [OF this, THEN conjunct2]
  have "vouching_of wl_example = \<lparr>supers = {1}, provs = {2}, vouch = {}\<rparr>"
    by (auto simp: vouching_of_def wl_example_def split: if_splits)
  then show ?thesis unfolding eq by (simp add: apply_tx_def wl_from_def)
qed

end
