(* ===== verification/Governance.thy ===== *)
theory Governance
  imports Node_Manager Whitelist
begin

text \<open>
  The governance contract (\<open>src/internal/executor/system/governance\<close>): proposals, the council that votes
  on them, and what an approved proposal of each type does to the other contracts. A proposal that
  passed its deadline is closed by the next call.
\<close>

section \<open>Errors\<close>

datatype proposal_type =
    CouncilElect | NodeUpgrade | NodeRegister | NodeRemove | WhitelistProviderAdd | WhitelistProviderRemove
  | GasUpdate | ChainParamUpgrade

datatype proposal_error =
    ErrVoteResult | ErrProposalType | ErrUseHasVoted | ErrTitle | ErrTooLongTitle | ErrDesc | ErrTooLongDesc
  | ErrBlockNumber | ErrProposalFinished | ErrBlockNumberOutDate | ErrNotFoundProposal
  | NoProposePermission proposal_type | NoVotePermission proposal_type | UnmarshalExtra | UnknownProposalType

datatype council_error =
    ErrMinCouncilMembersCount | ErrRepeatedAddress | ErrRepeatedName | ErrExistNotFinishedProposal
  | InvalidCouncilMemberAddress string

datatype param_error =
    ErrExistNotFinishedGasProposal | ErrExistNotFinishedCouncilProposal | ErrRepeatedGasInfo | ErrChainParamInvalid
  | ErrRepeatedChainParam | ErrExistNotFinishedChainParamProposal

datatype provider_error =
    ErrExistVotingProposal | EmptyProviders | InvalidProviderAddress string | ProviderAddressRepeated
  | ProviderExists address | ProviderMissing address

datatype node_proposal_error =
    P2PSignature | ConsensusSignature | ConsensusKeyRegistered string | P2PKeyRegistered string
  | NameRegistered string | NodeAlreadyExited u64 | RemoveAlreadyProposed u64 | RepeatedDownloadUrl

datatype gov_error =
    SlotMissing
  | ProposalErr proposal_error
  | CouncilErr council_error
  | ParamErr param_error
  | ProviderErr provider_error
  | NodeProposalErr node_proposal_error
  | FrameworkErr error
  | WhitelistErr wl_error

definition framework :: "error + 'a \<Rightarrow> gov_error + 'a" where
  "framework r = (case r of Inl e \<Rightarrow> Inl (FrameworkErr e) | Inr x \<Rightarrow> Inr x)"

section \<open>State\<close>

datatype proposal_status = Voting | Approved | Rejected

record proposal =
  pr_ID :: u64
  pr_Type :: proposal_type
  Strategy :: u8
  Proposer :: string
  Title :: string
  pr_Desc :: string
  BlockNumber :: u64
  TotalVotes :: u64
  PassVotes :: "string list"
  RejectVotes :: "string list"
  pr_Status :: proposal_status
  Extra :: bytes
  CreatedBlockNumber :: u64
  EffectiveBlockNumber :: u64
  ExecuteSuccess :: bool
  ExecuteFailedMsg :: "gov_error option"

record not_finished_proposal =
  nf_ID :: u64
  DeadlineBlockNumber :: u64
  nf_Type :: proposal_type

text \<open>
  The storage of the contract; \<open>Council\<close> is a struct with the list of members, and the maps of the
  node proposals hold empty structs.
\<close>

record gov_state =
  council :: "council_member list option"
  nextProposalID :: "u64 option"
  proposals :: "u64 \<rightharpoonup> proposal"
  notFinishedProposals :: "not_finished_proposal list option"
  pendingNameIndex :: "string \<rightharpoonup> unit"
  pendingP2PIDIndex :: "string \<rightharpoonup> unit"
  pendingConsensusPubKeyIndex :: "string \<rightharpoonup> unit"
  pendingRemoveNodeIDIndex :: "u64 \<rightharpoonup> unit"

datatype gov_event =
    EventPropose u64 proposal_type address proposal
  | EventVote u64 proposal_type address proposal

text \<open>The contract and the two it calls, its log and the gas cost it asks for.\<close>

record gov_world =
  fw :: world
  gov :: gov_state
  wl :: whitelist_state
  gov_logs :: "gov_event list"
  gasCost :: "u64 option"

section \<open>What the contract is given\<close>

record chain_param_args =
  cp_EpochPeriod :: u64
  cp_MaxValidatorNum :: u64
  cp_BlockMaxTxNum :: u64
  cp_EnableTimedGenEmptyBlock :: bool
  cp_AbnormalNodeExcludeView :: u64
  cp_AgainProposeIntervalBlockInValidatorsNumPercentage :: u64
  cp_ContinuousNullRequestToleranceNumber :: u64
  cp_RebroadcastToleranceNumber :: u64

record node_register_sign =
  rs_ConsensusPubKey :: string
  rs_P2PPubKey :: string
  rs_MetaData :: node_meta

record node_register_args = node_register_sign +
  ConsensusPrivateKeySignature :: string
  P2PPrivateKeySignature :: string

record node_upgrade_args =
  DownloadUrls :: "string list"
  CheckHash :: string

text \<open>
  Functions of the libraries: the printed form of an address and its parsers (go-ethereum), the
  JSON decoders of the arguments of each proposal type (\<open>None\<close>: not valid JSON for the type), the key
  parsers of \<open>Node_Registry.thy\<close>, the verification of a signature over the JSON of the signed struct,
  and the floating point operations of \<open>Staking_Manager.thy\<close>.
\<close>

record ('f, 'b) gov_env =
  addrString :: "address \<Rightarrow> string"
  hexToAddr :: "string \<Rightarrow> address"
  isHexAddr :: "string \<Rightarrow> bool"
  jsonCandidates :: "bytes \<Rightarrow> council_member list option"
  jsonGas :: "bytes \<Rightarrow> u64 option"
  jsonChainParam :: "bytes \<Rightarrow> chain_param_args option"
  jsonProviders :: "bytes \<Rightarrow> string list option"
  jsonRegister :: "bytes \<Rightarrow> node_register_args option"
  jsonRemove :: "bytes \<Rightarrow> u64 list option"
  jsonUpgrade :: "bytes \<Rightarrow> node_upgrade_args option"
  hexNormal :: "string \<Rightarrow> string"
  consKeyOk :: "string \<Rightarrow> bool"
  p2pIDFrom :: "string \<Rightarrow> string option"
  verifyP2P :: "string \<Rightarrow> node_register_sign \<Rightarrow> string \<Rightarrow> bool"
  verifyConsensus :: "string \<Rightarrow> node_register_sign \<Rightarrow> string \<Rightarrow> bool"
  floats :: "('f, 'b) float_ops"

definition MaxTitleLength :: nat where "MaxTitleLength = 200"

definition MaxDescLength :: nat where "MaxDescLength = 10000"

definition MinCouncilMembersCount :: nat where "MinCouncilMembersCount = 4"

section \<open>Slots\<close>

definition putProposal :: "proposal \<Rightarrow> gov_world \<Rightarrow> gov_world" where
  "putProposal p g = g\<lparr>gov := (gov g)\<lparr>proposals := (proposals (gov g))(pr_ID p \<mapsto> p)\<rparr>\<rparr>"

definition putNotFinished :: "not_finished_proposal list \<Rightarrow> gov_world \<Rightarrow> gov_world" where
  "putNotFinished ps g = g\<lparr>gov := (gov g)\<lparr>notFinishedProposals := Some ps\<rparr>\<rparr>"

definition notFinished :: "gov_world \<Rightarrow> not_finished_proposal list" where
  "notFinished g = (case notFinishedProposals (gov g) of None \<Rightarrow> [] | Some ps \<Rightarrow> ps)"

definition nextEpoch :: "gov_world \<Rightarrow> gov_error + epoch_info" where
  "nextEpoch g = framework (EpochManager_NextEpoch (fw g))"

definition updateNextEpoch :: "epoch_info \<Rightarrow> gov_world \<Rightarrow> gov_error + gov_world" where
  "updateNextEpoch e g = ebind (framework (EpochManager_UpdateNextEpoch e (fw g))) (\<lambda>w. Inr (g\<lparr>fw := w\<rparr>))"

section \<open>Votes\<close>

definition calcProposalStatusBySimpleStrategy :: "u64 \<Rightarrow> u64 \<Rightarrow> u64 \<Rightarrow> proposal_status" where
  "calcProposalStatusBySimpleStrategy totalVotes passVotes rejectVotes =
     (if totalVotes < passVotes * 2 then Approved
      else if totalVotes \<le> rejectVotes * 2 then Rejected
      else Voting)"

definition CalcProposalStatus :: "u8 \<Rightarrow> u64 \<Rightarrow> u64 \<Rightarrow> u64 \<Rightarrow> proposal_status" where
  "CalcProposalStatus strategy totalVotes passVotes rejectVotes =
     (if strategy = 0 then calcProposalStatusBySimpleStrategy totalVotes passVotes rejectVotes else Voting)"

definition Governance_isCouncilMember :: "('f, 'b) gov_env \<Rightarrow> address \<Rightarrow> gov_world \<Rightarrow> gov_error + bool" where
  "Governance_isCouncilMember G usr g =
     ebind (must SlotMissing (council (gov g))) (\<lambda>members.
     Inr (list_ex (\<lambda>item. cm_Address item = addrString G usr) members))"

definition weightOf :: "string list \<Rightarrow> bool \<Rightarrow> council_member \<Rightarrow> u64" where
  "weightOf members ignoreMembers item =
     (if ignoreMembers then cm_Weight item else if cm_Address item \<in> set members then cm_Weight item else 0)"

definition DefaultProposalPermissionManager_totalVotes :: "string list \<Rightarrow> bool \<Rightarrow> gov_world \<Rightarrow> gov_error + u64" where
  "DefaultProposalPermissionManager_totalVotes members ignoreMembers g =
     ebind (must SlotMissing (council (gov g))) (\<lambda>council.
     Inr (sum_list (map (weightOf members ignoreMembers) council)))"

definition DefaultProposalPermissionManager_TotalVotes :: "gov_world \<Rightarrow> gov_error + u64" where
  "DefaultProposalPermissionManager_TotalVotes g = DefaultProposalPermissionManager_totalVotes [] True g"

definition DefaultProposalPermissionManager_UpdateVoteStatus :: "proposal \<Rightarrow> gov_world \<Rightarrow> gov_error + proposal" where
  "DefaultProposalPermissionManager_UpdateVoteStatus p g =
     ebind (DefaultProposalPermissionManager_totalVotes (PassVotes p) False g) (\<lambda>pass.
     ebind (DefaultProposalPermissionManager_totalVotes (RejectVotes p) False g) (\<lambda>reject.
     Inr (p\<lparr>pr_Status := CalcProposalStatus (Strategy p) (TotalVotes p) pass reject\<rparr>)))"

definition DefaultProposalPermissionManager_VotePermissionCheck ::
  "('f, 'b) gov_env \<Rightarrow> address \<Rightarrow> gov_world \<Rightarrow> gov_error + bool" where
  "DefaultProposalPermissionManager_VotePermissionCheck G usr g = Governance_isCouncilMember G usr g"

text \<open>Node proposals decide by type: anybody may propose to register a node.\<close>

definition ProposePermissionCheck ::
  "('f, 'b) gov_env \<Rightarrow> proposal_type \<Rightarrow> address \<Rightarrow> gov_world \<Rightarrow> gov_error + bool" where
  "ProposePermissionCheck G t usr g =
     (if t = NodeRegister then Inr True else Governance_isCouncilMember G usr g)"

text \<open>\<open>lo.UniqBy\<close>: the first element of each key, in order.\<close>

definition uniqBy :: "('a \<Rightarrow> 'b) \<Rightarrow> 'a list \<Rightarrow> 'a list" where
  "uniqBy f xs = fold (\<lambda>x acc. if f x \<in> f ` set acc then acc else acc @ [x]) xs []"

section \<open>Council proposals\<close>

definition Governance_checkFinishedAllProposal :: "gov_world \<Rightarrow> bool" where
  "Governance_checkFinishedAllProposal g =
     (case notFinishedProposals (gov g) of None \<Rightarrow> True | Some ps \<Rightarrow> length ps = 0)"

definition CouncilManager_GenesisInit :: "('f, 'b) gov_env \<Rightarrow> genesis_config \<Rightarrow> gov_world \<Rightarrow> gov_error + gov_world" where
  "CouncilManager_GenesisInit G genesis g =
     ebind (emap (\<lambda>admin.
         if \<not> isHexAddr G (cm_Address admin) then Inl (CouncilErr (InvalidCouncilMemberAddress (cm_Address admin)))
         else Inr \<lparr>cm_Address = cm_Address admin, cm_Weight = cm_Weight admin, cm_Name = cm_Name admin\<rparr>)
       (CouncilMembers genesis)) (\<lambda>members.
     Inr (g\<lparr>gov := (gov g)\<lparr>council := Some members\<rparr>\<rparr>))"

text \<open>\<open>len(lo.UniqBy(xs, f)) != len(xs)\<close>.\<close>

definition repeatedBy :: "('a \<Rightarrow> 'b) \<Rightarrow> 'a list \<Rightarrow> bool" where
  "repeatedBy f xs \<longleftrightarrow> length (uniqBy f xs) \<noteq> length xs"

definition CouncilManager_ProposeArgsCheck :: "('f, 'b) gov_env \<Rightarrow> bytes \<Rightarrow> gov_world \<Rightarrow> gov_error + unit" where
  "CouncilManager_ProposeArgsCheck G extra g =
     ebind (must (ProposalErr UnmarshalExtra) (jsonCandidates G extra)) (\<lambda>candidates.
     if length candidates < MinCouncilMembersCount then Inl (CouncilErr ErrMinCouncilMembersCount)
     else if repeatedBy cm_Address candidates then Inl (CouncilErr ErrRepeatedAddress)
     else if repeatedBy cm_Name candidates then Inl (CouncilErr ErrRepeatedName)
     else if \<not> Governance_checkFinishedAllProposal g then Inl (CouncilErr ErrExistNotFinishedProposal)
     else Inr ())"

definition CouncilManager_VotePassExecute :: "('f, 'b) gov_env \<Rightarrow> proposal \<Rightarrow> gov_world \<Rightarrow> gov_error + gov_world" where
  "CouncilManager_VotePassExecute G p g =
     ebind (must (ProposalErr UnmarshalExtra) (jsonCandidates G (Extra p))) (\<lambda>candidates.
     Inr (g\<lparr>gov := (gov g)\<lparr>council := Some candidates\<rparr>\<rparr>))"

section \<open>Gas price proposals\<close>

definition GasManager_getGasProposalExtraArgs :: "('f, 'b) gov_env \<Rightarrow> bytes \<Rightarrow> gov_world \<Rightarrow> gov_error + u64" where
  "GasManager_getGasProposalExtraArgs G extra g =
     ebind (must (ProposalErr UnmarshalExtra) (jsonGas G extra)) (\<lambda>minGasPrice.
     ebind (nextEpoch g) (\<lambda>nextEpochInfo.
     if MinGasPrice (FinanceParams nextEpochInfo) = uint minGasPrice then Inl (ParamErr ErrRepeatedGasInfo)
     else Inr minGasPrice))"

fun gasBlocked :: "not_finished_proposal list \<Rightarrow> gov_error + unit" where
  "gasBlocked [] = Inr ()"
| "gasBlocked (p # ps) =
     (if nf_Type p = CouncilElect then Inl (ParamErr ErrExistNotFinishedCouncilProposal)
      else if nf_Type p = GasUpdate then Inl (ParamErr ErrExistNotFinishedGasProposal)
      else gasBlocked ps)"

definition GasManager_checkNotFinishedProposal :: "gov_world \<Rightarrow> gov_error + unit" where
  "GasManager_checkNotFinishedProposal g = gasBlocked (notFinished g)"

definition GasManager_ProposeArgsCheck :: "('f, 'b) gov_env \<Rightarrow> bytes \<Rightarrow> gov_world \<Rightarrow> gov_error + unit" where
  "GasManager_ProposeArgsCheck G extra g =
     ebind (GasManager_getGasProposalExtraArgs G extra g) (\<lambda>_. GasManager_checkNotFinishedProposal g)"

definition GasManager_VotePassExecute :: "('f, 'b) gov_env \<Rightarrow> proposal \<Rightarrow> gov_world \<Rightarrow> gov_error + gov_world" where
  "GasManager_VotePassExecute G p g =
     ebind (GasManager_getGasProposalExtraArgs G (Extra p) g) (\<lambda>minGasPrice.
     ebind (nextEpoch g) (\<lambda>e.
     updateNextEpoch (e\<lparr>FinanceParams := (FinanceParams e)\<lparr>MinGasPrice := uint minGasPrice\<rparr>\<rparr>) g))"

section \<open>Chain parameter proposals\<close>

definition sameChainParam :: "chain_param_args \<Rightarrow> epoch_info \<Rightarrow> bool" where
  "sameChainParam a e \<longleftrightarrow>
     (let c = ConsensusParams e in
      EpochPeriod e = cp_EpochPeriod a \<and> MaxValidatorNum c = cp_MaxValidatorNum a \<and>
      BlockMaxTxNum c = cp_BlockMaxTxNum a \<and> AbnormalNodeExcludeView c = cp_AbnormalNodeExcludeView a \<and>
      AgainProposeIntervalBlockInValidatorsNumPercentage c = cp_AgainProposeIntervalBlockInValidatorsNumPercentage a \<and>
      ContinuousNullRequestToleranceNumber c = cp_ContinuousNullRequestToleranceNumber a \<and>
      ReBroadcastToleranceNumber c = cp_RebroadcastToleranceNumber a \<and>
      EnableTimedGenEmptyBlock c = cp_EnableTimedGenEmptyBlock a)"

definition ChainParamManager_getChainParamExtraArgs ::
  "('f, 'b) gov_env \<Rightarrow> bytes \<Rightarrow> gov_world \<Rightarrow> gov_error + chain_param_args" where
  "ChainParamManager_getChainParamExtraArgs G extra g =
     ebind (must (ParamErr ErrChainParamInvalid) (jsonChainParam G extra)) (\<lambda>a.
     if cp_EpochPeriod a = 0 \<or> cp_MaxValidatorNum a < 4 \<or> cp_BlockMaxTxNum a = 0 \<or>
        cp_AbnormalNodeExcludeView a = 0 \<or> 100 \<le> cp_AgainProposeIntervalBlockInValidatorsNumPercentage a \<or>
        cp_ContinuousNullRequestToleranceNumber a = 0 \<or> cp_RebroadcastToleranceNumber a = 0
     then Inl (ParamErr ErrChainParamInvalid)
     else ebind (nextEpoch g) (\<lambda>e.
       if sameChainParam a e then Inl (ParamErr ErrRepeatedChainParam) else Inr a))"

definition ChainParamManager_checkNotFinishedProposal :: "gov_world \<Rightarrow> gov_error + unit" where
  "ChainParamManager_checkNotFinishedProposal g =
     (if 0 < length (notFinished g) then Inl (ParamErr ErrExistNotFinishedChainParamProposal) else Inr ())"

definition ChainParamManager_ProposeArgsCheck :: "('f, 'b) gov_env \<Rightarrow> bytes \<Rightarrow> gov_world \<Rightarrow> gov_error + unit" where
  "ChainParamManager_ProposeArgsCheck G extra g =
     ebind (ChainParamManager_getChainParamExtraArgs G extra g) (\<lambda>_. ChainParamManager_checkNotFinishedProposal g)"

definition withChainParam :: "chain_param_args \<Rightarrow> epoch_info \<Rightarrow> epoch_info" where
  "withChainParam a e = e\<lparr>EpochPeriod := cp_EpochPeriod a,
     ConsensusParams := (ConsensusParams e)
       \<lparr>MaxValidatorNum := cp_MaxValidatorNum a, BlockMaxTxNum := cp_BlockMaxTxNum a,
        AbnormalNodeExcludeView := cp_AbnormalNodeExcludeView a,
        AgainProposeIntervalBlockInValidatorsNumPercentage := cp_AgainProposeIntervalBlockInValidatorsNumPercentage a,
        ContinuousNullRequestToleranceNumber := cp_ContinuousNullRequestToleranceNumber a,
        ReBroadcastToleranceNumber := cp_RebroadcastToleranceNumber a,
        EnableTimedGenEmptyBlock := cp_EnableTimedGenEmptyBlock a\<rparr>\<rparr>"

definition ChainParamManager_VotePassExecute :: "('f, 'b) gov_env \<Rightarrow> proposal \<Rightarrow> gov_world \<Rightarrow> gov_error + gov_world" where
  "ChainParamManager_VotePassExecute G p g =
     ebind (ChainParamManager_getChainParamExtraArgs G (Extra p) g) (\<lambda>a.
     ebind (nextEpoch g) (\<lambda>e. updateNextEpoch (withChainParam a e) g))"

section \<open>Whitelist provider proposals\<close>

definition WhitelistProviderManager_checkFinishedProposal :: "gov_world \<Rightarrow> gov_error + unit" where
  "WhitelistProviderManager_checkFinishedProposal g =
     (if list_ex (\<lambda>p. nf_Type p = CouncilElect \<or> nf_Type p = WhitelistProviderAdd \<or> nf_Type p = WhitelistProviderRemove)
           (notFinished g)
      then Inl (ProviderErr ErrExistVotingProposal) else Inr ())"

definition WhitelistProviderManager_getExtraArgs :: "('f, 'b) gov_env \<Rightarrow> bytes \<Rightarrow> gov_error + string list" where
  "WhitelistProviderManager_getExtraArgs G extra = must (ProposalErr UnmarshalExtra) (jsonProviders G extra)"

definition WhitelistProviderManager_ProposeArgsCheck ::
  "('f, 'b) gov_env \<Rightarrow> proposal_type \<Rightarrow> bytes \<Rightarrow> gov_world \<Rightarrow> gov_error + unit" where
  "WhitelistProviderManager_ProposeArgsCheck G t extra g =
     ebind (WhitelistProviderManager_checkFinishedProposal g) (\<lambda>_.
     ebind (WhitelistProviderManager_getExtraArgs G extra) (\<lambda>providers.
     if length providers = 0 then Inl (ProviderErr EmptyProviders)
     else ebind (emap (\<lambda>addr.
         if \<not> isHexAddr G addr then Inl (ProviderErr (InvalidProviderAddress addr)) else Inr (hexToAddr G addr))
         providers) (\<lambda>addrs.
     if repeatedBy id providers then Inl (ProviderErr ProviderAddressRepeated)
     else if t = WhitelistProviderAdd then
       efold (\<lambda>a _. if Whitelist_ExistProvider a (wl g) then Inl (ProviderErr (ProviderExists a)) else Inr ()) addrs ()
     else if t = WhitelistProviderRemove then
       efold (\<lambda>a _. if \<not> Whitelist_ExistProvider a (wl g) then Inl (ProviderErr (ProviderMissing a)) else Inr ()) addrs ()
     else Inl (ProposalErr UnknownProposalType))))"

text \<open>An execution that fails keeps what it has written: the result is the state and the error.\<close>

definition WhitelistProviderManager_VotePassExecute ::
  "('f, 'b) gov_env \<Rightarrow> proposal \<Rightarrow> gov_world \<Rightarrow> gov_world \<times> gov_error option" where
  "WhitelistProviderManager_VotePassExecute G p g =
     (case WhitelistProviderManager_getExtraArgs G (Extra p) of
        Inl e \<Rightarrow> (g, Some e)
      | Inr providers \<Rightarrow>
          (case Whitelist_UpdateProviders (pr_Type p = WhitelistProviderAdd)
                  (map (\<lambda>addr. \<lparr>pv_Addr = hexToAddr G addr\<rparr>) providers) (wl g) of
             (w, e) \<Rightarrow> (g\<lparr>wl := w\<rparr>, map_option WhitelistErr e)))"

section \<open>Node proposals\<close>

definition registerInfo :: "address \<Rightarrow> node_register_args \<Rightarrow> node_info" where
  "registerInfo operator a =
     \<lparr>node_ID = 0, ConsensusPubKey = rs_ConsensusPubKey a, P2PPubKey = rs_P2PPubKey a, P2PID = '''',
      Operator = operator, MetaData = rs_MetaData a, Status = DataSyncer\<rparr>"

definition checkRegister :: "('f, 'b) gov_env \<Rightarrow> vm_ctx \<Rightarrow> bytes \<Rightarrow> gov_error + node_register_args \<times> string" where
  "checkRegister G ctx extra =
     ebind (must (ProposalErr UnmarshalExtra) (jsonRegister G extra)) (\<lambda>a.
     ebind (framework (CheckNodeInfo (consKeyOk G) (p2pIDFrom G) (registerInfo (ctx_From ctx) a))) (\<lambda>p2pID.
     Inr (a, p2pID)))"

definition NodeManager_registerProposeArgsCheck ::
  "('f, 'b) gov_env \<Rightarrow> vm_ctx \<Rightarrow> bytes \<Rightarrow> gov_world \<Rightarrow> gov_error + gov_world" where
  "NodeManager_registerProposeArgsCheck G ctx extra g =
     ebind (checkRegister G ctx extra) (\<lambda>(a, p2pID).
     let key = rs_ConsensusPubKey a; p2p = rs_P2PPubKey a; name = Name (rs_MetaData a);
         signed = \<lparr>rs_ConsensusPubKey = key, rs_P2PPubKey = p2p, rs_MetaData = rs_MetaData a\<rparr> in
     if \<not> verifyP2P G p2p signed (P2PPrivateKeySignature a) then Inl (NodeProposalErr P2PSignature)
     else if \<not> verifyConsensus G key signed (ConsensusPrivateKeySignature a) then Inl (NodeProposalErr ConsensusSignature)
     else if NodeManager_ExistNodeByConsensusPubKey (hexNormal G) key (fw g) then Inl (NodeProposalErr (ConsensusKeyRegistered key))
     else if NodeManager_ExistNodeByP2PID p2pID (fw g) then Inl (NodeProposalErr (P2PKeyRegistered p2p))
     else if NodeManager_ExistNodeByName name (fw g) then Inl (NodeProposalErr (NameRegistered key))
     else if pendingNameIndex (gov g) name \<noteq> None then Inl (NodeProposalErr (NameRegistered name))
     else if pendingP2PIDIndex (gov g) p2pID \<noteq> None then Inl (NodeProposalErr (P2PKeyRegistered p2p))
     else if pendingConsensusPubKeyIndex (gov g) key \<noteq> None then Inl (NodeProposalErr (ConsensusKeyRegistered key))
     else Inr (g\<lparr>gov := (gov g)\<lparr>pendingNameIndex := (pendingNameIndex (gov g))(name \<mapsto> ()),
                                pendingP2PIDIndex := (pendingP2PIDIndex (gov g))(p2pID \<mapsto> ()),
                                pendingConsensusPubKeyIndex := (pendingConsensusPubKeyIndex (gov g))(key \<mapsto> ())\<rparr>,
                 gasCost := Some 10000000\<rparr>))"

definition removeCheckOne :: "u64 \<Rightarrow> gov_world \<Rightarrow> gov_error + gov_world" where
  "removeCheckOne nodeID g =
     ebind (framework (NodeManager_GetInfo nodeID (fw g))) (\<lambda>nodeInfo.
     if Status nodeInfo = Exited then Inl (NodeProposalErr (NodeAlreadyExited nodeID))
     else if pendingRemoveNodeIDIndex (gov g) nodeID \<noteq> None then Inl (NodeProposalErr (RemoveAlreadyProposed nodeID))
     else Inr (g\<lparr>gov := (gov g)\<lparr>pendingRemoveNodeIDIndex := (pendingRemoveNodeIDIndex (gov g))(nodeID \<mapsto> ())\<rparr>\<rparr>))"

definition NodeManager_removeProposeArgsCheck ::
  "('f, 'b) gov_env \<Rightarrow> bytes \<Rightarrow> gov_world \<Rightarrow> gov_error + gov_world" where
  "NodeManager_removeProposeArgsCheck G extra g =
     ebind (must (ProposalErr UnmarshalExtra) (jsonRemove G extra)) (\<lambda>nodeIDs. efold removeCheckOne nodeIDs g)"

definition NodeManager_upgradeProposeArgsCheck :: "('f, 'b) gov_env \<Rightarrow> bytes \<Rightarrow> gov_error + unit" where
  "NodeManager_upgradeProposeArgsCheck G extra =
     ebind (must (ProposalErr UnmarshalExtra) (jsonUpgrade G extra)) (\<lambda>a.
     if repeatedBy id (DownloadUrls a) then Inl (NodeProposalErr RepeatedDownloadUrl) else Inr ())"

definition NodeManager_executeRegister ::
  "('f, 'b) gov_env \<Rightarrow> vm_ctx \<Rightarrow> proposal \<Rightarrow> gov_world \<Rightarrow> gov_error + gov_world" where
  "NodeManager_executeRegister G ctx p g =
     ebind (checkRegister G ctx (Extra p)) (\<lambda>(a, p2pID).
     ebind (framework (NodeManager_Register (hexNormal G)
              ((registerInfo (hexToAddr G (Proposer p)) a)\<lparr>P2PID := p2pID\<rparr>) (fw g))) (\<lambda>(nodeID, w).
     Inr (g\<lparr>fw := w\<rparr>)))"

text \<open>All nodes or none: the ledger goes back to the snapshot when one exit fails.\<close>

definition NodeManager_executeRemove ::
  "('f, 'b) gov_env \<Rightarrow> vm_ctx \<Rightarrow> proposal \<Rightarrow> gov_world \<Rightarrow> gov_error + gov_world" where
  "NodeManager_executeRemove G ctx p g =
     ebind (must (ProposalErr UnmarshalExtra) (jsonRemove G (Extra p))) (\<lambda>nodeIDs.
     ebind (framework (efold (NodeManager_Exit (floats G) (CrossCallSystemContractContext GovernanceContractAddr ctx))
              nodeIDs (fw g))) (\<lambda>w.
     Inr (g\<lparr>fw := w\<rparr>)))"

definition deletePending :: "string \<Rightarrow> string \<Rightarrow> string \<Rightarrow> gov_world \<Rightarrow> gov_world" where
  "deletePending name p2pID key g =
     g\<lparr>gov := (gov g)\<lparr>pendingNameIndex := (pendingNameIndex (gov g))(name := None),
                       pendingP2PIDIndex := (pendingP2PIDIndex (gov g))(p2pID := None),
                       pendingConsensusPubKeyIndex := (pendingConsensusPubKeyIndex (gov g))(key := None)\<rparr>\<rparr>"

definition deletePendingRemove :: "u64 \<Rightarrow> gov_world \<Rightarrow> gov_world" where
  "deletePendingRemove nodeID g =
     g\<lparr>gov := (gov g)\<lparr>pendingRemoveNodeIDIndex := (pendingRemoveNodeIDIndex (gov g))(nodeID := None)\<rparr>\<rparr>"

definition CleanProposal :: "('f, 'b) gov_env \<Rightarrow> vm_ctx \<Rightarrow> proposal \<Rightarrow> gov_world \<Rightarrow> gov_error + gov_world" where
  "CleanProposal G ctx p g =
     (if pr_Type p = NodeRegister then
        ebind (checkRegister G ctx (Extra p)) (\<lambda>(a, p2pID).
        Inr (deletePending (Name (rs_MetaData a)) p2pID (rs_ConsensusPubKey a) g))
      else if pr_Type p = NodeRemove then
        ebind (must (ProposalErr UnmarshalExtra) (jsonRemove G (Extra p))) (\<lambda>nodeIDs.
        Inr (fold deletePendingRemove nodeIDs g))
      else Inr g)"

section \<open>Handlers by type\<close>

definition unchanged :: "gov_error + unit \<Rightarrow> gov_world \<Rightarrow> gov_error + gov_world" where
  "unchanged r g = ebind r (\<lambda>_. Inr g)"

definition ProposeArgsCheck ::
  "('f, 'b) gov_env \<Rightarrow> vm_ctx \<Rightarrow> proposal_type \<Rightarrow> bytes \<Rightarrow> gov_world \<Rightarrow> gov_error + gov_world" where
  "ProposeArgsCheck G ctx t extra g = (case t of
     CouncilElect \<Rightarrow> unchanged (CouncilManager_ProposeArgsCheck G extra g) g
   | NodeUpgrade \<Rightarrow> unchanged (NodeManager_upgradeProposeArgsCheck G extra) g
   | NodeRegister \<Rightarrow> NodeManager_registerProposeArgsCheck G ctx extra g
   | NodeRemove \<Rightarrow> NodeManager_removeProposeArgsCheck G extra g
   | WhitelistProviderAdd \<Rightarrow> unchanged (WhitelistProviderManager_ProposeArgsCheck G t extra g) g
   | WhitelistProviderRemove \<Rightarrow> unchanged (WhitelistProviderManager_ProposeArgsCheck G t extra g) g
   | GasUpdate \<Rightarrow> unchanged (GasManager_ProposeArgsCheck G extra g) g
   | ChainParamUpgrade \<Rightarrow> unchanged (ChainParamManager_ProposeArgsCheck G extra g) g)"

text \<open>
  The other executions fail before they write anything, or go back to a snapshot: a failure leaves the state as it was.
\<close>

definition allOrNothing :: "gov_error + gov_world \<Rightarrow> gov_world \<Rightarrow> gov_world \<times> gov_error option" where
  "allOrNothing r g = (case r of Inl e \<Rightarrow> (g, Some e) | Inr g1 \<Rightarrow> (g1, None))"

definition VotePassExecute ::
  "('f, 'b) gov_env \<Rightarrow> vm_ctx \<Rightarrow> proposal \<Rightarrow> gov_world \<Rightarrow> gov_world \<times> gov_error option" where
  "VotePassExecute G ctx p g = (case pr_Type p of
     CouncilElect \<Rightarrow> allOrNothing (CouncilManager_VotePassExecute G p g) g
   | NodeUpgrade \<Rightarrow> (g, None)
   | NodeRegister \<Rightarrow> allOrNothing (NodeManager_executeRegister G ctx p g) g
   | NodeRemove \<Rightarrow> allOrNothing (NodeManager_executeRemove G ctx p g) g
   | WhitelistProviderAdd \<Rightarrow> WhitelistProviderManager_VotePassExecute G p g
   | WhitelistProviderRemove \<Rightarrow> WhitelistProviderManager_VotePassExecute G p g
   | GasUpdate \<Rightarrow> allOrNothing (GasManager_VotePassExecute G p g) g
   | ChainParamUpgrade \<Rightarrow> allOrNothing (ChainParamManager_VotePassExecute G p g) g)"

section \<open>The contract\<close>

text \<open>\<open>ProposalType(pType)\<close> with the handler map: every type has a handler, other numbers have none.\<close>

definition proposalTypes :: "proposal_type list" where
  "proposalTypes = [CouncilElect, NodeUpgrade, NodeRegister, NodeRemove, WhitelistProviderAdd, WhitelistProviderRemove,
     GasUpdate, ChainParamUpgrade]"

definition Governance_getHandler :: "u8 \<Rightarrow> gov_error + proposal_type" where
  "Governance_getHandler pType =
     (if unat pType < length proposalTypes then Inr (proposalTypes ! unat pType) else Inl (ProposalErr ErrProposalType))"

definition Governance_GenesisInit :: "('f, 'b) gov_env \<Rightarrow> genesis_config \<Rightarrow> gov_world \<Rightarrow> gov_error + gov_world" where
  "Governance_GenesisInit G genesis g =
     CouncilManager_GenesisInit G genesis (g\<lparr>gov := (gov g)\<lparr>nextProposalID := Some 1\<rparr>\<rparr>)"

definition Governance_EmitProposeEvent :: "('f, 'b) gov_env \<Rightarrow> proposal \<Rightarrow> gov_world \<Rightarrow> gov_world" where
  "Governance_EmitProposeEvent G p g =
     g\<lparr>gov_logs := gov_logs g @ [EventPropose (pr_ID p) (pr_Type p) (hexToAddr G (Proposer p)) p]\<rparr>"

definition Governance_EmitVoteEvent :: "('f, 'b) gov_env \<Rightarrow> proposal \<Rightarrow> gov_world \<Rightarrow> gov_world" where
  "Governance_EmitVoteEvent G p g =
     g\<lparr>gov_logs := gov_logs g @ [EventVote (pr_ID p) (pr_Type p) (hexToAddr G (Proposer p)) p]\<rparr>"

definition Governance_addNotFinishedProposal :: "not_finished_proposal \<Rightarrow> gov_world \<Rightarrow> gov_world" where
  "Governance_addNotFinishedProposal p g = putNotFinished (uniqBy nf_ID (notFinished g @ [p])) g"

definition Governance_removeNotFinishedProposal :: "u64 \<Rightarrow> gov_world \<Rightarrow> gov_error + gov_world" where
  "Governance_removeNotFinishedProposal i g =
     (case notFinishedProposals (gov g) of
        None \<Rightarrow> Inl (ProposalErr ErrNotFoundProposal)
      | Some ps \<Rightarrow>
          let newProposals = filter (\<lambda>item. nf_ID item \<noteq> i) ps in
          if length newProposals = length ps then Inl (ProposalErr ErrNotFoundProposal)
          else Inr (putNotFinished newProposals g))"

datatype gov_method = ProposeEvent | VoteEvent

definition emitFor :: "('f, 'b) gov_env \<Rightarrow> gov_method \<Rightarrow> proposal \<Rightarrow> gov_world \<Rightarrow> gov_world" where
  "emitFor G m p g =
     (case m of ProposeEvent \<Rightarrow> Governance_EmitProposeEvent G p g | VoteEvent \<Rightarrow> Governance_EmitVoteEvent G p g)"

definition expireOne ::
  "('f, 'b) gov_env \<Rightarrow> vm_ctx \<Rightarrow> gov_method \<Rightarrow> not_finished_proposal \<Rightarrow> gov_world \<Rightarrow> gov_error + gov_world" where
  "expireOne G ctx m nf g =
     (if DeadlineBlockNumber nf \<le> ctx_BlockNumber ctx then
        ebind (must (ProposalErr ErrNotFoundProposal) (proposals (gov g) (nf_ID nf))) (\<lambda>p.
        if pr_Status p = Approved \<or> pr_Status p = Rejected then Inr g
        else
          let p = p\<lparr>pr_Status := Rejected\<rparr>;
              g1 = g\<lparr>gov := (gov g)\<lparr>proposals := (proposals (gov g))(nf_ID nf \<mapsto> p)\<rparr>\<rparr> in
          ebind (Governance_removeNotFinishedProposal (nf_ID nf) g1) (\<lambda>g2.
          ebind (CleanProposal G ctx p g2) (\<lambda>g3.
          Inr (emitFor G m p g3))))
      else Inr g)"

definition Governance_checkAndUpdateState ::
  "('f, 'b) gov_env \<Rightarrow> vm_ctx \<Rightarrow> gov_method \<Rightarrow> gov_world \<Rightarrow> gov_error + gov_world" where
  "Governance_checkAndUpdateState G ctx m g =
     (case notFinishedProposals (gov g) of
        None \<Rightarrow> Inr g
      | Some ps \<Rightarrow> efold (expireOne G ctx m) ps g)"

definition Governance_CheckProposeArgs :: "string \<Rightarrow> string \<Rightarrow> u64 \<Rightarrow> u64 \<Rightarrow> gov_error + unit" where
  "Governance_CheckProposeArgs title desc expiredBlockNumber currentHeight =
     (if title = '''' \<or> MaxTitleLength < length title then
        (if title = '''' then Inl (ProposalErr ErrTitle) else Inl (ProposalErr ErrTooLongTitle))
      else if desc = '''' \<or> MaxDescLength < length desc then
        (if desc = '''' then Inl (ProposalErr ErrDesc) else Inl (ProposalErr ErrTooLongDesc))
      else if expiredBlockNumber = 0 then Inl (ProposalErr ErrBlockNumber)
      else if expiredBlockNumber < currentHeight then Inl (ProposalErr ErrBlockNumberOutDate)
      else Inr ())"

definition Governance_createProposal ::
  "('f, 'b) gov_env \<Rightarrow> vm_ctx \<Rightarrow> u64 \<Rightarrow> proposal_type \<Rightarrow> string \<Rightarrow> string \<Rightarrow> u64 \<Rightarrow> bytes \<Rightarrow> bool \<Rightarrow>
   gov_world \<Rightarrow> gov_error + gov_world" where
  "Governance_createProposal G ctx totalVotes t title desc blockNumber extra includeUser g =
     ebind (must SlotMissing (nextProposalID (gov g))) (\<lambda>i.
     let g1 = g\<lparr>gov := (gov g)\<lparr>nextProposalID := Some (i + 1)\<rparr>\<rparr>;
         proposer = addrString G (ctx_From ctx);
         p = \<lparr>pr_ID = i, pr_Type = t, Strategy = 0, Proposer = proposer, Title = title, pr_Desc = desc,
              BlockNumber = blockNumber, TotalVotes = totalVotes,
              PassVotes = (if includeUser then [proposer] else []), RejectVotes = [], pr_Status = Voting,
              Extra = extra, CreatedBlockNumber = ctx_BlockNumber ctx, EffectiveBlockNumber = 0,
              ExecuteSuccess = False, ExecuteFailedMsg = None\<rparr>;
         g2 = putProposal p g1;
         g3 = Governance_addNotFinishedProposal \<lparr>nf_ID = i, DeadlineBlockNumber = blockNumber, nf_Type = t\<rparr> g2
     in Inr (Governance_EmitProposeEvent G p g3))"

definition Governance_Propose ::
  "('f, 'b) gov_env \<Rightarrow> vm_ctx \<Rightarrow> u8 \<Rightarrow> string \<Rightarrow> string \<Rightarrow> u64 \<Rightarrow> bytes \<Rightarrow> gov_world \<Rightarrow> gov_error + gov_world" where
  "Governance_Propose G ctx pType title desc blockNumber extra g =
     ebind (Governance_getHandler pType) (\<lambda>t.
     ebind (Governance_checkAndUpdateState G ctx ProposeEvent g) (\<lambda>g1.
     ebind (Governance_CheckProposeArgs title desc blockNumber (ctx_BlockNumber ctx)) (\<lambda>_.
     ebind (ProposeArgsCheck G ctx t extra g1) (\<lambda>g2.
     ebind (ProposePermissionCheck G t (ctx_From ctx) g2) (\<lambda>hasPermission.
     if \<not> hasPermission then Inl (ProposalErr (NoProposePermission t))
     else
       ebind (DefaultProposalPermissionManager_TotalVotes g2) (\<lambda>totalVotes.
       ebind (DefaultProposalPermissionManager_VotePermissionCheck G (ctx_From ctx) g2) (\<lambda>canVote.
       Governance_createProposal G ctx totalVotes t title desc blockNumber extra canVote g2)))))))"

definition Governance_checkBeforeVote :: "('f, 'b) gov_env \<Rightarrow> address \<Rightarrow> proposal \<Rightarrow> u8 \<Rightarrow> gov_error + unit" where
  "Governance_checkBeforeVote G usr p voteResult =
     (if voteResult \<noteq> 0 \<and> voteResult \<noteq> 1 then Inl (ProposalErr ErrVoteResult)
      else if addrString G usr \<in> set (PassVotes p) \<or> addrString G usr \<in> set (RejectVotes p)
      then Inl (ProposalErr ErrUseHasVoted)
      else if pr_Status p = Approved \<or> pr_Status p = Rejected then Inl (ProposalErr ErrProposalFinished)
      else Inr ())"

definition castVote :: "string \<Rightarrow> u8 \<Rightarrow> proposal \<Rightarrow> proposal" where
  "castVote voter voteResult p =
     (if voteResult = 0 then p\<lparr>PassVotes := PassVotes p @ [voter]\<rparr>
      else if voteResult = 1 then p\<lparr>RejectVotes := RejectVotes p @ [voter]\<rparr> else p)"

text \<open>The proposal is saved, taken off the list of open ones if it is decided, and executed if it is approved.\<close>

definition settleVote ::
  "('f, 'b) gov_env \<Rightarrow> vm_ctx \<Rightarrow> proposal \<Rightarrow> gov_world \<Rightarrow> gov_error + proposal \<times> gov_world" where
  "settleVote G ctx p g =
     ebind (if pr_Status p = Approved \<or> pr_Status p = Rejected then
              let p = p\<lparr>EffectiveBlockNumber := ctx_BlockNumber ctx\<rparr> in
              ebind (Governance_removeNotFinishedProposal (pr_ID p) (putProposal p g)) (\<lambda>g1. Inr (p, g1))
            else Inr (p, putProposal p g)) (\<lambda>(p, g1).
     if pr_Status p = Approved then
       (case VotePassExecute G ctx p g1 of
          (g2, Some e) \<Rightarrow> let p = p\<lparr>ExecuteSuccess := False, ExecuteFailedMsg := Some e\<rparr> in Inr (p, putProposal p g2)
        | (g2, None) \<Rightarrow> let p = p\<lparr>ExecuteSuccess := True\<rparr> in Inr (p, putProposal p g2))
     else Inr (p, g1))"

definition Governance_Vote ::
  "('f, 'b) gov_env \<Rightarrow> vm_ctx \<Rightarrow> u64 \<Rightarrow> u8 \<Rightarrow> gov_world \<Rightarrow> gov_error + gov_world" where
  "Governance_Vote G ctx proposalID voteRes g =
     ebind (must (ProposalErr ErrNotFoundProposal) (proposals (gov g) proposalID)) (\<lambda>p.
     ebind (Governance_checkAndUpdateState G ctx VoteEvent g) (\<lambda>g1.
     ebind (Governance_checkBeforeVote G (ctx_From ctx) p voteRes) (\<lambda>_.
     ebind (DefaultProposalPermissionManager_VotePermissionCheck G (ctx_From ctx) g1) (\<lambda>hasPermission.
     if \<not> hasPermission then Inl (ProposalErr (NoVotePermission (pr_Type p)))
     else
       ebind (DefaultProposalPermissionManager_UpdateVoteStatus (castVote (addrString G (ctx_From ctx)) voteRes p) g1) (\<lambda>p1.
       ebind (settleVote G ctx p1 g1) (\<lambda>(p2, g2).
       ebind (CleanProposal G ctx p2 g2) (\<lambda>g3.
       Inr (Governance_EmitVoteEvent G p2 g3))))))))"

section \<open>Queries\<close>

definition Governance_GetLatestProposalID :: "gov_world \<Rightarrow> gov_error + u64" where
  "Governance_GetLatestProposalID g = ebind (must SlotMissing (nextProposalID (gov g))) (\<lambda>nextID. Inr (nextID - 1))"

definition Governance_Proposal :: "u64 \<Rightarrow> gov_world \<Rightarrow> gov_error + proposal" where
  "Governance_Proposal i g = must (ProposalErr ErrNotFoundProposal) (proposals (gov g) i)"

definition Governance_GetCouncilMembers :: "('f, 'b) gov_env \<Rightarrow> gov_world \<Rightarrow> gov_error + (address \<times> u64 \<times> string) list" where
  "Governance_GetCouncilMembers G g =
     ebind (must SlotMissing (council (gov g))) (\<lambda>members.
     Inr (map (\<lambda>item. (hexToAddr G (cm_Address item), cm_Weight item, cm_Name item)) members))"

definition Governance_GetNotFinishedProposalIDs :: "gov_world \<Rightarrow> u64 list" where
  "Governance_GetNotFinishedProposalIDs g = map nf_ID (notFinished g)"

section \<open>Calls\<close>

text \<open>
  The two transactions of the contract, and what happens to the other contracts in between: anything.
\<close>

datatype gov_call =
    ProposeCall vm_ctx u8 string string u64 bytes
  | VoteCall vm_ctx u64 u8
  | OtherContracts world whitelist_state

fun gov_exec :: "('f, 'b) gov_env \<Rightarrow> gov_call \<Rightarrow> gov_world \<Rightarrow> gov_error + gov_world" where
  "gov_exec G (ProposeCall ctx t title desc deadline extra) g = Governance_Propose G ctx t title desc deadline extra g"
| "gov_exec G (VoteCall ctx i r) g = Governance_Vote G ctx i r g"
| "gov_exec G (OtherContracts w x) g = Inr (g\<lparr>fw := w, wl := x\<rparr>)"

end
