(* ===== verification/Governance_Safety.thy ===== *)
theory Governance_Safety
  imports Governance
begin

text \<open>
  What the council can rely on: the bookkeeping of proposals stays consistent whatever is called, an
  approved proposal is final, and nothing outside the list of proposals changes unless a majority of the
  council voted for it before the deadline. Three examples show where the bookkeeping falls short.
\<close>

section \<open>Counting votes\<close>

lemma calcProposalStatus_exact:
  assumes "unat tot < 2 ^ 63" "unat pass \<le> unat tot" "unat reject \<le> unat tot"
  shows "calcProposalStatusBySimpleStrategy tot pass reject =
    (if unat tot < 2 * unat pass then Approved else if unat tot \<le> 2 * unat reject then Rejected else Voting)"
proof -
  have "unat (x * 2) = 2 * unat x" if "unat x \<le> unat tot" for x :: u64
    using that assms(1) by (simp add: unat_word_ariths)
  then show ?thesis using assms(2,3)
    by (simp add: calcProposalStatusBySimpleStrategy_def word_less_nat_alt word_le_nat_alt)
qed

text \<open>Sums of weights that do not wrap.\<close>

lemma unat_sum_list:
  fixes ws :: "u64 list"
  shows "(\<Sum>w\<leftarrow>ws. unat w) < 2 ^ 64 \<Longrightarrow> unat (sum_list ws) = (\<Sum>w\<leftarrow>ws. unat w)"
proof (induction ws)
  case (Cons w ws)
  then show ?case by (simp add: unat_word_ariths)
qed simp

definition weight :: "council_member list \<Rightarrow> string list \<Rightarrow> nat" where
  "weight ms voters = (\<Sum>m\<leftarrow>ms. if cm_Address m \<in> set voters then unat (cm_Weight m) else 0)"

definition full_weight :: "council_member list \<Rightarrow> nat" where
  "full_weight ms = (\<Sum>m\<leftarrow>ms. unat (cm_Weight m))"

lemma weight_le_full: "weight ms vs \<le> full_weight ms"
  unfolding weight_def full_weight_def by (rule sum_list_mono) simp

lemma totalVotes_weight:
  assumes "council (gov g) = Some ms" and "full_weight ms < 2 ^ 64"
  shows "\<exists>n. DefaultProposalPermissionManager_totalVotes vs False g = Inr n \<and> unat n = weight ms vs"
    "\<exists>n. DefaultProposalPermissionManager_TotalVotes g = Inr n \<and> unat n = full_weight ms"
proof -
  have "weight ms vs < 2 ^ 64" using weight_le_full [of ms vs] assms(2) by simp
  moreover have "(\<Sum>w\<leftarrow>map (weightOf vs False) ms. unat w) = weight ms vs"
    by (simp add: weight_def weightOf_def comp_def if_distrib [of unat] cong: if_cong)
  ultimately show "\<exists>n. DefaultProposalPermissionManager_totalVotes vs False g = Inr n \<and> unat n = weight ms vs"
    using unat_sum_list [of "map (weightOf vs False) ms"] assms(1)
    by (simp add: DefaultProposalPermissionManager_totalVotes_def)
  have "(\<Sum>w\<leftarrow>map (weightOf [] True) ms. unat w) = full_weight ms"
    by (simp add: full_weight_def weightOf_def comp_def)
  then show "\<exists>n. DefaultProposalPermissionManager_TotalVotes g = Inr n \<and> unat n = full_weight ms"
    using unat_sum_list [of "map (weightOf [] True) ms"] assms
    by (simp add: DefaultProposalPermissionManager_TotalVotes_def DefaultProposalPermissionManager_totalVotes_def)
qed

section \<open>What the steps leave alone\<close>

definition same_core :: "gov_world \<Rightarrow> gov_world \<Rightarrow> bool" where
  "same_core g g' \<longleftrightarrow> fw g' = fw g \<and> wl g' = wl g \<and> council (gov g') = council (gov g) \<and>
     nextProposalID (gov g') = nextProposalID (gov g) \<and> proposals (gov g') = proposals (gov g) \<and>
     notFinishedProposals (gov g') = notFinishedProposals (gov g)"

definition same_chain :: "gov_world \<Rightarrow> gov_world \<Rightarrow> bool" where
  "same_chain g g' \<longleftrightarrow> fw g' = fw g \<and> wl g' = wl g \<and> council (gov g') = council (gov g)"

lemma same_core_refl [simp]: "same_core g g" and same_chain_refl [simp]: "same_chain g g"
  by (simp_all add: same_core_def same_chain_def)

lemma same_chain_trans [trans]: "same_chain g g' \<Longrightarrow> same_chain g' g'' \<Longrightarrow> same_chain g g''"
  by (simp add: same_chain_def)

lemma same_core_trans [trans]: "same_core g g' \<Longrightarrow> same_core g' g'' \<Longrightarrow> same_core g g''"
  by (simp add: same_core_def)

lemma same_core_chain: "same_core g g' \<Longrightarrow> same_chain g g'"
  by (simp add: same_core_def same_chain_def)

lemma emit_core [simp]: "same_core g (Governance_EmitProposeEvent G p g')= same_core g g'"
  "same_core g (Governance_EmitVoteEvent G p g') = same_core g g'" "same_core g (emitFor G m p g') = same_core g g'"
  by (simp_all add: same_core_def Governance_EmitProposeEvent_def Governance_EmitVoteEvent_def emitFor_def split: gov_method.split)

lemma CleanProposal_core:
  assumes "CleanProposal G ctx p g = Inr g'"
  shows "same_core g g'"
proof -
  have "same_core h (fold deletePendingRemove ids h)" for h ids
  proof (induction ids arbitrary: h)
    case (Cons i ids)
    have "same_core h (deletePendingRemove i h)" by (simp add: same_core_def deletePendingRemove_def)
    also have "same_core \<dots> (fold deletePendingRemove ids (deletePendingRemove i h))" by (rule Cons.IH)
    finally show ?case by simp
  qed simp
  then show ?thesis using assms
    by (auto simp: CleanProposal_def ebind_Inr_iff same_core_def deletePending_def split: if_splits)
qed

lemma ProposeArgsCheck_core:
  assumes "ProposeArgsCheck G ctx t extra g = Inr g'"
  shows "same_core g g'"
proof -
  have remove: "same_core h h'" if "efold removeCheckOne ids h = Inr h'" for ids h h'
    by (rule efold_invariant [OF that, where P = "same_core h"])
      (auto simp: removeCheckOne_def ebind_Inr_iff same_core_def split: if_splits)
  show ?thesis
  proof (cases t)
    case NodeRegister
    then show ?thesis using assms
      by (auto simp: ProposeArgsCheck_def NodeManager_registerProposeArgsCheck_def ebind_Inr_iff Let_def same_core_def split: if_splits)
  qed (use assms remove in \<open>auto simp: ProposeArgsCheck_def unchanged_def ebind_Inr_iff NodeManager_removeProposeArgsCheck_def\<close>)
qed

lemma removeNotFinished_Inr:
  assumes "Governance_removeNotFinishedProposal i g = Inr g'"
  shows "g' = putNotFinished (filter (\<lambda>x. nf_ID x \<noteq> i) (notFinished g)) g" "i \<in> nf_ID ` set (notFinished g)"
proof -
  obtain ps where ps: "notFinishedProposals (gov g) = Some ps" and ne: "length (filter (\<lambda>x. nf_ID x \<noteq> i) ps) \<noteq> length ps"
    and g': "g' = putNotFinished (filter (\<lambda>x. nf_ID x \<noteq> i) ps) g"
    using assms by (auto simp: Governance_removeNotFinishedProposal_def Let_def split: option.splits if_splits)
  show "g' = putNotFinished (filter (\<lambda>x. nf_ID x \<noteq> i) (notFinished g)) g" using g' ps by (simp add: notFinished_def)
  show "i \<in> nf_ID ` set (notFinished g)"
  proof (rule ccontr)
    assume "i \<notin> nf_ID ` set (notFinished g)"
    then have "filter (\<lambda>x. nf_ID x \<noteq> i) ps = ps" using ps by (intro filter_True) (auto simp: notFinished_def)
    then show False using ne by simp
  qed
qed

lemma putters [simp]:
  "proposals (gov (putProposal p g)) = (proposals (gov g))(pr_ID p \<mapsto> p)" "notFinished (putProposal p g) = notFinished g"
  "nextProposalID (gov (putProposal p g)) = nextProposalID (gov g)" "same_chain g (putProposal p g)"
  "proposals (gov (putNotFinished ps g)) = proposals (gov g)" "notFinished (putNotFinished ps g) = ps"
  "nextProposalID (gov (putNotFinished ps g)) = nextProposalID (gov g)" "same_chain g (putNotFinished ps g)"
  by (simp_all add: putProposal_def putNotFinished_def notFinished_def same_chain_def)

lemma core_fields:
  assumes "same_core g g'"
  shows "proposals (gov g') = proposals (gov g)" "notFinished g' = notFinished g" "nextProposalID (gov g') = nextProposalID (gov g)"
    "fw g' = fw g" "wl g' = wl g" "council (gov g') = council (gov g)"
  using assms by (simp_all add: same_core_def notFinished_def)

lemma VotePassExecute_core:
  assumes "VotePassExecute G ctx p g = (g', e)"
  shows "proposals (gov g') = proposals (gov g)" "notFinished g' = notFinished g" "nextProposalID (gov g') = nextProposalID (gov g)"
proof -
  have "proposals (gov g') = proposals (gov g) \<and> notFinished g' = notFinished g \<and> nextProposalID (gov g') = nextProposalID (gov g)"
    using assms
    by (cases "pr_Type p")
      (auto simp: VotePassExecute_def allOrNothing_def CouncilManager_VotePassExecute_def NodeManager_executeRegister_def
        NodeManager_executeRemove_def WhitelistProviderManager_VotePassExecute_def GasManager_VotePassExecute_def
        ChainParamManager_VotePassExecute_def updateNextEpoch_def ebind_Inr_iff notFinished_def
        split: sum.splits prod.splits)
  then show "proposals (gov g') = proposals (gov g)" "notFinished g' = notFinished g"
    "nextProposalID (gov g') = nextProposalID (gov g)" by auto
qed

section \<open>The invariant\<close>

lemma uniqBy_snoc: "uniqBy f (xs @ [x]) = (if f x \<in> f ` set (uniqBy f xs) then uniqBy f xs else uniqBy f xs @ [x])"
  by (simp add: uniqBy_def)

lemma uniqBy_keys: "f ` set (uniqBy f xs) = f ` set xs" and uniqBy_distinct: "distinct (map f (uniqBy f xs))"
proof -
  have "f ` set (uniqBy f xs) = f ` set xs \<and> distinct (map f (uniqBy f xs))"
  proof (induction xs rule: rev_induct)
    case (snoc x xs)
    then show ?case by (auto simp: uniqBy_snoc)
  qed (simp add: uniqBy_def)
  then show "f ` set (uniqBy f xs) = f ` set xs" "distinct (map f (uniqBy f xs))" by auto
qed

lemma uniqBy_id: "distinct (map f xs) \<Longrightarrow> uniqBy f xs = xs"
proof (induction xs rule: rev_induct)
  case (snoc x xs)
  then show ?case by (auto simp: uniqBy_snoc)
qed (simp add: uniqBy_def)

definition proposal_ok :: "u64 \<Rightarrow> proposal \<Rightarrow> bool" where
  "proposal_ok i p \<longleftrightarrow> pr_ID p = i \<and> Strategy p = 0 \<and> distinct (PassVotes p @ RejectVotes p) \<and>
     (pr_Status p = Approved \<longrightarrow> EffectiveBlockNumber p < BlockNumber p)"

text \<open>
  Every proposal is stored under its number, nobody is counted twice, approved proposals took effect before
  their deadline, and the open proposals are listed once each, with their type and deadline, and are
  still being voted on. The numbers do not run out within \<open>k\<close> calls.
\<close>

definition gov_inv :: "nat \<Rightarrow> gov_world \<Rightarrow> bool" where
  "gov_inv k g \<longleftrightarrow>
     (\<forall>i p. proposals (gov g) i = Some p \<longrightarrow> proposal_ok i p) \<and>
     (\<exists>n. nextProposalID (gov g) = Some n \<and> unat n + k < 2 ^ 64 \<and> (\<forall>i. proposals (gov g) i \<noteq> None \<longrightarrow> i < n)) \<and>
     distinct (map nf_ID (notFinished g)) \<and>
     (\<forall>nf\<in>set (notFinished g). \<exists>p. proposals (gov g) (nf_ID nf) = Some p \<and> pr_Status p = Voting \<and>
        BlockNumber p = DeadlineBlockNumber nf \<and> pr_Type p = nf_Type nf)"

lemma gov_inv_cong:
  assumes "gov_inv k g" and "proposals (gov g') = proposals (gov g)" and "notFinished g' = notFinished g"
    and "nextProposalID (gov g') = nextProposalID (gov g)"
  shows "gov_inv k g'"
  using assms by (simp add: gov_inv_def)

lemma gov_inv_less: "gov_inv (Suc k) g \<Longrightarrow> gov_inv k g"
  by (auto simp: gov_inv_def)

lemma gov_inv_ok: "gov_inv k g \<Longrightarrow> proposals (gov g) i = Some p \<Longrightarrow> proposal_ok i p"
  by (simp add: gov_inv_def)

lemma gov_inv_listed:
  assumes "gov_inv k g" and "nf \<in> set (notFinished g)"
  obtains p where "proposals (gov g) (nf_ID nf) = Some p" "pr_Status p = Voting" "BlockNumber p = DeadlineBlockNumber nf"
    "pr_Type p = nf_Type nf"
  using assms unfolding gov_inv_def by blast

lemma gov_inv_distinct: "gov_inv k g \<Longrightarrow> distinct (map nf_ID (notFinished g))"
  by (simp add: gov_inv_def)

lemma gov_inv_next:
  assumes "gov_inv k g"
  obtains n where "nextProposalID (gov g) = Some n" "unat n + k < 2 ^ 64" "\<And>i. proposals (gov g) i \<noteq> None \<Longrightarrow> i < n"
  using assms unfolding gov_inv_def by blast

lemma gov_invI:
  assumes "\<And>i p. proposals (gov g) i = Some p \<Longrightarrow> proposal_ok i p" and "nextProposalID (gov g) = Some n" and "unat n + k < 2 ^ 64"
    and "\<And>i. proposals (gov g) i \<noteq> None \<Longrightarrow> i < n" and "distinct (map nf_ID (notFinished g))"
    and "\<And>nf. nf \<in> set (notFinished g) \<Longrightarrow> \<exists>p. proposals (gov g) (nf_ID nf) = Some p \<and> pr_Status p = Voting \<and>
        BlockNumber p = DeadlineBlockNumber nf \<and> pr_Type p = nf_Type nf"
  shows "gov_inv k g"
  unfolding gov_inv_def using assms by blast

text \<open>Storing a proposal that is not listed as open, or that is and is still being voted on.\<close>

lemma gov_inv_put:
  assumes inv: "gov_inv k g" and p: "proposal_ok i p" and old: "proposals (gov g) i \<noteq> None"
    and listed: "i \<notin> nf_ID ` set (notFinished g) \<or>
      (pr_Status p = Voting \<and> (\<exists>q. proposals (gov g) i = Some q \<and> BlockNumber p = BlockNumber q \<and> pr_Type p = pr_Type q))"
  shows "gov_inv k (putProposal p g)"
proof -
  have [simp]: "pr_ID p = i" using p by (simp add: proposal_ok_def)
  obtain n where n: "nextProposalID (gov g) = Some n" "unat n + k < 2 ^ 64" "\<And>i. proposals (gov g) i \<noteq> None \<Longrightarrow> i < n"
    using gov_inv_next [OF inv] by metis
  have listed': "\<exists>q. proposals (gov (putProposal p g)) (nf_ID nf) = Some q \<and> pr_Status q = Voting \<and>
      BlockNumber q = DeadlineBlockNumber nf \<and> pr_Type q = nf_Type nf" if nf: "nf \<in> set (notFinished g)" for nf
  proof -
    obtain r where r: "proposals (gov g) (nf_ID nf) = Some r" "pr_Status r = Voting" "BlockNumber r = DeadlineBlockNumber nf"
      "pr_Type r = nf_Type nf" using gov_inv_listed [OF inv nf] by metis
    show ?thesis
    proof (cases "nf_ID nf = i")
      case True
      then have "i \<in> nf_ID ` set (notFinished g)" using nf by blast
      then show ?thesis using True r listed by auto
    qed (use r in simp)
  qed
  show ?thesis
  proof (rule gov_invI [of _ n])
    show "proposal_ok j q" if "proposals (gov (putProposal p g)) j = Some q" for j q
      using that p gov_inv_ok [OF inv] by (cases "j = i") auto
    show "j < n" if "proposals (gov (putProposal p g)) j \<noteq> None" for j
      using that n(3) [of j] n(3) [OF old] by (cases "j = i") auto
  qed (use n gov_inv_distinct [OF inv] listed' in simp_all)
qed

lemma gov_inv_drop:
  assumes "gov_inv k g"
  shows "gov_inv k (putNotFinished (filter P (notFinished g)) g)"
  using assms by (auto simp: gov_inv_def distinct_map_filter)

section \<open>Closing proposals that are past their deadline\<close>

definition expired_to :: "vm_ctx \<Rightarrow> gov_world \<Rightarrow> gov_world \<Rightarrow> bool" where
  "expired_to ctx g g' \<longleftrightarrow> same_chain g g' \<and> nextProposalID (gov g') = nextProposalID (gov g) \<and>
     set (notFinished g') \<subseteq> set (notFinished g) \<and>
     (\<forall>i. proposals (gov g') i = proposals (gov g) i \<or>
        (i \<notin> nf_ID ` set (notFinished g') \<and> (\<exists>p. proposals (gov g) i = Some p \<and> pr_Status p = Voting \<and>
           BlockNumber p \<le> ctx_BlockNumber ctx \<and> proposals (gov g') i = Some (p\<lparr>pr_Status := Rejected\<rparr>))))"

lemma expired_to_refl [simp]: "expired_to ctx g g"
  by (simp add: expired_to_def)

lemma expired_to_trans:
  assumes "expired_to ctx g g'" and "expired_to ctx g' g''"
  shows "expired_to ctx g g''"
proof -
  have "proposals (gov g'') i = proposals (gov g) i \<or>
      (i \<notin> nf_ID ` set (notFinished g'') \<and> (\<exists>p. proposals (gov g) i = Some p \<and> pr_Status p = Voting \<and>
         BlockNumber p \<le> ctx_BlockNumber ctx \<and> proposals (gov g'') i = Some (p\<lparr>pr_Status := Rejected\<rparr>)))" for i
  proof (cases "proposals (gov g') i = proposals (gov g) i")
    case True
    then show ?thesis using assms unfolding expired_to_def by metis
  next
    case False
    then obtain p where p: "i \<notin> nf_ID ` set (notFinished g')" "proposals (gov g) i = Some p" "pr_Status p = Voting"
      "BlockNumber p \<le> ctx_BlockNumber ctx" "proposals (gov g') i = Some (p\<lparr>pr_Status := Rejected\<rparr>)"
      using assms(1) unfolding expired_to_def by metis
    have "set (notFinished g'') \<subseteq> set (notFinished g')" using assms(2) by (simp add: expired_to_def)
    then have "i \<notin> nf_ID ` set (notFinished g'')" using p(1) by blast
    moreover have "proposals (gov g'') i = proposals (gov g') i"
    proof (rule ccontr)
      assume "\<not> ?thesis"
      then obtain q where "proposals (gov g') i = Some q" "pr_Status q = Voting"
        using assms(2) unfolding expired_to_def by metis
      then show False using p(5) by auto
    qed
    ultimately show ?thesis using p by auto
  qed
  moreover have "same_chain g g''" using assms by (auto simp: expired_to_def intro: same_chain_trans)
  moreover have "set (notFinished g'') \<subseteq> set (notFinished g)" "nextProposalID (gov g'') = nextProposalID (gov g)"
    using assms by (auto simp: expired_to_def)
  ultimately show ?thesis by (simp add: expired_to_def)
qed

lemma expireOne_cases:
  assumes res: "expireOne G ctx m nf g = Inr g'"
  obtains "g' = g" "DeadlineBlockNumber nf \<le> ctx_BlockNumber ctx \<Longrightarrow> \<exists>p. proposals (gov g) (nf_ID nf) = Some p \<and> pr_Status p \<noteq> Voting"
  | p g1 where "DeadlineBlockNumber nf \<le> ctx_BlockNumber ctx" "proposals (gov g) (nf_ID nf) = Some p" "pr_Status p = Voting"
    "g1 = g\<lparr>gov := (gov g)\<lparr>proposals := (proposals (gov g))(nf_ID nf \<mapsto> p\<lparr>pr_Status := Rejected\<rparr>)\<rparr>\<rparr>"
    "nf_ID nf \<in> nf_ID ` set (notFinished g1)"
    "same_core (putNotFinished (filter (\<lambda>x. nf_ID x \<noteq> nf_ID nf) (notFinished g1)) g1) g'"
proof (cases "DeadlineBlockNumber nf \<le> ctx_BlockNumber ctx")
  case False
  then show thesis using res that(1) by (simp add: expireOne_def)
next
  case True
  then obtain p where p: "proposals (gov g) (nf_ID nf) = Some p" using res by (auto simp: expireOne_def ebind_Inr_iff)
  show thesis
  proof (cases "pr_Status p = Voting")
    case False
    then have "pr_Status p = Approved \<or> pr_Status p = Rejected" by (cases "pr_Status p") auto
    then show thesis using res that(1) True p False by (auto simp: expireOne_def)
  next
    case voting: True
    let ?p = "p\<lparr>pr_Status := Rejected\<rparr>"
    let ?g1 = "g\<lparr>gov := (gov g)\<lparr>proposals := (proposals (gov g))(nf_ID nf \<mapsto> ?p)\<rparr>\<rparr>"
    obtain g2 g3 where g2: "Governance_removeNotFinishedProposal (nf_ID nf) ?g1 = Inr g2"
      and g3: "CleanProposal G ctx ?p g2 = Inr g3" "g' = emitFor G m ?p g3"
      using res True p voting by (auto simp: expireOne_def ebind_Inr_iff Let_def)
    note R = removeNotFinished_Inr [OF g2]
    have "same_core g2 g'" using CleanProposal_core [OF g3(1)] g3(2) by simp
    then show thesis using that(2) [OF True p voting refl] R by simp
  qed
qed

lemma expireOne_spec:
  assumes inv: "gov_inv k g" and res: "expireOne G ctx m nf g = Inr g'"
    and from_list: "nf \<in> set ps" "distinct (map nf_ID ps)" "set (notFinished g) \<subseteq> set ps"
  shows "gov_inv k g'" "expired_to ctx g g'"
    "DeadlineBlockNumber nf \<le> ctx_BlockNumber ctx \<Longrightarrow> nf_ID nf \<notin> nf_ID ` set (notFinished g')"
proof -
  have "gov_inv k g' \<and> expired_to ctx g g' \<and>
    (DeadlineBlockNumber nf \<le> ctx_BlockNumber ctx \<longrightarrow> nf_ID nf \<notin> nf_ID ` set (notFinished g'))"
    using res
  proof (cases rule: expireOne_cases)
    case 1
    then show ?thesis using inv by (fastforce simp: gov_inv_def)
  next
    case (2 p g1)
    let ?p = "p\<lparr>pr_Status := Rejected\<rparr>"
    let ?g2 = "putNotFinished (filter (\<lambda>x. nf_ID x \<noteq> nf_ID nf) (notFinished g1)) g1"
    have ok: "proposal_ok (nf_ID nf) p" using inv 2(2) by (simp add: gov_inv_def)
    have g1: "g1 = putProposal ?p g" using ok by (simp add: 2(4) putProposal_def proposal_ok_def)
    have list: "notFinished g1 = notFinished g" by (simp add: g1)
    obtain x where x: "x \<in> set (notFinished g)" "nf_ID x = nf_ID nf" using 2(5) list by auto
    then have "x = nf" using from_list by (metis distinct_map inj_onD subsetD)
    then have deadline: "BlockNumber p = DeadlineBlockNumber nf" using inv x 2(2) by (auto simp: gov_inv_def)
    have "gov_inv k (putProposal ?p (putNotFinished (filter (\<lambda>x. nf_ID x \<noteq> nf_ID nf) (notFinished g)) g))"
      by (rule gov_inv_put [OF gov_inv_drop [OF inv]]) (use ok 2(2) in \<open>auto simp: proposal_ok_def\<close>)
    then have "gov_inv k ?g2" by (rule gov_inv_cong) (simp_all add: g1)
    then have inv': "gov_inv k g'" by (rule gov_inv_cong) (use core_fields [OF 2(6)] in simp_all)
    have props: "proposals (gov g') = (proposals (gov g))(nf_ID nf \<mapsto> ?p)"
      and open_list: "notFinished g' = filter (\<lambda>x. nf_ID x \<noteq> nf_ID nf) (notFinished g)"
      using core_fields [OF 2(6)] ok by (simp_all add: g1 proposal_ok_def)
    have "expired_to ctx g g'" unfolding expired_to_def
    proof (intro conjI allI)
      show "same_chain g g'" "nextProposalID (gov g') = nextProposalID (gov g)"
        using core_fields [OF 2(6)] by (simp_all add: same_chain_def g1 putNotFinished_def putProposal_def)
      show "set (notFinished g') \<subseteq> set (notFinished g)" by (auto simp: open_list)
      fix i
      have "BlockNumber p \<le> ctx_BlockNumber ctx" using deadline 2(1) by simp
      then show "proposals (gov g') i = proposals (gov g) i \<or>
        (i \<notin> nf_ID ` set (notFinished g') \<and> (\<exists>p. proposals (gov g) i = Some p \<and> pr_Status p = Voting \<and>
           BlockNumber p \<le> ctx_BlockNumber ctx \<and> proposals (gov g') i = Some (p\<lparr>pr_Status := Rejected\<rparr>)))"
        using 2(2,3) by (cases "i = nf_ID nf") (auto simp: props open_list)
    qed
    moreover have "nf_ID nf \<notin> nf_ID ` set (notFinished g')" by (auto simp: open_list)
    ultimately show ?thesis using inv' by blast
  qed
  then show "gov_inv k g'" "expired_to ctx g g'"
    "DeadlineBlockNumber nf \<le> ctx_BlockNumber ctx \<Longrightarrow> nf_ID nf \<notin> nf_ID ` set (notFinished g')" by auto
qed

lemma expire_list:
  assumes "distinct (map nf_ID ps)"
  shows "efold (expireOne G ctx m) xs g = Inr g' \<Longrightarrow> gov_inv k g \<Longrightarrow> set xs \<subseteq> set ps \<Longrightarrow> set (notFinished g) \<subseteq> set ps \<Longrightarrow>
    gov_inv k g' \<and> expired_to ctx g g' \<and>
    (\<forall>nf\<in>set xs. DeadlineBlockNumber nf \<le> ctx_BlockNumber ctx \<longrightarrow> nf_ID nf \<notin> nf_ID ` set (notFinished g'))"
proof (induction xs arbitrary: g)
  case (Cons x xs)
  from Cons.prems(1) obtain g1 where g1: "expireOne G ctx m x g = Inr g1" "efold (expireOne G ctx m) xs g1 = Inr g'"
    by (auto simp: ebind_Inr_iff)
  have x: "x \<in> set ps" using Cons.prems(3) by simp
  note S = expireOne_spec [OF Cons.prems(2) g1(1) x assms Cons.prems(4)]
  have sub: "set (notFinished g1) \<subseteq> set ps" using S(2) Cons.prems(4) by (auto simp: expired_to_def)
  have IH: "gov_inv k g' \<and> expired_to ctx g1 g' \<and>
    (\<forall>nf\<in>set xs. DeadlineBlockNumber nf \<le> ctx_BlockNumber ctx \<longrightarrow> nf_ID nf \<notin> nf_ID ` set (notFinished g'))"
    by (rule Cons.IH [OF g1(2) S(1) _ sub]) (use Cons.prems(3) in simp)
  moreover have "set (notFinished g') \<subseteq> set (notFinished g1)" using IH by (auto simp: expired_to_def)
  ultimately show ?case using expired_to_trans [OF S(2)] S(3) by auto
qed simp

lemma checkAndUpdateState_spec:
  assumes inv: "gov_inv k g" and res: "Governance_checkAndUpdateState G ctx m g = Inr g'"
  shows "gov_inv k g'" "expired_to ctx g g'"
    "\<And>nf. nf \<in> set (notFinished g') \<Longrightarrow> ctx_BlockNumber ctx < DeadlineBlockNumber nf"
proof -
  have res': "efold (expireOne G ctx m) (notFinished g) g = Inr g'"
    using res by (auto simp: Governance_checkAndUpdateState_def notFinished_def split: option.splits)
  have dist: "distinct (map nf_ID (notFinished g))" using inv by (simp add: gov_inv_def)
  note E = expire_list [OF dist res' inv subset_refl subset_refl]
  show "gov_inv k g'" "expired_to ctx g g'" using E by auto
  show "ctx_BlockNumber ctx < DeadlineBlockNumber nf" if "nf \<in> set (notFinished g')" for nf
  proof -
    have "nf \<in> set (notFinished g)" using E that by (auto simp: expired_to_def)
    then show ?thesis using E that by (metis image_eqI linorder_not_le)
  qed
qed

section \<open>Proposing\<close>

lemma emit_fields [simp]:
  "same_core g (Governance_EmitProposeEvent G p g)" "same_core g (Governance_EmitVoteEvent G p g)"
  by simp_all

lemma notFinished_nextID [simp]: "notFinished (g\<lparr>gov := (gov g)\<lparr>nextProposalID := n\<rparr>\<rparr>) = notFinished g"
  by (simp add: notFinished_def)

lemma addNotFinished_eq:
  assumes "distinct (map nf_ID (notFinished g))" and "nf_ID nf \<notin> nf_ID ` set (notFinished g)"
  shows "Governance_addNotFinishedProposal nf g = putNotFinished (notFinished g @ [nf]) g"
proof -
  have "uniqBy nf_ID (notFinished g @ [nf]) = notFinished g @ [nf]" using assms by (intro uniqBy_id) auto
  then show ?thesis by (simp add: Governance_addNotFinishedProposal_def notFinished_def split: option.splits)
qed

text \<open>A new proposal gets the next number, and is open until its deadline.\<close>

lemma createProposal_spec:
  assumes inv: "gov_inv (Suc k) g"
    and res: "Governance_createProposal G ctx tot t title desc deadline extra b g = Inr g'"
  shows "gov_inv k g'" "same_chain g g'"
    "\<And>j q. proposals (gov g) j = Some q \<Longrightarrow> proposals (gov g') j = Some q"
proof -
  obtain n where n: "nextProposalID (gov g) = Some n" "unat n + Suc k < 2 ^ 64" "\<And>i. proposals (gov g) i \<noteq> None \<Longrightarrow> i < n"
    using gov_inv_next [OF inv] by metis
  define p where "p = \<lparr>pr_ID = n, pr_Type = t, Strategy = 0, Proposer = addrString G (ctx_From ctx), Title = title, pr_Desc = desc,
      BlockNumber = deadline, TotalVotes = tot, PassVotes = (if b then [addrString G (ctx_From ctx)] else []), RejectVotes = [],
      pr_Status = Voting, Extra = extra, CreatedBlockNumber = ctx_BlockNumber ctx, EffectiveBlockNumber = 0,
      ExecuteSuccess = False, ExecuteFailedMsg = None\<rparr>"
  define g2 where "g2 = Governance_addNotFinishedProposal \<lparr>nf_ID = n, DeadlineBlockNumber = deadline, nf_Type = t\<rparr>
      (putProposal p (g\<lparr>gov := (gov g)\<lparr>nextProposalID := Some (n + 1)\<rparr>\<rparr>))"
  have core: "same_core g2 g'"
    using res n(1) by (auto simp: Governance_createProposal_def Let_def p_def g2_def)
  have fresh: "proposals (gov g) n = None" using n(3) [of n] by (cases "proposals (gov g) n") auto
  have new: "n \<notin> nf_ID ` set (notFinished g)"
  proof
    assume "n \<in> nf_ID ` set (notFinished g)"
    then show False using gov_inv_listed [OF inv] fresh by (metis imageE option.distinct(1))
  qed
  have g2: "g2 = putNotFinished (notFinished g @ [\<lparr>nf_ID = n, DeadlineBlockNumber = deadline, nf_Type = t\<rparr>])
      (putProposal p (g\<lparr>gov := (gov g)\<lparr>nextProposalID := Some (n + 1)\<rparr>\<rparr>))"
    unfolding g2_def using new gov_inv_distinct [OF inv] by (subst addNotFinished_eq) simp_all
  have fields: "proposals (gov g') = (proposals (gov g))(n \<mapsto> p)" "nextProposalID (gov g') = Some (n + 1)"
    "notFinished g' = notFinished g @ [\<lparr>nf_ID = n, DeadlineBlockNumber = deadline, nf_Type = t\<rparr>]"
    using core_fields [OF core] by (simp_all add: g2 p_def)
  have next_n: "unat (n + 1) = Suc (unat n)" using n(2) by (simp add: unat_word_ariths)
  show "gov_inv k g'"
  proof (rule gov_invI [of _ "n + 1"])
    show "proposal_ok j q" if "proposals (gov g') j = Some q" for j q
      using that gov_inv_ok [OF inv, of j q] by (cases "j = n") (auto simp: fields p_def proposal_ok_def)
    show "j < n + 1" if "proposals (gov g') j \<noteq> None" for j
      using that n(3) [of j] next_n by (cases "j = n") (auto simp: fields word_less_nat_alt)
    show "distinct (map nf_ID (notFinished g'))" using gov_inv_distinct [OF inv] new by (auto simp: fields)
    show "\<exists>q. proposals (gov g') (nf_ID nf) = Some q \<and> pr_Status q = Voting \<and>
        BlockNumber q = DeadlineBlockNumber nf \<and> pr_Type q = nf_Type nf" if "nf \<in> set (notFinished g')" for nf
    proof (cases "nf \<in> set (notFinished g)")
      case True
      then show ?thesis using gov_inv_listed [OF inv True] fresh by (metis fields(1) fun_upd_apply option.distinct(1))
    qed (use that in \<open>auto simp: fields p_def\<close>)
  qed (use fields n(2) next_n in simp_all)
  show "same_chain g g'" using core_fields(4-6) [OF core]
    by (simp add: same_chain_def g2 putProposal_def putNotFinished_def)
  show "proposals (gov g') j = Some q" if "proposals (gov g) j = Some q" for j q
    using that fresh by (auto simp: fields)
qed

definition only_rejects :: "u64 set \<Rightarrow> gov_world \<Rightarrow> gov_world \<Rightarrow> bool" where
  "only_rejects S g g' \<longleftrightarrow> (\<forall>j q. j \<notin> S \<longrightarrow> proposals (gov g) j = Some q \<longrightarrow>
     proposals (gov g') j = Some q \<or> (pr_Status q = Voting \<and> proposals (gov g') j = Some (q\<lparr>pr_Status := Rejected\<rparr>)))"

lemma expired_only_rejects: "expired_to ctx g g' \<Longrightarrow> only_rejects {} g g'"
  unfolding expired_to_def only_rejects_def by (metis option.inject)

lemma Propose_spec:
  assumes inv: "gov_inv (Suc k) g" and res: "Governance_Propose G ctx t title desc deadline extra g = Inr g'"
  shows "gov_inv k g'" "same_chain g g'" "only_rejects {} g g'"
proof -
  obtain t' g1 g2 tot b where g1: "Governance_checkAndUpdateState G ctx ProposeEvent g = Inr g1"
    and g2: "ProposeArgsCheck G ctx t' extra g1 = Inr g2"
    and g': "Governance_createProposal G ctx tot t' title desc deadline extra b g2 = Inr g'"
    using res by (auto simp: Governance_Propose_def ebind_Inr_iff split: if_splits)
  note C = checkAndUpdateState_spec [OF inv g1] and core = ProposeArgsCheck_core [OF g2]
  have "gov_inv (Suc k) g2" by (rule gov_inv_cong [OF C(1)]) (use core_fields [OF core] in simp_all)
  note N = createProposal_spec [OF this g']
  show "gov_inv k g'" by (rule N(1))
  show "same_chain g g'"
    using C(2) same_core_chain [OF core] N(2) by (auto simp: expired_to_def intro: same_chain_trans)
  show "only_rejects {} g g'"
    using expired_only_rejects [OF C(2)] N(3) core_fields(1) [OF core] unfolding only_rejects_def by metis
qed
section \<open>Voting\<close>

definition decided :: "proposal \<Rightarrow> bool" where
  "decided p \<longleftrightarrow> pr_Status p \<noteq> Voting"

lemma settleVote_spec:
  assumes "settleVote G ctx p g = Inr (p', g')"
  shows "proposals (gov g') = (proposals (gov g))(pr_ID p \<mapsto> p')" "nextProposalID (gov g') = nextProposalID (gov g)"
    "notFinished g' = (if decided p then filter (\<lambda>x. nf_ID x \<noteq> pr_ID p) (notFinished g) else notFinished g)"
    "decided p \<Longrightarrow> pr_ID p \<in> nf_ID ` set (notFinished g) \<and> EffectiveBlockNumber p' = ctx_BlockNumber ctx"
    "pr_Status p \<noteq> Approved \<Longrightarrow> same_chain g g'"
    "\<exists>e s m. p' = p\<lparr>EffectiveBlockNumber := e, ExecuteSuccess := s, ExecuteFailedMsg := m\<rparr>"
proof -
  let ?q = "p\<lparr>EffectiveBlockNumber := ctx_BlockNumber ctx\<rparr>"
  let ?h = "putNotFinished (filter (\<lambda>x. nf_ID x \<noteq> pr_ID p) (notFinished g)) (putProposal ?q g)"
  consider (voting) "pr_Status p = Voting" "p' = p" "g' = putProposal p g"
    | (rejected) "pr_Status p = Rejected" "p' = ?q" "g' = ?h" "pr_ID p \<in> nf_ID ` set (notFinished g)"
    | (approved) s m h e where "pr_Status p = Approved" "p' = ?q\<lparr>ExecuteSuccess := s, ExecuteFailedMsg := m\<rparr>"
      "VotePassExecute G ctx ?q ?h = (h, e)" "g' = putProposal p' h" "pr_ID p \<in> nf_ID ` set (notFinished g)"
  proof (cases "pr_Status p")
    case Voting
    then have "p' = p" "g' = putProposal p g" using assms by (auto simp: settleVote_def)
    then show thesis by (rule that(1) [OF Voting])
  next
    case Rejected
    then have g': "p' = ?q" and "Governance_removeNotFinishedProposal (pr_ID p) (putProposal ?q g) = Inr g'"
      using assms by (auto simp: settleVote_def ebind_Inr_iff Let_def)
    note R = removeNotFinished_Inr [OF this(2)]
    show thesis by (rule that(2) [OF Rejected g']) (use R in simp_all)
  next
    case Approved
    then obtain g1 where g1: "Governance_removeNotFinishedProposal (pr_ID p) (putProposal ?q g) = Inr g1"
      using assms by (auto simp: settleVote_def ebind_Inr_iff Let_def)
    note R = removeNotFinished_Inr [OF g1]
    obtain h e where run: "VotePassExecute G ctx ?q ?h = (h, e)" by fastforce
    let ?m = "case e of None \<Rightarrow> ExecuteFailedMsg p | Some x \<Rightarrow> Some x"
    have "g1 = ?h" using R(1) by simp
    then have "p' = ?q\<lparr>ExecuteSuccess := e = None, ExecuteFailedMsg := ?m\<rparr>" "g' = putProposal p' h"
      using assms Approved g1 run by (auto simp: settleVote_def Let_def split: option.splits)
    then show thesis by (rule that(3) [OF Approved _ run]) (use R(2) in simp)
  qed
  note cases = this
  show "proposals (gov g') = (proposals (gov g))(pr_ID p \<mapsto> p')" by (rule cases) (simp_all add: VotePassExecute_core)
  show "nextProposalID (gov g') = nextProposalID (gov g)" by (rule cases) (simp_all add: VotePassExecute_core)
  show "notFinished g' = (if decided p then filter (\<lambda>x. nf_ID x \<noteq> pr_ID p) (notFinished g) else notFinished g)"
    by (rule cases) (simp_all add: decided_def VotePassExecute_core)
  show "decided p \<Longrightarrow> pr_ID p \<in> nf_ID ` set (notFinished g) \<and> EffectiveBlockNumber p' = ctx_BlockNumber ctx"
    by (rule cases) (simp_all add: decided_def)
  show "pr_Status p \<noteq> Approved \<Longrightarrow> same_chain g g'"
    by (rule cases) (simp_all add: same_chain_def putProposal_def putNotFinished_def)
  show "\<exists>e s m. p' = p\<lparr>EffectiveBlockNumber := e, ExecuteSuccess := s, ExecuteFailedMsg := m\<rparr>"
  proof (rule cases)
    assume "p' = p"
    then have "p' = p\<lparr>EffectiveBlockNumber := EffectiveBlockNumber p, ExecuteSuccess := ExecuteSuccess p, ExecuteFailedMsg := ExecuteFailedMsg p\<rparr>"
      by simp
    then show ?thesis by blast
  next
    assume "p' = ?q"
    then have "p' = p\<lparr>EffectiveBlockNumber := ctx_BlockNumber ctx, ExecuteSuccess := ExecuteSuccess p, ExecuteFailedMsg := ExecuteFailedMsg p\<rparr>"
      by simp
    then show ?thesis by blast
  qed auto
qed
lemma castVote_ok:
  assumes "proposal_ok i p" and "v \<notin> set (PassVotes p)" and "v \<notin> set (RejectVotes p)"
  shows "distinct (PassVotes (castVote v r p) @ RejectVotes (castVote v r p))" "Strategy (castVote v r p) = 0"
    "pr_ID (castVote v r p) = i" "BlockNumber (castVote v r p) = BlockNumber p" "pr_Type (castVote v r p) = pr_Type p"
    "TotalVotes (castVote v r p) = TotalVotes p" "pr_Status (castVote v r p) = pr_Status p"
  using assms by (auto simp: castVote_def proposal_ok_def)

lemma UpdateVoteStatus_Inr:
  assumes "DefaultProposalPermissionManager_UpdateVoteStatus p g = Inr p'" and "Strategy p = 0"
  obtains pass reject where "DefaultProposalPermissionManager_totalVotes (PassVotes p) False g = Inr pass"
    "DefaultProposalPermissionManager_totalVotes (RejectVotes p) False g = Inr reject"
    "p' = p\<lparr>pr_Status := calcProposalStatusBySimpleStrategy (TotalVotes p) pass reject\<rparr>"
  using assms by (auto simp: DefaultProposalPermissionManager_UpdateVoteStatus_def ebind_Inr_iff CalcProposalStatus_def)

text \<open>The state after a vote that is settled, in terms of the state before.\<close>

lemma settled_inv:
  assumes inv: "gov_inv k g" and settle: "settleVote G ctx p g = Inr (p', g')"
    and distinct: "distinct (PassVotes p @ RejectVotes p)" "Strategy p = 0"
    and future: "\<And>nf. nf \<in> set (notFinished g) \<Longrightarrow> ctx_BlockNumber ctx < DeadlineBlockNumber nf"
    and old: "proposals (gov g) (pr_ID p) = Some q"
    and same: "pr_ID p \<in> nf_ID ` set (notFinished g) \<Longrightarrow> BlockNumber q = BlockNumber p \<and> pr_Type q = pr_Type p"
  shows "gov_inv k g'" "decided p \<Longrightarrow> ctx_BlockNumber ctx < BlockNumber p"
proof -
  note S = settleVote_spec [OF settle]
  obtain e s m where p': "p' = p\<lparr>EffectiveBlockNumber := e, ExecuteSuccess := s, ExecuteFailedMsg := m\<rparr>" using S(6) by blast
  show early: "ctx_BlockNumber ctx < BlockNumber p" if "decided p"
  proof -
    have "pr_ID p \<in> nf_ID ` set (notFinished g)" using S(4) [OF that] by blast
    then obtain nf where nf: "nf \<in> set (notFinished g)" "nf_ID nf = pr_ID p" by auto
    then have "BlockNumber q = DeadlineBlockNumber nf" using gov_inv_listed [OF inv nf(1)] old by (metis option.inject)
    then show ?thesis using future [OF nf(1)] same nf by force
  qed
  have ok: "proposal_ok (pr_ID p) p'"
    using distinct early S(4) by (auto simp: p' proposal_ok_def decided_def)
  have id: "pr_ID p' = pr_ID p" by (simp add: p')
  define h where "h = (if decided p then putNotFinished (filter (\<lambda>x. nf_ID x \<noteq> pr_ID p) (notFinished g)) g else g)"
  have "gov_inv k (putProposal p' h)"
  proof (rule gov_inv_put [OF _ ok])
    show "gov_inv k h" using inv gov_inv_drop [OF inv] by (simp add: h_def)
    show "proposals (gov h) (pr_ID p) \<noteq> None" using old by (simp add: h_def)
    show "pr_ID p \<notin> nf_ID ` set (notFinished h) \<or> (pr_Status p' = Voting \<and>
        (\<exists>q. proposals (gov h) (pr_ID p) = Some q \<and> BlockNumber p' = BlockNumber q \<and> pr_Type p' = pr_Type q))"
      using old same by (auto simp: h_def p' decided_def)
  qed
  then show "gov_inv k g'" by (rule gov_inv_cong) (simp_all add: S(1-3) h_def id)
qed

lemma Vote_Inr:
  assumes "Governance_Vote G ctx i r g = Inr g'"
  obtains p g1 p1 p2 g2 where "proposals (gov g) i = Some p" "Governance_checkAndUpdateState G ctx VoteEvent g = Inr g1"
    "pr_Status p = Voting" "addrString G (ctx_From ctx) \<notin> set (PassVotes p)" "addrString G (ctx_From ctx) \<notin> set (RejectVotes p)"
    "Governance_isCouncilMember G (ctx_From ctx) g1 = Inr True"
    "DefaultProposalPermissionManager_UpdateVoteStatus (castVote (addrString G (ctx_From ctx)) r p) g1 = Inr p1"
    "settleVote G ctx p1 g1 = Inr (p2, g2)" "same_core g2 g'"
proof -
  let ?v = "addrString G (ctx_From ctx)"
  obtain p g1 p1 p2 g2 g3 where 1: "proposals (gov g) i = Some p" "Governance_checkAndUpdateState G ctx VoteEvent g = Inr g1"
    "Governance_checkBeforeVote G (ctx_From ctx) p r = Inr ()" "Governance_isCouncilMember G (ctx_From ctx) g1 = Inr True"
    "DefaultProposalPermissionManager_UpdateVoteStatus (castVote ?v r p) g1 = Inr p1" "settleVote G ctx p1 g1 = Inr (p2, g2)"
    and g3: "CleanProposal G ctx p2 g2 = Inr g3" "g' = Governance_EmitVoteEvent G p2 g3"
    using assms by (auto simp: Governance_Vote_def ebind_Inr_iff DefaultProposalPermissionManager_VotePermissionCheck_def split: if_splits)
  have "pr_Status p = Voting" "?v \<notin> set (PassVotes p)" "?v \<notin> set (RejectVotes p)"
    using 1(3) by (cases "pr_Status p"; auto simp: Governance_checkBeforeVote_def split: if_splits)+
  moreover have "same_core g2 g'" using CleanProposal_core [OF g3(1)] g3(2) by simp
  ultimately show thesis using that 1 by blast
qed

lemma totalVotes_same_council: "council (gov g') = council (gov g) \<Longrightarrow>
    DefaultProposalPermissionManager_totalVotes vs b g' = DefaultProposalPermissionManager_totalVotes vs b g"
  by (simp add: DefaultProposalPermissionManager_totalVotes_def)

lemma Vote_spec:
  assumes inv: "gov_inv k g" and res: "Governance_Vote G ctx i r g = Inr g'"
  obtains p p' ms pass where "proposals (gov g) i = Some p" "pr_Status p = Voting" "council (gov g) = Some ms"
    "addrString G (ctx_From ctx) \<in> cm_Address ` set ms" "proposals (gov g') i = Some p'" "only_rejects {i} g g'" "gov_inv k g'"
    "\<not> same_chain g g' \<Longrightarrow> pr_Status p' = Approved" "decided p' \<Longrightarrow> ctx_BlockNumber ctx < BlockNumber p"
    "PassVotes p' = PassVotes (castVote (addrString G (ctx_From ctx)) r p)"
    "DefaultProposalPermissionManager_totalVotes (PassVotes p') False g = Inr pass"
    "pr_Status p' = Approved \<longleftrightarrow> TotalVotes p < pass * 2"
proof -
  let ?v = "addrString G (ctx_From ctx)"
  obtain p g1 p1 p2 g2 where p: "proposals (gov g) i = Some p" "pr_Status p = Voting"
    and g1: "Governance_checkAndUpdateState G ctx VoteEvent g = Inr g1"
    and v: "?v \<notin> set (PassVotes p)" "?v \<notin> set (RejectVotes p)" "Governance_isCouncilMember G (ctx_From ctx) g1 = Inr True"
    and p1: "DefaultProposalPermissionManager_UpdateVoteStatus (castVote ?v r p) g1 = Inr p1"
    and p2: "settleVote G ctx p1 g1 = Inr (p2, g2)" "same_core g2 g'"
    using Vote_Inr [OF res] by metis
  note C = checkAndUpdateState_spec [OF inv g1] and S = settleVote_spec [OF p2(1)] and core = core_fields [OF p2(2)]
  have council: "council (gov g1) = council (gov g)" using C(2) by (simp add: expired_to_def same_chain_def)
  note V = castVote_ok [OF gov_inv_ok [OF inv p(1)] v(1,2), of r]
  obtain pass reject where pass: "DefaultProposalPermissionManager_totalVotes (PassVotes (castVote ?v r p)) False g1 = Inr pass"
    and p1': "p1 = (castVote ?v r p)\<lparr>pr_Status := calcProposalStatusBySimpleStrategy (TotalVotes (castVote ?v r p)) pass reject\<rparr>"
    using UpdateVoteStatus_Inr [OF p1 V(2)] by metis
  have p1_fields: "pr_ID p1 = i" "BlockNumber p1 = BlockNumber p" "pr_Type p1 = pr_Type p" "Strategy p1 = 0"
    "distinct (PassVotes p1 @ RejectVotes p1)" using V by (simp_all add: p1')
  obtain e s m where p2': "p2 = p1\<lparr>EffectiveBlockNumber := e, ExecuteSuccess := s, ExecuteFailedMsg := m\<rparr>" using S(6) by blast
  obtain q where q: "proposals (gov g1) i = Some q" "q = p \<or> q = p\<lparr>pr_Status := Rejected\<rparr>"
    using expired_only_rejects [OF C(2)] p(1) unfolding only_rejects_def by blast
  have g2: "gov_inv k g2" "decided p1 \<Longrightarrow> ctx_BlockNumber ctx < BlockNumber p1"
    using settled_inv [OF C(1) p2(1) p1_fields(5,4) C(3), of q] q p1_fields(1-3) by auto
  show thesis
  proof (rule that [of p "the (council (gov g))" p2 pass])
    show "council (gov g) = Some (the (council (gov g)))" "?v \<in> cm_Address ` set (the (council (gov g)))"
      using v(3) council by (auto simp: Governance_isCouncilMember_def ebind_Inr_iff list_ex_iff intro: rev_image_eqI)
    show "gov_inv k g'" by (rule gov_inv_cong [OF g2(1)]) (use core in simp_all)
    show "only_rejects {i} g g'" using expired_only_rejects [OF C(2)] p1_fields(1)
      by (auto simp: only_rejects_def core S(1))
    show "pr_Status p2 = Approved" if "\<not> same_chain g g'"
      using that C(2) S(5) core p2' by (auto simp: expired_to_def same_chain_def)
    show "DefaultProposalPermissionManager_totalVotes (PassVotes p2) False g = Inr pass"
      using pass totalVotes_same_council [OF council] by (simp add: p2' p1')
    show "pr_Status p2 = Approved \<longleftrightarrow> TotalVotes p < pass * 2"
      using V(6) by (simp add: p2' p1' calcProposalStatusBySimpleStrategy_def)
  qed (use p core S(1) p1_fields g2(2) p2' p1' in \<open>simp_all add: decided_def\<close>)
qed

section \<open>Sequences of calls\<close>

definition fresh_storage :: "gov_world \<Rightarrow> bool" where
  "fresh_storage g \<longleftrightarrow> proposals (gov g) = Map.empty \<and> notFinishedProposals (gov g) = None"

lemma GenesisInit_inv:
  assumes "Governance_GenesisInit G genesis g0 = Inr g" and "fresh_storage g0" and "k < 2 ^ 64 - 1"
  shows "gov_inv k g"
  using assms
  by (intro gov_invI [of _ 1])
    (auto simp: Governance_GenesisInit_def CouncilManager_GenesisInit_def ebind_Inr_iff fresh_storage_def notFinished_def)

definition keeps_approved :: "gov_world \<Rightarrow> gov_world \<Rightarrow> bool" where
  "keeps_approved g g' \<longleftrightarrow>
     (\<forall>i p. proposals (gov g) i = Some p \<longrightarrow> pr_Status p = Approved \<longrightarrow> proposals (gov g') i = Some p)"

lemma only_rejects_approved:
  assumes "only_rejects S g g'" and "\<And>i p. i \<in> S \<Longrightarrow> proposals (gov g) i = Some p \<Longrightarrow> pr_Status p = Voting"
  shows "keeps_approved g g'"
  unfolding keeps_approved_def
proof (intro allI impI)
  fix i p
  assume p: "proposals (gov g) i = Some p" "pr_Status p = Approved"
  then have "i \<notin> S" using assms(2) by (metis proposal_status.distinct(1))
  then show "proposals (gov g') i = Some p" using assms(1) p by (auto simp: only_rejects_def)
qed

lemma gov_exec_spec:
  assumes inv: "gov_inv (Suc k) g" and res: "gov_exec G c g = Inr g'"
  shows "gov_inv k g' \<and> keeps_approved g g'"
proof (cases c)
  case (ProposeCall ctx t title desc deadline extra)
  then have "Governance_Propose G ctx t title desc deadline extra g = Inr g'" using res by simp
  note P = Propose_spec [OF inv this]
  show ?thesis using P(1) only_rejects_approved [OF P(3)] by blast
next
  case (VoteCall ctx i r)
  then have vote: "Governance_Vote G ctx i r g = Inr g'" using res by simp
  show ?thesis
  proof (rule Vote_spec [OF gov_inv_less [OF inv] vote])
    fix p
    assume p: "proposals (gov g) i = Some p" "pr_Status p = Voting" and rejects: "only_rejects {i} g g'" and "gov_inv k g'"
    moreover have "keeps_approved g g'" by (rule only_rejects_approved [OF rejects]) (use p in auto)
    ultimately show ?thesis by blast
  qed
next
  case (OtherContracts w x)
  then have g': "g' = g\<lparr>fw := w, wl := x\<rparr>" using res by simp
  have "gov_inv k g'" by (rule gov_inv_cong [OF gov_inv_less [OF inv]]) (simp_all add: g' notFinished_def)
  then show ?thesis by (simp add: g' keeps_approved_def)
qed

lemma gov_run:
  "gov_inv (length cs + k) g \<Longrightarrow> gov_inv k (run_txs (gov_exec G) cs g) \<and> keeps_approved g (run_txs (gov_exec G) cs g)"
proof (induction cs arbitrary: g)
  case (Cons c cs)
  have "gov_inv (length cs + k) (apply_tx (gov_exec G) c g) \<and> keeps_approved g (apply_tx (gov_exec G) c g)"
  proof (cases "gov_exec G c g")
    case (Inl e)
    then show ?thesis using gov_inv_less [of "length cs + k" g] Cons.prems by (simp add: apply_tx_def keeps_approved_def)
  next
    case (Inr g')
    then show ?thesis using gov_exec_spec [of "length cs + k" g G c g'] Cons.prems by (simp add: apply_tx_def)
  qed
  then show ?case using Cons.IH by (fastforce simp: keeps_approved_def)
qed (simp add: keeps_approved_def)

lemma pass_weight_exact:
  assumes "council (gov g) = Some ms" and "full_weight ms < 2 ^ 63"
    and "DefaultProposalPermissionManager_totalVotes vs False g = Inr pass"
  shows "unat (pass * 2) = 2 * weight ms vs"
proof -
  have "unat pass = weight ms vs" using totalVotes_weight(1) [OF assms(1), of vs] assms(2,3) by auto
  then show ?thesis using weight_le_full [of ms vs] assms(2) by (simp add: unat_word_ariths)
qed

section \<open>A small council\<close>

definition small_env :: "(int, int) gov_env" where
  "small_env = \<lparr>addrString = (\<lambda>a. if a = 1 then ''a'' else if a = 2 then ''b'' else if a = 3 then ''c'' else ''d''), hexToAddr = (\<lambda>s. of_nat (length s)), isHexAddr = (\<lambda>_. True),
     jsonCandidates = (\<lambda>_. None), jsonGas = (\<lambda>_. Some 7), jsonChainParam = (\<lambda>_. None), jsonProviders = (\<lambda>_. Some [''a'', ''b'']),
     jsonRegister = (\<lambda>_. Some \<lparr>rs_ConsensusPubKey = ''k'', rs_P2PPubKey = ''p'',
       rs_MetaData = \<lparr>Name = ''n'', Desc = ''d'', ImageURL = '''', WebsiteURL = ''''\<rparr>,
       ConsensusPrivateKeySignature = '''', P2PPrivateKeySignature = ''''\<rparr>),
     jsonRemove = (\<lambda>_. None), jsonUpgrade = (\<lambda>_. None), hexNormal = (\<lambda>s. s), consKeyOk = (\<lambda>_. True), p2pIDFrom = Some,
     verifyP2P = (\<lambda>_ _ _. True), verifyConsensus = (\<lambda>_ _ _. True), floats = int_float\<rparr>"

definition small_council :: "council_member list" where
  "small_council = map (\<lambda>s. \<lparr>cm_Address = s, cm_Weight = 1, cm_Name = s\<rparr>) [''a'', ''b'', ''c'', ''d'']"

definition small_proposal :: "proposal_type \<Rightarrow> proposal" where
  "small_proposal t = \<lparr>pr_ID = 1, pr_Type = t, Strategy = 0, Proposer = ''a'', Title = ''t'', pr_Desc = ''d'', BlockNumber = 10,
     TotalVotes = 4, PassVotes = [''a''], RejectVotes = [], pr_Status = Voting, Extra = [], CreatedBlockNumber = 1,
     EffectiveBlockNumber = 0, ExecuteSuccess = False, ExecuteFailedMsg = None\<rparr>"

definition small_gov :: "proposal_type \<Rightarrow> gov_world" where
  "small_gov t = \<lparr>fw = empty_world,
     gov = \<lparr>council = Some small_council, nextProposalID = Some 2, proposals = [1 \<mapsto> small_proposal t],
       notFinishedProposals = Some [\<lparr>nf_ID = 1, DeadlineBlockNumber = 10, nf_Type = t\<rparr>],
       pendingNameIndex = [''n'' \<mapsto> ()], pendingP2PIDIndex = [''p'' \<mapsto> ()], pendingConsensusPubKeyIndex = [''k'' \<mapsto> ()],
       pendingRemoveNodeIDIndex = Map.empty\<rparr>,
     wl = \<lparr>authInfos = Map.empty, providerInfos = Map.empty, wl_logs = []\<rparr>, gov_logs = [], gasCost = None\<rparr>"

definition small_ctx :: "address \<Rightarrow> u64 \<Rightarrow> vm_ctx" where
  "small_ctx a n = \<lparr>ctx_From = a, ctx_Value = None, ctx_CallFromSystem = False, ctx_Time = 0, ctx_BlockNumber = n\<rparr>"

lemma small_gov_inv: "k < 2 ^ 64 - 2 \<Longrightarrow> gov_inv k (small_gov t)"
  by (rule gov_invI [of _ 2]) (auto simp: small_gov_def small_proposal_def proposal_ok_def notFinished_def split: if_splits)

lemmas small_defs = small_env_def small_council_def small_proposal_def small_gov_def small_ctx_def

text \<open>A chain with that council, and the calls by which it elects the same members in another order.\<close>

definition electing_env :: "(int, int) gov_env" where
  "electing_env = small_env\<lparr>jsonCandidates := \<lambda>_. Some (rev small_council)\<rparr>"

definition blank_gov :: gov_world where
  "blank_gov = (small_gov CouncilElect)\<lparr>gov := \<lparr>council = None, nextProposalID = None, proposals = Map.empty,
     notFinishedProposals = None, pendingNameIndex = Map.empty, pendingP2PIDIndex = Map.empty,
     pendingConsensusPubKeyIndex = Map.empty, pendingRemoveNodeIDIndex = Map.empty\<rparr>\<rparr>"

definition started_gov :: gov_world where
  "started_gov = blank_gov\<lparr>gov := (gov blank_gov)\<lparr>council := Some small_council, nextProposalID := Some 1\<rparr>\<rparr>"

definition small_genesis :: genesis_config where
  "small_genesis = (defaultGenesisConfig id id ''wrf'')\<lparr>CouncilMembers := small_council\<rparr>"

lemma started: "Governance_GenesisInit electing_env small_genesis blank_gov = Inr started_gov" "fresh_storage blank_gov"
  by (simp_all add: Governance_GenesisInit_def CouncilManager_GenesisInit_def started_gov_def blank_gov_def small_gov_def
      electing_env_def small_env_def small_genesis_def small_council_def fresh_storage_def)

definition electing_calls :: "gov_call list" where
  "electing_calls = [ProposeCall (small_ctx 1 1) 0 ''t'' ''d'' 10 [], VoteCall (small_ctx 2 2) 1 0]"

lemma small_full_weight: "full_weight small_council = 4"
  by (simp add: full_weight_def small_council_def)
section \<open>What the council can rely on\<close>

text \<open>
  C3: Nothing outside the proposals changes (not the other contracts' state, not the white list of providers,
  not the council itself) through any call of the contract, unless that call is a vote, by a member of the
  council, on a proposal that is open and not past its deadline, and with that vote the members who
  are for it weigh more than half of the total weight recorded when it was proposed.
\<close>

theorem governance_needs_majority:
  assumes genesis: "Governance_GenesisInit G genesis g0 = Inr g" "fresh_storage g0"
    and calls: "run_txs (gov_exec G) cs g = g1" "length cs < 2 ^ 64 - 2"
    and call: "gov_exec G c g1 = Inr g'" "\<And>w x. c \<noteq> OtherContracts w x" "\<not> same_chain g1 g'"
    and council: "council (gov g1) = Some ms" "full_weight ms < 2 ^ 63"
  shows "\<exists>ctx i r p p'. c = VoteCall ctx i r \<and> addrString G (ctx_From ctx) \<in> cm_Address ` set ms \<and>
    proposals (gov g1) i = Some p \<and> pr_Status p = Voting \<and> ctx_BlockNumber ctx < BlockNumber p \<and>
    proposals (gov g') i = Some p' \<and> pr_Status p' = Approved \<and> unat (TotalVotes p) < 2 * weight ms (PassVotes p')"
proof -
  have "gov_inv (length cs + 1) g" using GenesisInit_inv [OF genesis] calls(2) by simp
  then have inv: "gov_inv (Suc 0) g1" using gov_run calls(1) by fastforce
  show ?thesis
  proof (cases c)
    case (ProposeCall ctx t title desc deadline extra)
    then have "Governance_Propose G ctx t title desc deadline extra g1 = Inr g'" using call(1) by simp
    then show ?thesis using Propose_spec(2) [OF inv] call(3) by blast
  next
    case (VoteCall ctx i r)
    then have vote: "Governance_Vote G ctx i r g1 = Inr g'" using call(1) by simp
    show ?thesis
    proof (rule Vote_spec [OF inv vote])
      fix p p' ms' pass
      assume p: "proposals (gov g1) i = Some p" "pr_Status p = Voting" "proposals (gov g') i = Some p'"
        and ms': "council (gov g1) = Some ms'" "addrString G (ctx_From ctx) \<in> cm_Address ` set ms'"
        and approved: "\<not> same_chain g1 g' \<Longrightarrow> pr_Status p' = Approved" "decided p' \<Longrightarrow> ctx_BlockNumber ctx < BlockNumber p"
        and pass: "DefaultProposalPermissionManager_totalVotes (PassVotes p') False g1 = Inr pass"
          "(pr_Status p' = Approved) = (TotalVotes p < pass * 2)"
      have "pr_Status p' = Approved" using approved(1) call(3) by blast
      moreover have "ctx_BlockNumber ctx < BlockNumber p" using approved(2) calculation by (simp add: decided_def)
      moreover have "unat (TotalVotes p) < 2 * weight ms (PassVotes p')"
        using pass(2) calculation(1) pass_weight_exact [OF council pass(1)] by (simp add: word_less_nat_alt)
      ultimately show ?thesis using VoteCall p ms' council(1) by auto
    qed
  qed (use call in auto)
qed

theorem governance_needs_majority_witness:
  "\<exists>g'. gov_exec electing_env (VoteCall (small_ctx 3 3) 1 0) (run_txs (gov_exec electing_env) electing_calls started_gov) = Inr g' \<and>
    (\<exists>ctx i r p p'. VoteCall (small_ctx 3 3) 1 0 = VoteCall ctx i r \<and>
      addrString electing_env (ctx_From ctx) \<in> cm_Address ` set small_council \<and>
      proposals (gov (run_txs (gov_exec electing_env) electing_calls started_gov)) i = Some p \<and> pr_Status p = Voting \<and>
      ctx_BlockNumber ctx < BlockNumber p \<and> proposals (gov g') i = Some p' \<and> pr_Status p' = Approved \<and>
      unat (TotalVotes p) < 2 * weight small_council (PassVotes p'))"
proof -
  let ?g1 = "run_txs (gov_exec electing_env) electing_calls started_gov"
  have before: "council (gov ?g1) = Some small_council" by code_simp
  have "case gov_exec electing_env (VoteCall (small_ctx 3 3) 1 0) ?g1 of
      Inl e \<Rightarrow> False | Inr g' \<Rightarrow> council (gov g') = Some (rev small_council)" by code_simp
  then obtain g' where g': "gov_exec electing_env (VoteCall (small_ctx 3 3) 1 0) ?g1 = Inr g'"
    "council (gov g') = Some (rev small_council)" by (auto simp del: gov_exec.simps split: sum.splits)
  have "\<not> same_chain ?g1 g'" using before g'(2) by (simp add: same_chain_def small_council_def)
  then show ?thesis
    using governance_needs_majority [OF started refl _ g'(1) _ _ before] g'(1)
    by (simp add: electing_calls_def small_full_weight del: gov_exec.simps)
qed




section \<open>Where the bookkeeping falls short\<close>



text \<open>
  C31: A proposal to register a node reserves the name, the p2p id and the consensus key of the node. The first
  vote on it drops the reservation, decided or not: the contract cleans up after every vote, so another
  proposal for the same name may be opened while this one is.
\<close>

theorem reservation_lost:
  assumes p: "proposals (gov g) i = Some p" "pr_Type p = NodeRegister" and a: "jsonRegister G (Extra p) = Some a"
    and inv: "gov_inv k g" and vote: "Governance_Vote G ctx i r g = Inr g'"
  shows "pendingNameIndex (gov g') (Name (rs_MetaData a)) = None \<and> pendingConsensusPubKeyIndex (gov g') (rs_ConsensusPubKey a) = None"
proof -
  obtain g1 p1 p2 g2 g3 where
    p1: "DefaultProposalPermissionManager_UpdateVoteStatus (castVote (addrString G (ctx_From ctx)) r p) g1 = Inr p1"
    and p2: "settleVote G ctx p1 g1 = Inr (p2, g2)" and g3: "CleanProposal G ctx p2 g2 = Inr g3"
    and g': "g' = Governance_EmitVoteEvent G p2 g3"
    using vote p(1) by (auto simp: Governance_Vote_def ebind_Inr_iff split: if_splits)
  have "pr_Type p1 = NodeRegister \<and> Extra p1 = Extra p"
    using p1 p(2) by (auto simp: DefaultProposalPermissionManager_UpdateVoteStatus_def ebind_Inr_iff castVote_def split: if_splits)
  then have "pr_Type p2 = NodeRegister" "Extra p2 = Extra p" using settleVote_spec(6) [OF p2] by auto
  then show ?thesis using g3 a
    by (auto simp: g' CleanProposal_def checkRegister_def ebind_Inr_iff deletePending_def Governance_EmitVoteEvent_def)
qed
theorem reservation_lost_witness:
  "\<exists>g'. Governance_Vote small_env (small_ctx 2 5) 1 0 (small_gov NodeRegister) = Inr g' \<and>
    pendingNameIndex (gov (small_gov NodeRegister)) ''n'' = Some () \<and> pendingNameIndex (gov g') ''n'' = None \<and>
    pendingConsensusPubKeyIndex (gov g') ''k'' = None \<and> Governance_GetNotFinishedProposalIDs g' = [1]"
proof -
  have vote: "case Governance_Vote small_env (small_ctx 2 5) 1 0 (small_gov NodeRegister) of
      Inl e \<Rightarrow> False | Inr g' \<Rightarrow> Governance_GetNotFinishedProposalIDs g' = [1]" by code_simp
  then obtain g' where g': "Governance_Vote small_env (small_ctx 2 5) 1 0 (small_gov NodeRegister) = Inr g'"
    "Governance_GetNotFinishedProposalIDs g' = [1]" by (auto split: sum.splits)
  then show ?thesis
    using reservation_lost [of "small_gov NodeRegister" 1 "small_proposal NodeRegister" small_env
        "\<lparr>rs_ConsensusPubKey = ''k'', rs_P2PPubKey = ''p'',
          rs_MetaData = \<lparr>Name = ''n'', Desc = ''d'', ImageURL = '''', WebsiteURL = ''''\<rparr>,
          ConsensusPrivateKeySignature = '''', P2PPrivateKeySignature = ''''\<rparr>" 0 "small_ctx 2 5" 0 g'] small_gov_inv [of 0 NodeRegister]
    by (simp add: small_gov_def small_proposal_def small_env_def)
qed

text \<open>
  C32: A white list proposal is checked for providers that are named twice, but the check compares the strings.
  Two spellings of one address pass it, and the execution then adds the provider and reports failure:
  the proposal is recorded as not executed although the white list changed.
\<close>

theorem provider_update_partial:
  assumes p: "pr_Type p = WhitelistProviderAdd" "jsonProviders G (Extra p) = Some [s, t]" "isHexAddr G s" "isHexAddr G t"
    and same: "hexToAddr G s = a" "hexToAddr G t = a" "s \<noteq> t" and new: "providerInfos (wl g) a = None"
    and idle: "notFinished g = []"
  shows "ProposeArgsCheck G ctx WhitelistProviderAdd (Extra p) g = Inr g \<and> (\<exists>g'. VotePassExecute G ctx p g = (g', Some (WhitelistErr (ProviderAlreadyExist a))) \<and>
    providerInfos (wl g') = (providerInfos (wl g))(a \<mapsto> \<lparr>pv_Addr = a\<rparr>))"
  using assms
  by (simp add: ProposeArgsCheck_def unchanged_def WhitelistProviderManager_ProposeArgsCheck_def
      WhitelistProviderManager_checkFinishedProposal_def repeatedBy_def uniqBy_def Whitelist_ExistProvider_def
      VotePassExecute_def WhitelistProviderManager_VotePassExecute_def WhitelistProviderManager_getExtraArgs_def
      Whitelist_UpdateProviders_def Let_def putProvider_def)

theorem provider_update_partial_witness:
  "\<exists>g'. VotePassExecute (small_env\<lparr>hexToAddr := \<lambda>s. 9\<rparr>) (small_ctx 1 5) (small_proposal WhitelistProviderAdd)
      (putNotFinished [] (small_gov WhitelistProviderAdd)) = (g', Some (WhitelistErr (ProviderAlreadyExist 9))) \<and>
    providerInfos (wl g') = [9 \<mapsto> \<lparr>pv_Addr = 9\<rparr>]"
  using provider_update_partial [of "small_proposal WhitelistProviderAdd" "small_env\<lparr>hexToAddr := \<lambda>s. 9\<rparr>" "''a''" "''b''" 9
      "putNotFinished [] (small_gov WhitelistProviderAdd)" "small_ctx 1 5"]
  by (simp add: small_defs putNotFinished_def notFinished_def)

end
