(* ===== verification/Contract_Storage.thy ===== *)
theory Contract_Storage
  imports Ledger_Refinement "HOL-Library.Sublist"
begin

text \<open>
  How a system contract keeps its maps and slots in the storage of its account
  (\<open>internal/executor/system/common/persistence_types.go\<close>): a map entry lies under the name of the map, an
  underscore and the printed key, a slot under its name; the first byte says whether the entry is
  there, the rest is the value in JSON. Shown is that this behaves like the options and partial
  functions that the theories of the contracts work with, that no two entries of a contract lie under one key,
  and that a reader never meets bytes it cannot decode.
\<close>

section \<open>Entries\<close>

text \<open>A Go string is its bytes.\<close>

definition strBytes :: "string \<Rightarrow> bytes" where
  "strBytes s = map of_char s"

text \<open>
  \<open>encoding/json\<close> for the type of the values of a map or slot, which works by reflection on that type:
  \<open>marshal\<close> may refuse a value, \<open>unmarshal\<close> bytes that are not the JSON of the type.
\<close>

record 'v codec =
  marshal :: "'v \<Rightarrow> bytes option"
  unmarshal :: "bytes \<Rightarrow> 'v option"

datatype storage_error = MarshalErr | UnmarshalErr | CellNotExist

type_synonym storage = "simple_account \<times> state_changer"

definition accountGetState :: "ledger_env \<Rightarrow> bytes \<Rightarrow> storage \<Rightarrow> (bool \<times> bytes option) \<times> storage" where
  "accountGetState E key st = (case SimpleAccount_GetState E key (fst st) of (r, acc) \<Rightarrow> (r, (acc, snd st)))"

text \<open>\<open>!exist || len(data) == 0 || data[0] == 0\<close> is absent, otherwise \<open>data[1:]\<close> is the value.\<close>

definition cellData :: "bool \<times> bytes option \<Rightarrow> bytes option" where
  "cellData r = (case r of (exist, data) \<Rightarrow>
     (case data of None \<Rightarrow> None
      | Some d \<Rightarrow> if \<not> exist \<or> length d = 0 \<or> hd d = 0 then None else Some (tl d)))"

record ('k, 'v) vm_map =
  mapName :: string
  keyToString :: "'k \<Rightarrow> string"
  mapCodec :: "'v codec"

definition VMMap_stateKey :: "('k, 'v) vm_map \<Rightarrow> 'k \<Rightarrow> bytes" where
  "VMMap_stateKey m k = strBytes (mapName m @ ''_'' @ keyToString m k)"

definition VMMap_Get :: "ledger_env \<Rightarrow> ('k, 'v) vm_map \<Rightarrow> 'k \<Rightarrow> storage \<Rightarrow> (storage_error + 'v option) \<times> storage" where
  "VMMap_Get E m k st =
     (let (r, st1) = accountGetState E (VMMap_stateKey m k) st in
      (case cellData r of
         None \<Rightarrow> Inr None
       | Some d \<Rightarrow> (case unmarshal (mapCodec m) d of None \<Rightarrow> Inl UnmarshalErr | Some v \<Rightarrow> Inr (Some v)), st1))"

definition VMMap_MustGet :: "ledger_env \<Rightarrow> ('k, 'v) vm_map \<Rightarrow> 'k \<Rightarrow> storage \<Rightarrow> (storage_error + 'v) \<times> storage" where
  "VMMap_MustGet E m k st =
     (let (r, st1) = accountGetState E (VMMap_stateKey m k) st in
      (case cellData r of
         None \<Rightarrow> Inl CellNotExist
       | Some d \<Rightarrow> (case unmarshal (mapCodec m) d of None \<Rightarrow> Inl UnmarshalErr | Some v \<Rightarrow> Inr v), st1))"

definition VMMap_Has :: "ledger_env \<Rightarrow> ('k, 'v) vm_map \<Rightarrow> 'k \<Rightarrow> storage \<Rightarrow> bool \<times> storage" where
  "VMMap_Has E m k st =
     (let (r, st1) = accountGetState E (VMMap_stateKey m k) st in (cellData r \<noteq> None, st1))"

definition VMMap_Put :: "ledger_env \<Rightarrow> ('k, 'v) vm_map \<Rightarrow> 'k \<Rightarrow> 'v \<Rightarrow> storage \<Rightarrow> storage_error option \<times> storage" where
  "VMMap_Put E m k v st =
     (case marshal (mapCodec m) v of
        None \<Rightarrow> (Some MarshalErr, st)
      | Some data \<Rightarrow> (None, SimpleAccount_SetState E (VMMap_stateKey m k) (Some (1 # data)) st))"

definition VMMap_Delete :: "ledger_env \<Rightarrow> ('k, 'v) vm_map \<Rightarrow> 'k \<Rightarrow> storage \<Rightarrow> storage_error option \<times> storage" where
  "VMMap_Delete E m k st = (None, SimpleAccount_SetState E (VMMap_stateKey m k) (Some [0]) st)"

record 'v vm_slot =
  slotName :: string
  slotCodec :: "'v codec"

definition VMSlot_stateKey :: "'v vm_slot \<Rightarrow> bytes" where
  "VMSlot_stateKey s = strBytes (slotName s)"

definition VMSlot_Get :: "ledger_env \<Rightarrow> 'v vm_slot \<Rightarrow> storage \<Rightarrow> (storage_error + 'v option) \<times> storage" where
  "VMSlot_Get E s st =
     (let (r, st1) = accountGetState E (VMSlot_stateKey s) st in
      (case cellData r of
         None \<Rightarrow> Inr None
       | Some d \<Rightarrow> (case unmarshal (slotCodec s) d of None \<Rightarrow> Inl UnmarshalErr | Some v \<Rightarrow> Inr (Some v)), st1))"

definition VMSlot_MustGet :: "ledger_env \<Rightarrow> 'v vm_slot \<Rightarrow> storage \<Rightarrow> (storage_error + 'v) \<times> storage" where
  "VMSlot_MustGet E s st =
     (let (r, st1) = accountGetState E (VMSlot_stateKey s) st in
      (case cellData r of
         None \<Rightarrow> Inl CellNotExist
       | Some d \<Rightarrow> (case unmarshal (slotCodec s) d of None \<Rightarrow> Inl UnmarshalErr | Some v \<Rightarrow> Inr v), st1))"

definition VMSlot_Has :: "ledger_env \<Rightarrow> 'v vm_slot \<Rightarrow> storage \<Rightarrow> bool \<times> storage" where
  "VMSlot_Has E s st =
     (let (r, st1) = accountGetState E (VMSlot_stateKey s) st in (cellData r \<noteq> None, st1))"

definition VMSlot_Put :: "ledger_env \<Rightarrow> 'v vm_slot \<Rightarrow> 'v \<Rightarrow> storage \<Rightarrow> storage_error option \<times> storage" where
  "VMSlot_Put E s v st =
     (case marshal (slotCodec s) v of
        None \<Rightarrow> (Some MarshalErr, st)
      | Some data \<Rightarrow> (None, SimpleAccount_SetState E (VMSlot_stateKey s) (Some (1 # data)) st))"

definition VMSlot_Delete :: "ledger_env \<Rightarrow> 'v vm_slot \<Rightarrow> storage \<Rightarrow> storage_error option \<times> storage" where
  "VMSlot_Delete E s st = (None, SimpleAccount_SetState E (VMSlot_stateKey s) (Some [0]) st)"

section \<open>The layout of the contracts\<close>

datatype container = SlotAt string | MapAt string

definition EpochManager_layout :: "container list" where
  "EpochManager_layout = [SlotAt ''currentEpochID'', SlotAt ''nextEpochInfo'', MapAt ''historyEpochInfo'']"

definition LiquidStakingToken_layout :: "container list" where
  "LiquidStakingToken_layout = [SlotAt ''nextID'', MapAt ''info'', MapAt ''owner'', MapAt ''balance'',
     MapAt ''tokenApproval'', MapAt ''operatorApproval'']"

text \<open>The sets of node ids by status lie under the printed number of the status, here \<open>ns\<close>.\<close>

definition NodeManager_layout :: "string list \<Rightarrow> container list" where
  "NodeManager_layout ns = [SlotAt ''nextNodeID'', MapAt ''nodeRegistry'', MapAt ''nodeP2PIDIndex'',
     MapAt ''nodeConsensusPubKeyIndex'', MapAt ''nodeNameIndex'', MapAt ''nextEpochUpdateNodes'',
     SlotAt ''nextEpochUpdatedNodeIDSet'', SlotAt ''activeValidatorVotingPowers''] @ map (\<lambda>n. SlotAt (''status'' @ n)) ns"

definition StakingPool_layout :: "string \<Rightarrow> container list" where
  "StakingPool_layout n = [SlotAt (''stakingPool_'' @ n @ ''_info''),
     MapAt (''stakingPool_'' @ n @ ''_liquidStakingTokenRateHistory'')]"

text \<open>The staking manager and its pools, which have the numbers \<open>ns\<close>, share an account.\<close>

definition StakingManager_layout :: "string list \<Rightarrow> container list" where
  "StakingManager_layout ns = [SlotAt ''availablePools'', MapAt ''proposeBlockCountTable'', MapAt ''gasRewardTable'',
     SlotAt ''stakeRewardPerBlock'', SlotAt ''totalStake'', SlotAt ''lsatEpochTotalStake'', SlotAt ''currentEpochTotalAddStake'',
     SlotAt ''currentEpochTotalUnlockStake'', SlotAt ''currentEpochTotalStakeNotEnoughValidators''] @ concat (map StakingPool_layout ns)"

definition Whitelist_layout :: "container list" where
  "Whitelist_layout = [MapAt ''authInfos'', MapAt ''providerInfos'']"

definition Governance_layout :: "container list" where
  "Governance_layout = [SlotAt ''council'', SlotAt ''nextProposalID'', MapAt ''proposals'', SlotAt ''notFinishedProposals'',
     MapAt ''nodeManager_pendingNameIndex'', MapAt ''nodeManager_pendingP2PIDIndex'',
     MapAt ''nodeManager_pendingConsensusPubKeyIndex'', MapAt ''nodeManager_pendingRemoveNodeIDIndex'']"

section \<open>No two entries share a key\<close>

text \<open>An entry: the slot or map, and the printed key, which is empty for a slot.\<close>

type_synonym cell = "container \<times> string"

fun cellKey :: "cell \<Rightarrow> bytes" where
  "cellKey (SlotAt name, k) = VMSlot_stateKey \<lparr>slotName = name, slotCodec = \<lparr>marshal = (\<lambda>_. None), unmarshal = (\<lambda>_. None)\<rparr> :: unit codec\<rparr>"
| "cellKey (MapAt name, k) = VMMap_stateKey \<lparr>mapName = name, keyToString = id,
     mapCodec = \<lparr>marshal = (\<lambda>_. None), unmarshal = (\<lambda>_. None)\<rparr> :: unit codec\<rparr> k"

fun is_cell :: "container list \<Rightarrow> cell \<Rightarrow> bool" where
  "is_cell L (SlotAt name, k) \<longleftrightarrow> SlotAt name \<in> set L \<and> k = []"
| "is_cell L (MapAt name, k) \<longleftrightarrow> MapAt name \<in> set L"

lemma of_char_u8_inj: "(of_char c :: u8) = of_char d \<longleftrightarrow> c = d"
proof
  assume eq: "(of_char c :: u8) = of_char d"
  have "unat (of_char x :: u8) = of_char x" for x :: char
  proof -
    have "(of_char x :: u8) = of_nat (of_char x)" by (simp only: of_nat_of_char)
    then show ?thesis by (simp only: unat_of_nat) (simp add: of_char_mod_256)
  qed
  then have "(of_char c :: nat) = of_char d" using eq by metis
  then show "c = d" by simp
qed simp

lemma strBytes_inj [simp]: "strBytes s = strBytes t \<longleftrightarrow> s = t"
  unfolding strBytes_def by (rule inj_map_eq_map) (auto simp: inj_def of_char_u8_inj)

lemma cellKey_simps [simp]:
  "cellKey (SlotAt n, k) = strBytes n" "cellKey (MapAt n, k) = strBytes (n @ ''_'' @ k)"
  by (simp_all add: VMSlot_stateKey_def VMMap_stateKey_def)

declare cellKey.simps [simp del]

fun apart :: "container \<Rightarrow> container \<Rightarrow> bool" where
  "apart (SlotAt a) (SlotAt b) \<longleftrightarrow> a \<noteq> b"
| "apart (SlotAt a) (MapAt b) \<longleftrightarrow> \<not> prefix (b @ ''_'') a"
| "apart (MapAt a) (SlotAt b) \<longleftrightarrow> \<not> prefix (a @ ''_'') b"
| "apart (MapAt a) (MapAt b) \<longleftrightarrow> \<not> prefix (a @ ''_'') (b @ ''_'') \<and> \<not> prefix (b @ ''_'') (a @ ''_'')"

lemma apart_keys:
  assumes "apart c d"
  shows "cellKey (c, j) \<noteq> cellKey (d, k)"
proof (cases c; cases d)
  fix a b assume c: "c = MapAt a" and d: "d = MapAt b"
  show ?thesis
  proof
    assume "cellKey (c, j) = cellKey (d, k)"
    then have "(a @ ''_'') @ j = (b @ ''_'') @ k" by (simp add: c d)
    then have "prefix (a @ ''_'') (b @ ''_'') \<or> prefix (b @ ''_'') (a @ ''_'')"
      by (metis prefix_same_cases prefixI)
    then show False using assms by (simp add: c d)
  qed
qed (use assms in \<open>auto simp: prefix_def\<close>)

definition layout_ok :: "container list \<Rightarrow> bool" where
  "layout_ok L \<longleftrightarrow> sorted_wrt apart L"

lemma apart_sym: "apart c d \<longleftrightarrow> apart d c"
  by (cases c; cases d) auto

lemma layout_apart: "layout_ok L \<Longrightarrow> c \<in> set L \<Longrightarrow> d \<in> set L \<Longrightarrow> c \<noteq> d \<Longrightarrow> apart c d"
  unfolding layout_ok_def by (induction L) (auto simp: apart_sym)

lemma layout_keys:
  assumes "layout_ok L" and "is_cell L c" and "is_cell L d" and "cellKey c = cellKey d"
  shows "c = d"
proof -
  obtain x j y k where c: "c = (x, j)" and d: "d = (y, k)" by (cases c; cases d) auto
  have "x \<in> set L" "y \<in> set L" using assms(2,3) by (cases x; cases y; simp add: c d)+
  then have "x = y" using layout_apart [OF assms(1)] apart_keys assms(4) c d by blast
  then show ?thesis using assms(2-4) by (cases y) (auto simp: c d)
qed

text \<open>Names with a common beginning that ends at the first underscore.\<close>

lemma layout_append:
  "layout_ok (L @ M) \<longleftrightarrow> layout_ok L \<and> layout_ok M \<and> (\<forall>c\<in>set L. \<forall>d\<in>set M. apart c d)"
  by (simp add: layout_ok_def sorted_wrt_append)

lemma underscore_free:
  assumes "CHR ''_'' \<notin> set m" and "CHR ''_'' \<notin> set n" and "m @ CHR ''_'' # s = n @ CHR ''_'' # t"
  shows "m = n \<and> s = t"
  using assms
proof (induction m arbitrary: n)
  case Nil
  then show ?case by (cases n) auto
next
  case (Cons c m)
  then show ?case by (cases n) auto
qed

lemma pools_apart:
  assumes "CHR ''_'' \<notin> set m" and "CHR ''_'' \<notin> set n" and "m \<noteq> n"
    and "c \<in> set (StakingPool_layout m)" and "d \<in> set (StakingPool_layout n)"
  shows "apart c d"
proof -
  have "\<not> prefix (m @ CHR ''_'' # s) (n @ CHR ''_'' # t)" "\<not> prefix (n @ CHR ''_'' # s) (m @ CHR ''_'' # t)" for s t
    using underscore_free assms(1-3) unfolding prefix_def by (metis append.assoc append_Cons)+
  moreover have "m @ CHR ''_'' # s \<noteq> n @ CHR ''_'' # t" for s t using underscore_free assms(1-3) by metis
  ultimately show ?thesis using assms(4,5) by (auto simp: StakingPool_layout_def)
qed

lemma pools_layout:
  assumes "distinct ns" and "list_all (\<lambda>n. CHR ''_'' \<notin> set n) ns"
  shows "layout_ok (concat (map StakingPool_layout ns))"
  using assms
proof (induction ns)
  case (Cons n ns)
  have "layout_ok (StakingPool_layout n)" by (auto simp: layout_ok_def StakingPool_layout_def prefix_def)
  moreover have "apart c d" if "c \<in> set (StakingPool_layout n)" "d \<in> set (concat (map StakingPool_layout ns))" for c d
    using that pools_apart [of n _ c d] Cons.prems by (auto simp: list_all_iff)
  ultimately show ?case using Cons by (simp add: layout_append)
qed (simp add: layout_ok_def)

section \<open>Operations of a contract on its storage\<close>

datatype 'v store_op =
    GetCell cell | MustGetCell cell | HasCell cell | PutCell cell 'v | DeleteCell cell

datatype 'v reply = Value "'v option" | Flag bool | Ok | Failed storage_error

definition vmSlot :: "(container \<Rightarrow> 'v codec) \<Rightarrow> string \<Rightarrow> 'v vm_slot" where
  "vmSlot C n = \<lparr>slotName = n, slotCodec = C (SlotAt n)\<rparr>"

definition vmMap :: "(container \<Rightarrow> 'v codec) \<Rightarrow> string \<Rightarrow> (string, 'v) vm_map" where
  "vmMap C n = \<lparr>mapName = n, keyToString = id, mapCodec = C (MapAt n)\<rparr>"

definition maybe :: "storage_error + 'v option \<Rightarrow> 'v reply" where
  "maybe r = (case r of Inl e \<Rightarrow> Failed e | Inr v \<Rightarrow> Value v)"

definition surely :: "storage_error + 'v \<Rightarrow> 'v reply" where
  "surely r = (case r of Inl e \<Rightarrow> Failed e | Inr v \<Rightarrow> Value (Some v))"

definition written :: "storage_error option \<Rightarrow> 'v reply" where
  "written r = (case r of None \<Rightarrow> Ok | Some e \<Rightarrow> Failed e)"

fun store_step :: "ledger_env \<Rightarrow> (container \<Rightarrow> 'v codec) \<Rightarrow> 'v store_op \<Rightarrow> storage \<Rightarrow> 'v reply \<times> storage" where
  "store_step E C (GetCell (SlotAt n, k)) st = apfst maybe (VMSlot_Get E (vmSlot C n) st)"
| "store_step E C (GetCell (MapAt n, k)) st = apfst maybe (VMMap_Get E (vmMap C n) k st)"
| "store_step E C (MustGetCell (SlotAt n, k)) st = apfst surely (VMSlot_MustGet E (vmSlot C n) st)"
| "store_step E C (MustGetCell (MapAt n, k)) st = apfst surely (VMMap_MustGet E (vmMap C n) k st)"
| "store_step E C (HasCell (SlotAt n, k)) st = apfst Flag (VMSlot_Has E (vmSlot C n) st)"
| "store_step E C (HasCell (MapAt n, k)) st = apfst Flag (VMMap_Has E (vmMap C n) k st)"
| "store_step E C (PutCell (SlotAt n, k) v) st = apfst written (VMSlot_Put E (vmSlot C n) v st)"
| "store_step E C (PutCell (MapAt n, k) v) st = apfst written (VMMap_Put E (vmMap C n) k v st)"
| "store_step E C (DeleteCell (SlotAt n, k)) st = apfst written (VMSlot_Delete E (vmSlot C n) st)"
| "store_step E C (DeleteCell (MapAt n, k)) st = apfst written (VMMap_Delete E (vmMap C n) k st)"

text \<open>What the contracts are written against: options and partial functions.\<close>

fun plain_step :: "'v store_op \<Rightarrow> (cell \<rightharpoonup> 'v) \<Rightarrow> 'v reply \<times> (cell \<rightharpoonup> 'v)" where
  "plain_step (GetCell c) m = (Value (m c), m)"
| "plain_step (MustGetCell c) m = (case m c of None \<Rightarrow> Failed CellNotExist | Some v \<Rightarrow> Value (Some v), m)"
| "plain_step (HasCell c) m = (Flag (m c \<noteq> None), m)"
| "plain_step (PutCell c v) m = (Ok, m(c \<mapsto> v))"
| "plain_step (DeleteCell c) m = (Ok, m(c := None))"

fun store_run :: "ledger_env \<Rightarrow> (container \<Rightarrow> 'v codec) \<Rightarrow> 'v store_op list \<Rightarrow> storage \<Rightarrow> 'v reply list \<times> storage" where
  "store_run E C [] st = ([], st)"
| "store_run E C (x # xs) st =
     (let (r, st1) = store_step E C x st; (rs, st2) = store_run E C xs st1 in (r # rs, st2))"

fun plain_run :: "'v store_op list \<Rightarrow> (cell \<rightharpoonup> 'v) \<Rightarrow> 'v reply list \<times> (cell \<rightharpoonup> 'v)" where
  "plain_run [] m = ([], m)"
| "plain_run (x # xs) m = (let (r, m1) = plain_step x m; (rs, m2) = plain_run xs m1 in (r # rs, m2))"

text \<open>
  Every operation is on an entry of the layout, and what is written has the type of the slot or map, as the
  compiler makes sure. A value of the type survives encoding and decoding.
\<close>

fun op_ok :: "container list \<Rightarrow> (container \<Rightarrow> 'v \<Rightarrow> bool) \<Rightarrow> 'v store_op \<Rightarrow> bool" where
  "op_ok L T (GetCell c) \<longleftrightarrow> is_cell L c"
| "op_ok L T (MustGetCell c) \<longleftrightarrow> is_cell L c"
| "op_ok L T (HasCell c) \<longleftrightarrow> is_cell L c"
| "op_ok L T (PutCell c v) \<longleftrightarrow> is_cell L c \<and> T (fst c) v"
| "op_ok L T (DeleteCell c) \<longleftrightarrow> is_cell L c"

definition codecs_ok :: "(container \<Rightarrow> 'v codec) \<Rightarrow> (container \<Rightarrow> 'v \<Rightarrow> bool) \<Rightarrow> bool" where
  "codecs_ok C T \<longleftrightarrow> (\<forall>c v. T c v \<longrightarrow> (\<exists>d. marshal (C c) v = Some d \<and> unmarshal (C c) d = Some v))"

definition raw :: "ledger_env \<Rightarrow> storage \<Rightarrow> bytes \<Rightarrow> bytes option" where
  "raw E st k = cellData (av_state (account_view E (fst st)) k \<noteq> None, av_state (account_view E (fst st)) k)"

definition well_typed :: "ledger_env \<Rightarrow> (container \<Rightarrow> 'v codec) \<Rightarrow> container list \<Rightarrow> (container \<Rightarrow> 'v \<Rightarrow> bool) \<Rightarrow> storage \<Rightarrow> bool" where
  "well_typed E C L T st \<longleftrightarrow>
     (\<forall>c d. is_cell L c \<longrightarrow> raw E st (cellKey c) = Some d \<longrightarrow> (\<exists>v. unmarshal (C (fst c)) d = Some v \<and> T (fst c) v))"

text \<open>The plain map that the bytes stand for.\<close>

definition values_of :: "ledger_env \<Rightarrow> (container \<Rightarrow> 'v codec) \<Rightarrow> container list \<Rightarrow> storage \<Rightarrow> cell \<rightharpoonup> 'v" where
  "values_of E C L st c =
     (if is_cell L c then case raw E st (cellKey c) of None \<Rightarrow> None | Some d \<Rightarrow> unmarshal (C (fst c)) d else None)"

section \<open>Reading and writing bytes\<close>

lemma accountGetState_raw:
  assumes "acc_inv E a (fst st)"
  obtains r st' where "accountGetState E k st = (r, st')" "cellData r = raw E st k" "acc_inv E a (fst st')"
    "raw E st' = raw E st"
proof -
  obtain acc' where get: "SimpleAccount_GetState E k (fst st) =
      ((av_state (account_view E (fst st)) k \<noteq> None, av_state (account_view E (fst st)) k), acc')"
    "acc_inv E a acc'" "account_view E acc' = account_view E (fst st)"
    by (rule SimpleAccount_GetState_view [OF assms])
  show thesis
    by (rule that [of "(av_state (account_view E (fst st)) k \<noteq> None, av_state (account_view E (fst st)) k)" "(acc', snd st)"])
      (use get in \<open>simp_all add: accountGetState_def raw_def fun_eq_iff\<close>)
qed

lemma SetState_raw:
  assumes "env_ok E" and "acc_inv E a (fst st)"
  shows "acc_inv E a (fst (SimpleAccount_SetState E k (Some d) st))"
    "raw E (SimpleAccount_SetState E k (Some d) st) = (raw E st)(k := cellData (True, Some d))"
proof -
  obtain acc s where st: "st = (acc, s)" by (cases st)
  obtain acc1 where get: "SimpleAccount_GetState E k acc =
      ((av_state (account_view E acc) k \<noteq> None, av_state (account_view E acc) k), acc1)"
    "acc_inv E a acc1" "account_view E acc1 = account_view E acc"
    by (rule SimpleAccount_GetState_view [of E a acc k]) (use assms(2) st in auto)
  note D = setters(11,12) [OF assms(1) get(2)]
  note S = setters(5,6) [OF assms(1) D(1), of k "Some d"]
  show "acc_inv E a (fst (SimpleAccount_SetState E k (Some d) st))"
    using S(1) get(1) by (simp add: SimpleAccount_SetState_def st)
  show "raw E (SimpleAccount_SetState E k (Some d) st) = (raw E st)(k := cellData (True, Some d))"
    using S(2) D(2) get(1,3) by (simp add: SimpleAccount_SetState_def st raw_def fun_eq_iff)
qed

text \<open>The operations of slots and maps in one form, by the key and the codec of the entry.\<close>

definition readCell :: "ledger_env \<Rightarrow> 'v codec \<Rightarrow> bytes \<Rightarrow> storage \<Rightarrow> (storage_error + 'v option) \<times> storage" where
  "readCell E c k st = (let (r, st1) = accountGetState E k st in
     (case cellData r of None \<Rightarrow> Inr None | Some d \<Rightarrow> (case unmarshal c d of None \<Rightarrow> Inl UnmarshalErr | Some v \<Rightarrow> Inr (Some v)), st1))"

definition writeCell :: "ledger_env \<Rightarrow> 'v codec \<Rightarrow> bytes \<Rightarrow> 'v \<Rightarrow> storage \<Rightarrow> storage_error option \<times> storage" where
  "writeCell E c k v st = (case marshal c v of None \<Rightarrow> (Some MarshalErr, st)
     | Some data \<Rightarrow> (None, SimpleAccount_SetState E k (Some (1 # data)) st))"

definition insist :: "storage_error + 'v option \<Rightarrow> storage_error + 'v" where
  "insist r = (case r of Inl e \<Rightarrow> Inl e | Inr None \<Rightarrow> Inl CellNotExist | Inr (Some v) \<Rightarrow> Inr v)"

lemma store_step_cells:
  "store_step E C (GetCell c) st = apfst maybe (readCell E (C (fst c)) (cellKey c) st)"
  "store_step E C (MustGetCell c) st = apfst (surely \<circ> insist) (readCell E (C (fst c)) (cellKey c) st)"
  "store_step E C (HasCell c) st = (let (r, st1) = accountGetState E (cellKey c) st in (Flag (cellData r \<noteq> None), st1))"
  "store_step E C (PutCell c v) st = apfst written (writeCell E (C (fst c)) (cellKey c) v st)"
  "store_step E C (DeleteCell c) st = (Ok, SimpleAccount_SetState E (cellKey c) (Some [0]) st)"
proof -
  obtain x k where c: "c = (x, k)" by (cases c)
  note defs = c VMSlot_Get_def VMMap_Get_def VMSlot_MustGet_def VMMap_MustGet_def VMSlot_Has_def VMMap_Has_def VMSlot_Put_def
    VMMap_Put_def VMSlot_Delete_def VMMap_Delete_def VMSlot_stateKey_def VMMap_stateKey_def vmSlot_def vmMap_def readCell_def writeCell_def
  show "store_step E C (GetCell c) st = apfst maybe (readCell E (C (fst c)) (cellKey c) st)"
    by (cases x) (auto simp: defs split: prod.splits option.splits)
  show "store_step E C (MustGetCell c) st = apfst (surely \<circ> insist) (readCell E (C (fst c)) (cellKey c) st)"
    by (cases x) (auto simp: defs insist_def Let_def split: prod.splits option.splits)
  show "store_step E C (HasCell c) st = (let (r, st1) = accountGetState E (cellKey c) st in (Flag (cellData r \<noteq> None), st1))"
    by (cases x) (auto simp: defs Let_def split: prod.splits)
  show "store_step E C (PutCell c v) st = apfst written (writeCell E (C (fst c)) (cellKey c) v st)"
    by (cases x) (auto simp: defs split: option.splits)
  show "store_step E C (DeleteCell c) st = (Ok, SimpleAccount_SetState E (cellKey c) (Some [0]) st)"
    by (cases x) (simp_all add: defs written_def)
qed

lemma same_raw:
  assumes "raw E st' = raw E st"
  shows "values_of E C L st' = values_of E C L st" "well_typed E C L T st' = well_typed E C L T st"
  using assms by (simp_all add: values_of_def well_typed_def fun_eq_iff)

lemma write_raw:
  assumes L: "layout_ok L" and c: "is_cell L c" and raw: "raw E st' = (raw E st)(cellKey c := x)"
    and typed: "well_typed E C L T st" "\<And>d. x = Some d \<Longrightarrow> \<exists>v. unmarshal (C (fst c)) d = Some v \<and> T (fst c) v"
  shows "well_typed E C L T st'"
    "values_of E C L st' = (values_of E C L st)(c := case x of None \<Rightarrow> None | Some d \<Rightarrow> unmarshal (C (fst c)) d)"
proof -
  have other: "raw E st' (cellKey d) = raw E st (cellKey d)" if "is_cell L d" "d \<noteq> c" for d
    using layout_keys [OF L that(1) c] that(2) by (auto simp: raw)
  show "well_typed E C L T st'" unfolding well_typed_def
  proof (intro allI impI)
    fix d y assume d: "is_cell L d" "raw E st' (cellKey d) = Some y"
    show "\<exists>v. unmarshal (C (fst d)) y = Some v \<and> T (fst d) v"
    proof (cases "d = c")
      case True
      then show ?thesis using d(2) typed(2) by (simp add: raw)
    next
      case False
      then show ?thesis using d other typed(1) unfolding well_typed_def by metis
    qed
  qed
  show "values_of E C L st' = (values_of E C L st)(c := case x of None \<Rightarrow> None | Some d \<Rightarrow> unmarshal (C (fst c)) d)"
    using c other by (auto simp: fun_eq_iff values_of_def raw)
qed

lemma readCell_typed:
  assumes "acc_inv E a (fst st)" and "well_typed E C L T st" and "is_cell L c"
  obtains st' where "readCell E (C (fst c)) (cellKey c) st = (Inr (values_of E C L st c), st')" "acc_inv E a (fst st')"
    "raw E st' = raw E st"
proof -
  obtain r st' where get: "accountGetState E (cellKey c) st = (r, st')" "cellData r = raw E st (cellKey c)"
    "acc_inv E a (fst st')" "raw E st' = raw E st" by (rule accountGetState_raw [OF assms(1)])
  have "readCell E (C (fst c)) (cellKey c) st = (Inr (values_of E C L st c), st')"
  proof (cases "raw E st (cellKey c)")
    case None
    then show ?thesis using get(1,2) assms(3) by (simp add: readCell_def values_of_def)
  next
    case (Some d)
    then obtain v where "unmarshal (C (fst c)) d = Some v" using assms(2,3) unfolding well_typed_def by blast
    then show ?thesis using get(1,2) assms(3) Some by (simp add: readCell_def values_of_def)
  qed
  then show thesis using that get(3,4) by blast
qed

text \<open>A reply is a value of the type of the entry, and the only failure is that the entry is not there.\<close>

fun reply_ok :: "(container \<Rightarrow> 'v \<Rightarrow> bool) \<Rightarrow> 'v store_op \<Rightarrow> 'v reply \<Rightarrow> bool" where
  "reply_ok T (GetCell c) r \<longleftrightarrow> r = Value None \<or> (\<exists>v. r = Value (Some v) \<and> T (fst c) v)"
| "reply_ok T (MustGetCell c) r \<longleftrightarrow> r = Failed CellNotExist \<or> (\<exists>v. r = Value (Some v) \<and> T (fst c) v)"
| "reply_ok T (HasCell c) r \<longleftrightarrow> (\<exists>b. r = Flag b)"
| "reply_ok T (PutCell c v) r \<longleftrightarrow> r = Ok"
| "reply_ok T (DeleteCell c) r \<longleftrightarrow> r = Ok"

lemma values_typed:
  assumes "well_typed E C L T st" and "values_of E C L st c = Some v"
  shows "T (fst c) v"
proof -
  obtain d where d: "is_cell L c" "raw E st (cellKey c) = Some d" "unmarshal (C (fst c)) d = Some v"
    using assms(2) by (auto simp: values_of_def split: if_splits option.splits)
  then obtain v' where "unmarshal (C (fst c)) d = Some v'" "T (fst c) v'" using assms(1) unfolding well_typed_def by blast
  then show ?thesis using d(3) by simp
qed

lemma plain_reply_ok: "well_typed E C L T st \<Longrightarrow> plain_step x (values_of E C L st) = (r, m) \<Longrightarrow> reply_ok T x r"
proof (cases x)
  case (GetCell c)
  moreover assume "well_typed E C L T st" "plain_step x (values_of E C L st) = (r, m)"
  ultimately show ?thesis using values_typed [of E C L T st c] by (cases "values_of E C L st c") auto
next
  case (MustGetCell c)
  moreover assume "well_typed E C L T st" "plain_step x (values_of E C L st) = (r, m)"
  ultimately show ?thesis using values_typed [of E C L T st c] by (cases "values_of E C L st c") auto
qed auto

definition store_ok :: "ledger_env \<Rightarrow> (container \<Rightarrow> 'v codec) \<Rightarrow> container list \<Rightarrow> (container \<Rightarrow> 'v \<Rightarrow> bool) \<Rightarrow> bool" where
  "store_ok E C L T \<longleftrightarrow> env_ok E \<and> codecs_ok C T \<and> layout_ok L"

lemma step_sound:
  assumes ok: "store_ok E C L T" and st: "acc_inv E a (fst st)" "well_typed E C L T st" and x: "op_ok L T x"
  obtains r st' where "store_step E C x st = (r, st')" "acc_inv E a (fst st')" "well_typed E C L T st'"
    "plain_step x (values_of E C L st) = (r, values_of E C L st')"
proof -
  have env: "env_ok E" and codecs: "codecs_ok C T" and layout: "layout_ok L" using ok by (simp_all add: store_ok_def)
  show thesis
  proof (cases x)
    case (GetCell c)
    then obtain st' where get: "readCell E (C (fst c)) (cellKey c) st = (Inr (values_of E C L st c), st')" "acc_inv E a (fst st')"
      "raw E st' = raw E st" using readCell_typed [OF st] x by (metis op_ok.simps(1))
    show thesis
      by (rule that [of "Value (values_of E C L st c)" st'])
        (use GetCell st(2) get same_raw [OF get(3), of C L] in \<open>simp_all add: store_step_cells maybe_def\<close>)
  next
    case (MustGetCell c)
    then obtain st' where get: "readCell E (C (fst c)) (cellKey c) st = (Inr (values_of E C L st c), st')" "acc_inv E a (fst st')"
      "raw E st' = raw E st" using readCell_typed [OF st] x by (metis op_ok.simps(2))
    show thesis
      by (rule that [of "case values_of E C L st c of None \<Rightarrow> Failed CellNotExist | Some v \<Rightarrow> Value (Some v)" st'])
        (use MustGetCell st(2) get same_raw [OF get(3), of C L] in
          \<open>simp_all add: store_step_cells surely_def insist_def split: option.split\<close>)
  next
    case (HasCell c)
    obtain r st' where get: "accountGetState E (cellKey c) st = (r, st')" "cellData r = raw E st (cellKey c)"
      "acc_inv E a (fst st')" "raw E st' = raw E st" by (rule accountGetState_raw [OF st(1)])
    have "values_of E C L st c \<noteq> None \<longleftrightarrow> raw E st (cellKey c) \<noteq> None"
    proof (cases "raw E st (cellKey c)")
      case (Some d)
      then obtain v where "unmarshal (C (fst c)) d = Some v"
        using st(2) x HasCell unfolding well_typed_def by (metis op_ok.simps(3))
      then show ?thesis using Some x HasCell by (simp add: values_of_def)
    qed (simp add: values_of_def)
    then show thesis
      by (intro that [of "Flag (values_of E C L st c \<noteq> None)" st'])
        (use HasCell st(2) get same_raw [OF get(4), of C L] in \<open>simp_all add: store_step_cells\<close>)
  next
    case (PutCell c v)
    then have c: "is_cell L c" and v: "T (fst c) v" using x by simp_all
    obtain d where d: "marshal (C (fst c)) v = Some d" "unmarshal (C (fst c)) d = Some v" using codecs v unfolding codecs_ok_def by blast
    let ?st = "SimpleAccount_SetState E (cellKey c) (Some (1 # d)) st"
    have raw: "raw E ?st = (raw E st)(cellKey c := Some d)" using SetState_raw(2) [OF env st(1)] by (simp add: cellData_def)
    note W = write_raw [OF layout c raw st(2)]
    have "well_typed E C L T ?st" by (rule W(1)) (use d v in auto)
    moreover have "values_of E C L ?st = (values_of E C L st)(c \<mapsto> v)" using W(2) d v by simp
    ultimately show thesis
      by (intro that [of Ok ?st])
        (use SetState_raw(1) [OF env st(1)] d(1) PutCell in \<open>simp_all add: store_step_cells writeCell_def written_def\<close>)
  next
    case (DeleteCell c)
    then have c: "is_cell L c" using x by simp
    let ?st = "SimpleAccount_SetState E (cellKey c) (Some [0]) st"
    have raw: "raw E ?st = (raw E st)(cellKey c := None)" using SetState_raw(2) [OF env st(1)] by (simp add: cellData_def)
    note W = write_raw [OF layout c raw st(2)]
    show thesis
      by (intro that [of Ok ?st]) (use W SetState_raw(1) [OF env st(1)] DeleteCell in \<open>simp_all add: store_step_cells\<close>)
  qed
qed

lemma run_sound:
  assumes ok: "store_ok E C L T"
  shows "acc_inv E a (fst st) \<Longrightarrow> well_typed E C L T st \<Longrightarrow> list_all (op_ok L T) xs \<Longrightarrow>
    \<exists>rs st'. store_run E C xs st = (rs, st') \<and> well_typed E C L T st' \<and>
      plain_run xs (values_of E C L st) = (rs, values_of E C L st') \<and> list_all2 (reply_ok T) xs rs"
proof (induction xs arbitrary: st)
  case (Cons x xs)
  obtain r st1 where 1: "store_step E C x st = (r, st1)" "acc_inv E a (fst st1)" "well_typed E C L T st1"
    "plain_step x (values_of E C L st) = (r, values_of E C L st1)"
    using step_sound [OF ok Cons.prems(1,2)] Cons.prems(3) by (metis list.pred_inject(2))
  obtain rs st' where "store_run E C xs st1 = (rs, st')" "well_typed E C L T st'"
    "plain_run xs (values_of E C L st1) = (rs, values_of E C L st')" "list_all2 (reply_ok T) xs rs"
    using Cons.IH [OF 1(2,3)] Cons.prems(3) by auto
  moreover have "reply_ok T x r" by (rule plain_reply_ok [OF Cons.prems(2) 1(4)])
  ultimately show ?case using 1 by simp
qed simp

section \<open>The contracts\<close>

definition contract_layout :: "container list \<Rightarrow> bool" where
  "contract_layout L \<longleftrightarrow> L \<in> {EpochManager_layout, LiquidStakingToken_layout, Whitelist_layout, Governance_layout} \<or>
     (\<exists>ns. distinct ns \<and> L = NodeManager_layout ns) \<or>
     (\<exists>ns. distinct ns \<and> list_all (\<lambda>n. CHR ''_'' \<notin> set n) ns \<and> L = StakingManager_layout ns)"

lemma status_sets: "distinct ns \<Longrightarrow> layout_ok (map (\<lambda>n. SlotAt (''status'' @ n)) ns)"
  unfolding layout_ok_def by (induction ns) auto

lemma NodeManager_layout_ok: "distinct ns \<Longrightarrow> layout_ok (NodeManager_layout ns)"
  unfolding NodeManager_layout_def layout_append using status_sets [of ns]
  by (auto simp: layout_ok_def prefix_def)

lemma StakingManager_layout_ok:
  assumes "distinct ns" and "list_all (\<lambda>n. CHR ''_'' \<notin> set n) ns"
  shows "layout_ok (StakingManager_layout ns)"
  unfolding StakingManager_layout_def layout_append using pools_layout [OF assms]
  by (auto simp: layout_ok_def StakingPool_layout_def)

lemma contract_layout_ok: "contract_layout L \<Longrightarrow> layout_ok L"
  using NodeManager_layout_ok StakingManager_layout_ok
  by (auto simp: contract_layout_def EpochManager_layout_def LiquidStakingToken_layout_def Whitelist_layout_def Governance_layout_def
      layout_ok_def)

text \<open>
  C35: No two entries of a contract lie under the same key of its account, whatever the keys of its maps are
  (node names among them are chosen by users), whatever status numbers and pool numbers there are.
\<close>

theorem contract_keys_distinct:
  assumes "contract_layout L" and "is_cell L c" and "is_cell L d" and "c \<noteq> d"
  shows "cellKey c \<noteq> cellKey d"
  using layout_keys [OF contract_layout_ok [OF assms(1)] assms(2,3)] assms(4) by blast

theorem contract_keys_distinct_witness:
  "cellKey (MapAt ''nodeManager_pendingNameIndex'', ''proposals_7'') \<noteq> cellKey (MapAt ''proposals'', ''7'')"
  by (rule contract_keys_distinct [of Governance_layout]) (simp_all add: contract_layout_def Governance_layout_def)


definition bare_env :: ledger_env where
  "bare_env = \<lparr>copyOrNew = (\<lambda>x. case x of Some ia \<Rightarrow> ia
       | None \<Rightarrow> \<lparr>ia_Nonce = 0, ia_Balance = 0, ia_CodeHash = None, ia_StorageRoot = 0\<rparr>),
     innerChanged = (\<noteq>), keccak = (\<lambda>c. [1]), snapAccount = (\<lambda>a. None), trieAccount = (\<lambda>a. None),
     backendCode = (\<lambda>a h. None), snapStorage = (\<lambda>a k. None), trieStorage = (\<lambda>a ia k. None)\<rparr>"

definition bare_storage :: storage where
  "bare_storage = (NewAccount 3, newChanger)"

definition raw_codec :: "container \<Rightarrow> bytes codec" where
  "raw_codec c = \<lparr>marshal = Some, unmarshal = Some\<rparr>"

definition some_ops :: "bytes store_op list" where
  "some_ops = [PutCell (MapAt ''authInfos'', ''a'') [5], GetCell (MapAt ''authInfos'', ''a''), DeleteCell (MapAt ''authInfos'', ''a''),
     MustGetCell (MapAt ''authInfos'', ''a''), HasCell (MapAt ''providerInfos'', ''a'')]"

lemma bare: "env_ok bare_env" "codecs_ok raw_codec (\<lambda>_ v. length v = 1)" "acc_inv bare_env 3 (fst bare_storage)"
    "well_typed bare_env raw_codec Whitelist_layout (\<lambda>_ v. length v = 1) bare_storage" "contract_layout Whitelist_layout"
    "list_all (op_ok Whitelist_layout (\<lambda>_ v. length v = 1)) some_ops"
  by (simp_all add: env_ok_def bare_env_def codecs_ok_def raw_codec_def acc_inv_def bare_storage_def NewAccount_def
      base_account_def base_code_def base_storage_def SimpleAccount_CodeHash_def well_typed_def raw_def account_view_def
      layered_def cellData_def contract_layout_def some_ops_def Whitelist_layout_def)




end
