(* ===== verification/Binary_Heap.thy ===== *)
theory Binary_Heap
  imports Prelude "HOL-Library.Multiset"
begin

text \<open>
  The binary heap of Go's \<open>container/heap\<close> on a slice, as the transaction pool uses it, and the
  \<open>NumberHeap\<close> of \<open>internal/components/heap\<close>. The order is that of a key: \<open>h.Less(i, j)\<close> is
  \<open>key (xs ! i) < key (xs ! j)\<close>. Shown is that pushing, popping and removing keep the heap and its
  elements, and that the top has the least key.
\<close>

section \<open>Moving elements\<close>

definition swap :: "nat \<Rightarrow> nat \<Rightarrow> 'a list \<Rightarrow> 'a list" where
  "swap i j xs = xs[i := xs ! j, j := xs ! i]"

lemma length_swap [simp]: "length (swap i j xs) = length xs"
  by (simp add: swap_def)

lemma nth_swap:
  "i < length xs \<Longrightarrow> j < length xs \<Longrightarrow> swap i j xs ! k = (if k = j then xs ! i else if k = i then xs ! j else xs ! k)"
  by (auto simp: swap_def nth_list_update)

lemma mset_swap [simp]: "i < length xs \<Longrightarrow> j < length xs \<Longrightarrow> mset (swap i j xs) = mset xs"
  by (simp add: swap_def mset_swap)

function up :: "('a \<Rightarrow> 'k::linorder) \<Rightarrow> nat \<Rightarrow> 'a list \<Rightarrow> 'a list" where
  "up key j xs =
     (let i = (j - 1) div 2 in
      if i = j \<or> \<not> key (xs ! j) < key (xs ! i) then xs else up key i (swap i j xs))"
  by pat_completeness auto
termination
  by (relation "measure (\<lambda>(key, j, xs). j)") auto

text \<open>\<open>down\<close> works on the first \<open>n\<close> elements and tells whether it moved the element.\<close>

function downFrom :: "('a \<Rightarrow> 'k::linorder) \<Rightarrow> nat \<Rightarrow> nat \<Rightarrow> 'a list \<Rightarrow> nat \<times> 'a list" where
  "downFrom key i n xs =
     (let j1 = 2 * i + 1 in
      if n \<le> j1 then (i, xs)
      else
        let j2 = j1 + 1; j = (if j2 < n \<and> key (xs ! j2) < key (xs ! j1) then j2 else j1) in
        if \<not> key (xs ! j) < key (xs ! i) then (i, xs)
        else downFrom key j n (swap i j xs))"
  by pat_completeness auto
termination
  by (relation "measure (\<lambda>(key, i, n, xs). n - i)") auto

definition down :: "('a \<Rightarrow> 'k::linorder) \<Rightarrow> nat \<Rightarrow> nat \<Rightarrow> 'a list \<Rightarrow> bool \<times> 'a list" where
  "down key i0 n xs = (let (i, ys) = downFrom key i0 n xs in (i0 < i, ys))"

declare up.simps [simp del] downFrom.simps [simp del]

definition heap_Push :: "('a \<Rightarrow> 'k::linorder) \<Rightarrow> 'a \<Rightarrow> 'a list \<Rightarrow> 'a list" where
  "heap_Push key x xs = up key (length xs) (xs @ [x])"

text \<open>\<open>Pop\<close> and \<open>Remove\<close> take the element from the end of the slice, where they have swapped it.\<close>

definition heap_Pop :: "('a \<Rightarrow> 'k::linorder) \<Rightarrow> 'a list \<Rightarrow> 'a \<times> 'a list" where
  "heap_Pop key xs =
     (let n = length xs - 1; (moved, ys) = down key 0 n (swap 0 n xs) in (last ys, butlast ys))"

definition heap_Remove :: "('a \<Rightarrow> 'k::linorder) \<Rightarrow> nat \<Rightarrow> 'a list \<Rightarrow> 'a \<times> 'a list" where
  "heap_Remove key i xs =
     (let n = length xs - 1;
          ys = (if n \<noteq> i then
                  let (moved, zs) = down key i n (swap i n xs) in if \<not> moved then up key i zs else zs
                else xs)
      in (last ys, butlast ys))"

section \<open>Numbers\<close>

definition NumberHeap_PeekItem :: "u64 list \<Rightarrow> u64" where
  "NumberHeap_PeekItem n = (if length n = 0 then - 1 else n ! 0)"

definition NumberHeap_PushItem :: "u64 \<Rightarrow> u64 list \<Rightarrow> u64 list" where
  "NumberHeap_PushItem x n = heap_Push id x n"

definition NumberHeap_PopItem :: "u64 list \<Rightarrow> u64 \<times> u64 list" where
  "NumberHeap_PopItem n = (if length n = 0 then (- 1, n) else heap_Pop id n)"

section \<open>The heap property\<close>

text \<open>Among the first \<open>n\<close> elements, none is less than its parent.\<close>

definition parent :: "nat \<Rightarrow> nat" where
  "parent j = (j - 1) div 2"

definition ordered_at :: "('a \<Rightarrow> 'k::linorder) \<Rightarrow> 'a list \<Rightarrow> nat \<Rightarrow> bool" where
  "ordered_at key xs j \<longleftrightarrow> j = 0 \<or> key (xs ! parent j) \<le> key (xs ! j)"

definition is_heap :: "('a \<Rightarrow> 'k::linorder) \<Rightarrow> nat \<Rightarrow> 'a list \<Rightarrow> bool" where
  "is_heap key n xs \<longleftrightarrow> (\<forall>j<n. ordered_at key xs j)"

lemma parent_less [simp]: "0 < j \<Longrightarrow> parent j < j"
  by (simp add: parent_def) 

lemma parent_cases: "parent k = i \<Longrightarrow> 0 < k \<Longrightarrow> k = 2 * i + 1 \<or> k = 2 * i + 2"
  by (auto simp: parent_def)

lemma parent_children [simp]: "parent (Suc (2 * i)) = i" "parent (Suc (Suc (2 * i))) = i"
  by (simp_all add: parent_def)

lemma heap_top_least:
  assumes "is_heap key (length xs) xs" and "j < length xs"
  shows "key (xs ! 0) \<le> key (xs ! j)"
  using assms(2)
proof (induction j rule: less_induct)
  case (less j)
  show ?case
  proof (cases "j = 0")
    case False
    then have "parent j < j" by simp
    then have "key (xs ! 0) \<le> key (xs ! parent j)" using less by simp
    also have "\<dots> \<le> key (xs ! j)" using assms(1) less.prems False by (auto simp: is_heap_def ordered_at_def)
    finally show ?thesis .
  qed simp
qed

text \<open>Everything is in order but possibly the element at \<open>j\<close>, which may be too small; its children are in order with its parent.\<close>

definition hole_up :: "('a \<Rightarrow> 'k::linorder) \<Rightarrow> nat \<Rightarrow> nat \<Rightarrow> 'a list \<Rightarrow> bool" where
  "hole_up key n j xs \<longleftrightarrow> (\<forall>k<n. k \<noteq> j \<longrightarrow> ordered_at key xs k) \<and>
     (\<forall>k<n. 0 < j \<longrightarrow> 0 < k \<longrightarrow> parent k = j \<longrightarrow> key (xs ! parent j) \<le> key (xs ! k))"

lemma up_eq:
  "up key j xs = (if j = 0 \<or> \<not> key (xs ! j) < key (xs ! parent j) then xs else up key (parent j) (swap (parent j) j xs))"
  by (subst up.simps) (auto simp: Let_def parent_def)

lemma up_induct [case_names step]:
  assumes "\<And>j xs. (0 < j \<Longrightarrow> key (xs ! j) < key (xs ! parent j) \<Longrightarrow> P (parent j) (swap (parent j) j xs)) \<Longrightarrow> P j xs"
  shows "P j xs"
proof (induction j arbitrary: xs rule: less_induct)
  case (less j)
  show ?case by (rule assms) (use less parent_less in blast)
qed

lemma up_keeps:
  "j < length xs \<Longrightarrow> length (up key j xs) = length xs \<and> mset (up key j xs) = mset xs \<and> (\<forall>k>j. up key j xs ! k = xs ! k)"
proof (induction j xs rule: up_induct [where key = key])
  case (step j xs)
  show ?case
  proof (cases "j = 0 \<or> \<not> key (xs ! j) < key (xs ! parent j)")
    case True
    then show ?thesis by (simp add: up_eq [of key j xs])
  next
    case False
    then have j: "parent j < j" by simp
    have eq: "up key j xs = up key (parent j) (swap (parent j) j xs)" using False by (simp add: up_eq [of key j xs])
    show ?thesis unfolding eq using step.IH step.prems False j by (auto simp: nth_swap)
  qed
qed

text \<open>What holds of the elements up to \<open>j\<close> still holds of them.\<close>

lemma up_prefix:
  "j < length xs \<Longrightarrow> (\<And>k. k \<le> j \<Longrightarrow> P (xs ! k)) \<Longrightarrow> k \<le> j \<Longrightarrow> P (up key j xs ! k)"
proof (induction j xs arbitrary: k rule: up_induct [where key = key])
  case (step j xs)
  show ?case
  proof (cases "j = 0 \<or> \<not> key (xs ! j) < key (xs ! parent j)")
    case True
    then show ?thesis using step.prems by (simp add: up_eq [of key j xs])
  next
    case False
    then have j: "0 < j" "key (xs ! j) < key (xs ! parent j)" "parent j < j" by auto
    let ?ys = "swap (parent j) j xs"
    have ys: "P (?ys ! k)" if "k \<le> j" for k
      using that step.prems(1,2) j nth_swap [of "parent j" xs j k] by auto
    have eq: "up key j xs = up key (parent j) ?ys" using False by (simp add: up_eq [of key j xs])
    show ?thesis
    proof (cases "k \<le> parent j")
      case True
      then show ?thesis unfolding eq using step.IH [OF j(1,2)] step.prems(1) j ys by simp
    next
      case False
      then show ?thesis unfolding eq using up_keeps [of "parent j" ?ys key] step.prems j ys by simp
    qed
  qed
qed

lemma up_heap:
  "j < n \<Longrightarrow> n \<le> length xs \<Longrightarrow> hole_up key n j xs \<Longrightarrow> is_heap key n (up key j xs)"
proof (induction j xs rule: up_induct [where key = key])
  case (step j xs)
  note hole = step.prems(3)
  show ?case
  proof (cases "j = 0 \<or> \<not> key (xs ! j) < key (xs ! parent j)")
    case True
    then have "ordered_at key xs j" by (auto simp: ordered_at_def)
    then have "is_heap key n xs" using hole unfolding is_heap_def hole_up_def by metis
    then show ?thesis using True by (simp add: up_eq [of key j xs])
  next
    case False
    define i where "i = parent j"
    have j: "0 < j" "i < j" and less: "key (xs ! j) < key (xs ! i)" using False by (auto simp: i_def)
    let ?ys = "swap i j xs"
    have at: "?ys ! k = (if k = j then xs ! i else if k = i then xs ! j else xs ! k)" for k
      using nth_swap [of i xs j k] step.prems(1,2) j by simp
    have "hole_up key n i ?ys" unfolding hole_up_def
    proof (intro conjI allI impI)
      fix k assume k: "k < n" "k \<noteq> i"
      consider "k = 0" | "k = j" | "0 < k" "k \<noteq> j" "parent k = j" | "0 < k" "k \<noteq> j" "parent k = i" |
        "0 < k" "k \<noteq> j" "parent k \<noteq> j" "parent k \<noteq> i" by blast
      then show "ordered_at key ?ys k"
      proof cases
        case 2
        then show ?thesis using less j by (simp add: ordered_at_def at i_def [symmetric])
      next
        case 3
        then have "key (xs ! i) \<le> key (xs ! k)" using hole k j by (simp add: hole_up_def i_def)
        then show ?thesis using 3 k by (simp add: ordered_at_def at)
      next
        case 4
        then have "key (xs ! i) \<le> key (xs ! k)" using hole k by (auto simp: hole_up_def ordered_at_def)
        then show ?thesis using 4 k j less by (simp add: ordered_at_def at)
      next
        case 5
        then have "ordered_at key xs k" using hole k by (simp add: hole_up_def)
        then show ?thesis using 5 k by (simp add: ordered_at_def at)
      qed (simp add: ordered_at_def)
    next
      fix k assume k: "k < n" "0 < i" "0 < k" "parent k = i"
      have "ordered_at key xs i" using hole step.prems(1) j by (simp add: hole_up_def)
      then have up: "key (xs ! parent i) \<le> key (xs ! i)" using k(2) by (simp add: ordered_at_def)
      have k_i: "key (xs ! i) \<le> key (xs ! k)" if "k \<noteq> j" using hole k that by (auto simp: hole_up_def ordered_at_def)
      have p: "parent i \<noteq> j" "parent i \<noteq> i" using k(2) j parent_less [of i] by linarith+
      show "key (?ys ! parent i) \<le> key (?ys ! k)"
      proof (cases "k = j")
        case True
        then show ?thesis using p up j by (simp add: at)
      next
        case False
        then have "k \<noteq> i" using k parent_less [of k] by linarith
        then show ?thesis using False p up k_i [OF False] by (simp add: at)
      qed
    qed
    then have "is_heap key n (up key i ?ys)" using step.IH False step.prems(1,2) j by (simp add: i_def)
    then show ?thesis using False by (simp add: up_eq [of key j xs] i_def)
  qed
qed

text \<open>Everything is in order but possibly the children of \<open>i\<close>, whose element may be too large; they are in order with its parent.\<close>

definition hole_down :: "('a \<Rightarrow> 'k::linorder) \<Rightarrow> nat \<Rightarrow> nat \<Rightarrow> 'a list \<Rightarrow> bool" where
  "hole_down key n i xs \<longleftrightarrow> (\<forall>k<n. 0 < k \<longrightarrow> parent k \<noteq> i \<longrightarrow> ordered_at key xs k) \<and>
     (\<forall>k<n. 0 < i \<longrightarrow> 0 < k \<longrightarrow> parent k = i \<longrightarrow> key (xs ! parent i) \<le> key (xs ! k))"

text \<open>The child that \<open>down\<close> compares with.\<close>

definition least_child :: "('a \<Rightarrow> 'k::linorder) \<Rightarrow> nat \<Rightarrow> nat \<Rightarrow> 'a list \<Rightarrow> nat" where
  "least_child key i n xs = (if 2 * i + 2 < n \<and> key (xs ! (2 * i + 2)) < key (xs ! (2 * i + 1)) then 2 * i + 2 else 2 * i + 1)"

lemma downFrom_eq:
  "downFrom key i n xs =
     (if n \<le> 2 * i + 1 \<or> \<not> key (xs ! least_child key i n xs) < key (xs ! i) then (i, xs)
      else downFrom key (least_child key i n xs) n (swap i (least_child key i n xs) xs))"
  by (subst downFrom.simps) (simp add: least_child_def Let_def)

lemma least_child:
  assumes "2 * i + 1 < n"
  shows "i < least_child key i n xs" "least_child key i n xs < n" "parent (least_child key i n xs) = i"
    "\<And>k. k < n \<Longrightarrow> 0 < k \<Longrightarrow> parent k = i \<Longrightarrow> key (xs ! least_child key i n xs) \<le> key (xs ! k)"
proof -
  show "i < least_child key i n xs" "least_child key i n xs < n" "parent (least_child key i n xs) = i"
    using assms by (auto simp: least_child_def)
  fix k assume k: "k < n" "0 < k" "parent k = i"
  then have "k = 2 * i + 1 \<or> k = 2 * i + 2" using parent_cases by blast
  then show "key (xs ! least_child key i n xs) \<le> key (xs ! k)" using k(1) by (auto simp: least_child_def)
qed

lemma down_induct [case_names step]:
  assumes "\<And>i xs. (2 * i + 1 < n \<Longrightarrow> key (xs ! least_child key i n xs) < key (xs ! i) \<Longrightarrow>
      P (least_child key i n xs) (swap i (least_child key i n xs) xs)) \<Longrightarrow> P i xs"
  shows "P i xs"
proof (induction "n - i" arbitrary: i xs rule: less_induct)
  case (less i xs)
  show ?case
  proof (rule assms)
    assume n: "2 * i + 1 < n"
    have "n - least_child key i n xs < n - i" using least_child(1,2) [OF n, of key xs] n by linarith
    then show "P (least_child key i n xs) (swap i (least_child key i n xs) xs)" by (rule less)
  qed
qed

lemma downFrom_keeps:
  "n \<le> length xs \<Longrightarrow> length (snd (downFrom key i n xs)) = length xs \<and>
    mset (snd (downFrom key i n xs)) = mset xs \<and> i \<le> fst (downFrom key i n xs) \<and>
    (\<forall>k. k < i \<or> n \<le> k \<longrightarrow> snd (downFrom key i n xs) ! k = xs ! k)"
proof (induction i xs rule: down_induct [where key = key and n = n])
  case (step i xs)
  let ?j = "least_child key i n xs"
  show ?case
  proof (cases "n \<le> 2 * i + 1 \<or> \<not> key (xs ! ?j) < key (xs ! i)")
    case True
    then have "downFrom key i n xs = (i, xs)" by (subst downFrom_eq) simp
    then show ?thesis by simp
  next
    case False
    then have n: "2 * i + 1 < n" by simp
    note j = least_child(1,2) [OF n, of key xs]
    have eq: "downFrom key i n xs = downFrom key ?j n (swap i ?j xs)" using False by (subst downFrom_eq) simp
    have same: "swap i ?j xs ! k = xs ! k" if "k < i \<or> n \<le> k" for k
      using that j step.prems nth_swap [of i xs ?j k] by auto
    show ?thesis unfolding eq using step.IH [OF n] False step.prems j same by (auto simp: less_imp_le)
  qed
qed

lemma downFrom_heap:
  "i < n \<Longrightarrow> n \<le> length xs \<Longrightarrow> hole_down key n i xs \<Longrightarrow> is_heap key n (snd (downFrom key i n xs))"
proof (induction i xs rule: down_induct [where key = key and n = n])
  case (step i xs)
  define j where "j = least_child key i n xs"
  note hole = step.prems(3)
  show ?case
  proof (cases "n \<le> 2 * i + 1 \<or> \<not> key (xs ! j) < key (xs ! i)")
    case True
    have "ordered_at key xs k" if k: "k < n" for k
    proof (cases "0 < k \<and> parent k = i")
      case child: True
      then have n: "2 * i + 1 < n" using parent_cases [of k i] k by auto
      then have "key (xs ! i) \<le> key (xs ! j)" using True by simp
      also have "\<dots> \<le> key (xs ! k)" unfolding j_def by (rule least_child(4) [OF n]) (use child k in auto)
      finally show ?thesis using child by (simp add: ordered_at_def)
    next
      case False
      then show ?thesis using hole k by (cases "k = 0") (auto simp: hole_down_def ordered_at_def)
    qed
    then have "is_heap key n xs" by (simp add: is_heap_def)
    then show ?thesis using True by (subst downFrom_eq) (simp add: j_def)
  next
    case False
    then have n: "2 * i + 1 < n" and less: "key (xs ! j) < key (xs ! i)" by auto
    have j: "i < j" "j < n" "parent j = i" using least_child(1-3) [OF n, of key xs] by (simp_all add: j_def)
    let ?ys = "swap i j xs"
    have at: "?ys ! k = (if k = j then xs ! i else if k = i then xs ! j else xs ! k)" for k
      using nth_swap [of i xs j k] step.prems(2) j by simp
    have sibling: "key (xs ! j) \<le> key (xs ! k)" if "k < n" "0 < k" "parent k = i" for k
      unfolding j_def by (rule least_child(4) [OF n that])
    have "hole_down key n j ?ys" unfolding hole_down_def
    proof (intro conjI allI impI)
      fix k assume k: "k < n" "0 < k" "parent k \<noteq> j"
      consider "k = j" | "k = i" | "k \<noteq> j" "k \<noteq> i" "parent k = i" | "k \<noteq> j" "k \<noteq> i" "parent k \<noteq> i" by blast
      then show "ordered_at key ?ys k"
      proof cases
        case 1
        then show ?thesis using less j by (simp add: ordered_at_def at)
      next
        case 2
        have "parent i \<noteq> i" "parent i \<noteq> j" using 2 k j parent_less [of i] by linarith+
        moreover have "key (xs ! parent i) \<le> key (xs ! j)" using hole 2 k j by (simp add: hole_down_def)
        ultimately show ?thesis using 2 j by (simp add: ordered_at_def at)
      next
        case 3
        then show ?thesis using sibling [OF k(1,2)] j by (simp add: ordered_at_def at)
      next
        case 4
        then have "ordered_at key xs k" using hole k by (simp add: hole_down_def)
        then show ?thesis using 4 k by (simp add: ordered_at_def at)
      qed
    next
      fix k assume k: "k < n" "0 < j" "0 < k" "parent k = j"
      have "k \<noteq> j" "k \<noteq> i" using k j parent_less [of k] by linarith+
      moreover have "key (xs ! j) \<le> key (xs ! k)" using hole k j by (auto simp: hole_down_def ordered_at_def)
      ultimately show "key (?ys ! parent j) \<le> key (?ys ! k)" using j by (simp add: at)
    qed
    then have "is_heap key n (snd (downFrom key j n ?ys))" using step.IH [OF n] less j step.prems(2) by (simp add: j_def)
    then show ?thesis using False by (subst downFrom_eq) (simp add: j_def)
  qed
qed


section \<open>What pushing, popping and removing do\<close>

lemma heap_Push:
  assumes "is_heap key (length xs) xs"
  shows "is_heap key (length (heap_Push key x xs)) (heap_Push key x xs)" "mset (heap_Push key x xs) = add_mset x (mset xs)"
proof -
  let ?n = "length xs" and ?ys = "xs @ [x]"
  have at: "ordered_at key ?ys k" if "k < ?n" for k
    using assms that by (cases "k = 0") (auto simp: is_heap_def ordered_at_def nth_append dest: parent_less order.strict_trans)
  have "hole_up key (Suc ?n) ?n ?ys" unfolding hole_up_def
  proof (intro conjI allI impI)
    fix k assume "k < Suc ?n" "0 < k" "parent k = ?n"
    then show "key (?ys ! parent ?n) \<le> key (?ys ! k)" using parent_less [of k] by linarith
  qed (use at in auto)
  then have "is_heap key (Suc ?n) (up key ?n ?ys)" by (intro up_heap) simp_all
  then show "is_heap key (length (heap_Push key x xs)) (heap_Push key x xs)" "mset (heap_Push key x xs) = add_mset x (mset xs)"
    using up_keeps [of ?n ?ys key] by (simp_all add: heap_Push_def)
qed

lemma split_last:
  assumes "xs \<noteq> []" and "mset xs = M"
  shows "mset (butlast xs) = M - {#last xs#}"
  using assms(2) append_butlast_last_id [OF assms(1)]
  by (metis add_mset_remove_trivial mset.simps mset_append union_code mset_single_iff_right union_mset_add_mset_right add_0_right)

lemma last_nth: "xs \<noteq> [] \<Longrightarrow> last xs = xs ! (length xs - 1)"
  by (rule last_conv_nth)

lemma is_heap_butlast: "is_heap key (length xs - 1) xs \<Longrightarrow> is_heap key (length (butlast xs)) (butlast xs)"
  unfolding is_heap_def ordered_at_def
proof (intro allI impI)
  fix j assume heap: "\<forall>j<length xs - 1. j = 0 \<or> key (xs ! parent j) \<le> key (xs ! j)" and j: "j < length (butlast xs)"
  show "j = 0 \<or> key (butlast xs ! parent j) \<le> key (butlast xs ! j)"
  proof (cases "j = 0")
    case False
    then have p: "parent j < j" by simp
    then have "parent j < length (butlast xs)" using j by simp
    then show ?thesis using heap j False by (auto simp: nth_butlast)
  qed simp
qed

lemma heap_Pop:
  assumes heap: "is_heap key (length xs) xs" and ne: "xs \<noteq> []" and pop: "heap_Pop key xs = (x, ys)"
  shows "x = xs ! 0" "mset ys = mset xs - {#x#}" "is_heap key (length ys) ys" "length ys = length xs - 1"
proof -
  let ?n = "length xs - 1"
  define zs where "zs = snd (downFrom key 0 ?n (swap 0 ?n xs))"
  have n: "?n < length xs" using ne by (cases xs) auto
  have keeps: "length zs = length xs" "mset zs = mset xs" "zs ! ?n = xs ! 0"
    using downFrom_keeps [of ?n "swap 0 ?n xs" key 0] n ne by (simp_all add: zs_def nth_swap)
  then have zs: "zs \<noteq> []" using ne by auto
  have xy: "x = last zs" "ys = butlast zs"
    using pop by (auto simp: heap_Pop_def down_def zs_def Let_def split: prod.splits)
  show x: "x = xs ! 0" using keeps zs by (simp add: xy last_nth)
  show "mset ys = mset xs - {#x#}" using split_last [OF zs keeps(2)] by (simp add: xy)
  show "length ys = length xs - 1" using keeps(1) by (simp add: xy)
  have "is_heap key ?n zs"
  proof (cases "?n = 0")
    case False
    have "hole_down key ?n 0 (swap 0 ?n xs)" unfolding hole_down_def
    proof (intro conjI allI impI)
      fix k assume k: "k < ?n" "0 < k" "parent k \<noteq> 0"
      have "ordered_at key xs k" using heap k by (simp add: is_heap_def)
      moreover have "parent k \<noteq> ?n" using k parent_less [of k] by linarith
      ultimately show "ordered_at key (swap 0 ?n xs) k"
        using k n ne nth_swap [of 0 xs ?n k] nth_swap [of 0 xs ?n "parent k"] by (simp add: ordered_at_def)
    qed simp
    then show ?thesis unfolding zs_def using False by (intro downFrom_heap) simp_all
  qed (simp add: is_heap_def)
  then show "is_heap key (length ys) ys" using is_heap_butlast [of key zs] keeps(1) by (simp add: xy)
qed

lemma downFrom_still:
  assumes "fst (downFrom key i n xs) = i" and "n \<le> length xs"
  shows "snd (downFrom key i n xs) = xs" "\<And>k. k < n \<Longrightarrow> 0 < k \<Longrightarrow> parent k = i \<Longrightarrow> key (xs ! i) \<le> key (xs ! k)"
proof -
  let ?j = "least_child key i n xs"
  have stop: "n \<le> 2 * i + 1 \<or> \<not> key (xs ! ?j) < key (xs ! i)"
  proof (rule ccontr)
    assume go: "\<not> ?thesis"
    then have "2 * i + 1 < n" by simp
    then have j: "i < ?j" by (rule least_child(1))
    have "downFrom key i n xs = downFrom key ?j n (swap i ?j xs)" using go by (subst downFrom_eq) simp
    then have "?j \<le> fst (downFrom key i n xs)" using downFrom_keeps [of n "swap i ?j xs" key ?j] assms(2) by simp
    then show False using assms(1) j by simp
  qed
  then show "snd (downFrom key i n xs) = xs" by (subst downFrom_eq) simp
  fix k assume k: "k < n" "0 < k" "parent k = i"
  then have n: "2 * i + 1 < n" using parent_cases [of k i] by auto
  then have "key (xs ! i) \<le> key (xs ! ?j)" using stop by simp
  also have "\<dots> \<le> key (xs ! k)" by (rule least_child(4) [OF n k])
  finally show "key (xs ! i) \<le> key (xs ! k)" .
qed

lemma downFrom_moved:
  assumes "i < fst (downFrom key i n xs)"
  obtains j where "0 < j" "j < n" "parent j = i" "key (xs ! j) < key (xs ! i)"
proof -
  let ?j = "least_child key i n xs"
  have go: "\<not> (n \<le> 2 * i + 1 \<or> \<not> key (xs ! ?j) < key (xs ! i))"
  proof
    assume "n \<le> 2 * i + 1 \<or> \<not> key (xs ! ?j) < key (xs ! i)"
    then have "downFrom key i n xs = (i, xs)" by (subst downFrom_eq) simp
    then show False using assms by simp
  qed
  then have n: "2 * i + 1 < n" by simp
  show thesis by (rule that [of ?j]) (use go least_child(1-3) [OF n, of key xs] in auto)
qed


text \<open>
  Removing by index. Whatever holds of all elements before the index, and with an element of all smaller ones,
  holds of them afterwards: the loop that removes while it walks up the slice relies on this.
\<close>

lemma heap_Remove:
  assumes heap: "is_heap key (length xs) xs" and i: "i < length xs" and rem: "heap_Remove key i xs = (x, ys)"
  shows "x = xs ! i" "mset ys = mset xs - {#x#}" "is_heap key (length ys) ys" "length ys = length xs - 1"
    "\<And>P k. (\<And>k. k < i \<Longrightarrow> P (xs ! k)) \<Longrightarrow> (\<And>a b. key a < key b \<Longrightarrow> P b \<Longrightarrow> P a) \<Longrightarrow> k < i \<Longrightarrow> P (ys ! k)"
proof -
  let ?n = "length xs - 1"
  define ws where "ws = swap i ?n xs"
  define vs where "vs = snd (downFrom key i ?n ws)"
  define zs where "zs = (if ?n \<noteq> i then if i < fst (downFrom key i ?n ws) then vs else up key i vs else xs)"
  have n: "?n < length xs" and len: "length ws = length xs" using i by (auto simp: ws_def)
  have at: "ws ! k = (if k = ?n then xs ! i else if k = i then xs ! ?n else xs ! k)" for k
    using nth_swap [of i xs ?n k] i n by (simp add: ws_def)
  have xy: "x = last zs" "ys = butlast zs"
    using rem by (auto simp: heap_Remove_def down_def zs_def vs_def ws_def Let_def split: prod.splits if_splits)
  have vs: "length vs = length xs" "mset vs = mset xs" "\<And>k. k < i \<or> ?n \<le> k \<Longrightarrow> vs ! k = ws ! k"
    using downFrom_keeps [of ?n ws key i] len i n by (auto simp: vs_def ws_def)
  have upv: "length (up key i vs) = length xs" "mset (up key i vs) = mset xs" "\<And>k. i < k \<Longrightarrow> up key i vs ! k = vs ! k"
    using up_keeps [of i vs key] vs i by auto
  have zs: "length zs = length xs" "mset zs = mset xs" "zs ! ?n = xs ! i"
    using vs upv at i n by (auto simp: zs_def)
  then have ne: "zs \<noteq> []" using i by auto
  show "x = xs ! i" using zs ne by (simp add: xy last_nth)
  show "mset ys = mset xs - {#x#}" using split_last [OF ne zs(2)] by (simp add: xy)
  show "length ys = length xs - 1" using zs(1) by (simp add: xy)
  have still: "vs = ws" "\<And>k. k < ?n \<Longrightarrow> 0 < k \<Longrightarrow> parent k = i \<Longrightarrow> key (ws ! i) \<le> key (ws ! k)" if "\<not> i < fst (downFrom key i ?n ws)"
    using downFrom_still [of key i ?n ws] downFrom_keeps [of ?n ws key i] that len by (auto simp: vs_def)
  have other: "ordered_at key ws k" if k: "k < ?n" "0 < k" "k \<noteq> i" "parent k \<noteq> i" for k
  proof -
    have "ordered_at key xs k" using heap k by (simp add: is_heap_def)
    moreover have "parent k \<noteq> ?n" using k parent_less [of k] by linarith
    ultimately show ?thesis using k by (simp add: ordered_at_def at)
  qed
  have child: "key (ws ! parent i) \<le> key (ws ! k)" "key (xs ! i) \<le> key (ws ! k)" if k: "k < ?n" "0 < k" "0 < i" "parent k = i" for k
  proof -
    have "i < k" using k parent_less [of k] by simp
    have "ordered_at key xs k" "ordered_at key xs i" using heap k i by (simp_all add: is_heap_def)
    then have "key (xs ! parent i) \<le> key (xs ! i)" and ik: "key (xs ! i) \<le> key (xs ! k)" using k by (simp_all add: ordered_at_def)
    moreover have "parent i \<noteq> i" "parent i \<noteq> ?n" using k i parent_less [of i] by linarith+
    ultimately show "key (ws ! parent i) \<le> key (ws ! k)" "key (xs ! i) \<le> key (ws ! k)"
      using k \<open>i < k\<close> by (auto simp: at intro: order_trans)
  qed
  have "is_heap key ?n zs"
  proof (cases "?n = i")
    case True
    then show ?thesis using heap by (simp add: zs_def is_heap_def)
  next
    case False
    then have i_n: "i < ?n" using i by simp
    show ?thesis
    proof (cases "i < fst (downFrom key i ?n ws)")
      case True
      obtain j where j: "0 < j" "j < ?n" "parent j = i" "key (ws ! j) < key (ws ! i)" by (rule downFrom_moved [OF True])
      have "ordered_at key ws i"
        using child(1) [OF j(2,1) _ j(3)] j(4) by (cases "i = 0") (auto simp: ordered_at_def)
      then have "hole_down key ?n i ws" unfolding hole_down_def using other child(1) by blast
      then show ?thesis using downFrom_heap [OF i_n, of ws key] len True False by (simp add: zs_def vs_def)
    next
      case still': False
      have "ordered_at key ws k" if "k < ?n" "k \<noteq> i" for k
        using other [OF that(1) _ that(2)] still(2) [OF still' that(1)] by (cases "k = 0"; cases "parent k = i") (auto simp: ordered_at_def)
      then have "hole_up key ?n i ws" unfolding hole_up_def using child(1) by blast
      then show ?thesis using up_heap [OF i_n, of ws key] len still(1) [OF still'] still' False by (simp add: zs_def)
    qed
  qed
  then show "is_heap key (length ys) ys" using is_heap_butlast [of key zs] zs(1) by (simp add: xy)
  fix P k
  assume P: "\<And>k. k < i \<Longrightarrow> P (xs ! k)" and closed: "\<And>a b. key a < key b \<Longrightarrow> P b \<Longrightarrow> P a" and k: "k < i"
  have "P (zs ! k)"
  proof (cases "?n = i \<or> i < fst (downFrom key i ?n ws)")
    case True
    then show ?thesis using P k vs(3) [of k] i by (auto simp: zs_def at)
  next
    case False
    then have eq: "zs = up key i ws" using still(1) by (simp add: zs_def)
    have before: "P (ws ! k)" if "k < i" for k using P that i by (auto simp: at)
    show ?thesis
    proof (cases "key (ws ! i) < key (ws ! parent i)")
      case True
      then have "P (ws ! i)" using closed before [of "parent i"] k by simp
      then have "P (ws ! l)" if "l \<le> i" for l using before that by (cases "l = i") auto
      then show ?thesis unfolding eq using up_prefix [of i ws P k key] len i k by simp
    next
      case False
      then show ?thesis unfolding eq using before k by (simp add: up_eq [of key i ws])
    qed
  qed
  moreover have "k < length xs - 1" using k i by simp
  ultimately show "P (ys ! k)" using zs(1) by (simp add: xy nth_butlast)
qed

end
