(* ===== verification/Spec2Isabelle.thy ===== *)
theory Spec2Isabelle
  imports Block_Hooks Ledger_Runs Governance_Safety Contract_Storage Binary_Heap
begin

text \<open>
  The system contracts of AxiomLedger.
\<close>

end
